(* ===== verification/Task_Prelude.thy ===== *)
theory Task_Prelude
  imports Main "HOL-Library.Sublist" "HOL-Library.List_Lexorder" "HOL-Library.Char_ord"
begin

text \<open>
  Shared vocabulary of the development: Python exceptions as values of a sum type, the string
  predicates the contracts use, \<^verbatim>\<open>dict.fromkeys\<close> deduplication, decimal printing, and tables
  (lists of rows with a key) with the lookup and update operations every component needs.  The
  locale \<open>key_update\<close> is the contract of an update that leaves the key of a row alone: item,
  constraint, task-head and binding updates all satisfy it and reuse its lemmas.
\<close>

named_theorems task_defs \<open>definitions that the component proofs unfold together\<close>
named_theorems task_frame \<open>which parts of the state an operation leaves alone\<close>

section \<open>Results\<close>

definition bind_res :: "'e + 'a \<Rightarrow> ('a \<Rightarrow> 'e + 'b) \<Rightarrow> 'e + 'b" where
  "bind_res m f = (case m of Inl e \<Rightarrow> Inl e | Inr x \<Rightarrow> f x)"

lemma bind_res_simps [simp]:
  "bind_res (Inl e) f = Inl e"
  "bind_res (Inr x) f = f x"
  by (simp_all add: bind_res_def)

lemma bind_res_eq_Inr [simp]:
  "(bind_res m f = Inr y) \<longleftrightarrow> (\<exists>x. m = Inr x \<and> f x = Inr y)"
  by (cases m) simp_all

lemma bind_res_eq_Inl:
  "(bind_res m f = Inl e) \<longleftrightarrow> (m = Inl e \<or> (\<exists>x. m = Inr x \<and> f x = Inl e))"
  by (cases m) simp_all

text \<open>A loop whose body may raise: the first error stops it.\<close>

fun fold_res :: "('x \<Rightarrow> 's \<Rightarrow> 'e + 's) \<Rightarrow> 'x list \<Rightarrow> 's \<Rightarrow> 'e + 's" where
  "fold_res f [] s = Inr s"
| "fold_res f (x # xs) s = bind_res (f x s) (fold_res f xs)"

lemma fold_res_append:
  "fold_res f (xs @ ys) s = bind_res (fold_res f xs s) (fold_res f ys)"
proof (induction xs arbitrary: s)
  case Nil
  then show ?case by simp
next
  case (Cons x xs)
  then show ?case by (cases "f x s") simp_all
qed

lemma fold_res_invariant:
  assumes "fold_res f xs s = Inr t" and "P s"
    and "\<And>x u v. x \<in> set xs \<Longrightarrow> P u \<Longrightarrow> f x u = Inr v \<Longrightarrow> P v"
  shows "P t"
  using assms
proof (induction xs arbitrary: s)
  case Nil
  then show ?case by simp
next
  case (Cons x xs)
  from Cons.prems(1) obtain u where u: "f x s = Inr u" and rest: "fold_res f xs u = Inr t"
    by auto
  have "P u" using Cons.prems(2) u by (rule Cons.prems(3) [rotated]) simp
  with rest show ?case by (rule Cons.IH) (auto intro: Cons.prems(3))
qed

text \<open>Collecting a list comprehension whose elements may raise.\<close>

fun map_res :: "('a \<Rightarrow> 'e + 'b) \<Rightarrow> 'a list \<Rightarrow> 'e + 'b list" where
  "map_res f [] = Inr []"
| "map_res f (x # xs) = bind_res (f x) (\<lambda>y. bind_res (map_res f xs) (\<lambda>ys. Inr (y # ys)))"

lemma map_res_inverse:
  assumes "\<And>x. x \<in> set xs \<Longrightarrow> g (f x) = Inr x"
  shows "map_res g (map f xs) = Inr xs"
  using assms by (induction xs) simp_all

section \<open>Strings as Python reads them\<close>

text \<open>
  Characters are code points below 256.  \<^verbatim>\<open>str.strip\<close> and the regular-expression class
  \<^verbatim>\<open>\s\<close> use Python's notion of white space.
\<close>

definition code :: "char \<Rightarrow> nat" where
  "code c = of_char c"

definition py_space :: "char \<Rightarrow> bool" where
  "py_space c \<longleftrightarrow> code c \<in> {9, 10, 11, 12, 13, 28, 29, 30, 31, 32, 133, 160}"

definition py_strip :: "string \<Rightarrow> string" where
  "py_strip s = rev (dropWhile py_space (rev (dropWhile py_space s)))"

definition is_alpha :: "char \<Rightarrow> bool" where
  "is_alpha c \<longleftrightarrow> 65 \<le> code c \<and> code c \<le> 90 \<or> 97 \<le> code c \<and> code c \<le> 122"

definition is_digit :: "char \<Rightarrow> bool" where
  "is_digit c \<longleftrightarrow> 48 \<le> code c \<and> code c \<le> 57"

text \<open>Truthiness of an optional string: \<^verbatim>\<open>None\<close> and the empty string are false.\<close>

definition truthy :: "string option \<Rightarrow> bool" where
  "truthy s \<longleftrightarrow> s \<noteq> None \<and> s \<noteq> Some []"

text \<open>\<^verbatim>\<open>str(value)\<close> of an optional string.\<close>

definition py_str :: "string option \<Rightarrow> string" where
  "py_str s = (case s of None \<Rightarrow> ''None'' | Some t \<Rightarrow> t)"

lemma py_str_Some [simp]: "py_str (Some s) = s"
  by (simp add: py_str_def)

lemma truthy_simps [simp]:
  "\<not> truthy None" "truthy (Some s) \<longleftrightarrow> s \<noteq> []"
  by (simp_all add: truthy_def)

lemma truthy_py_str: "truthy s \<Longrightarrow> py_str s \<noteq> []"
  by (cases s) simp_all

fun show_nat :: "nat \<Rightarrow> string" where
  "show_nat n = (if n < 10 then [char_of (48 + n)] else show_nat (n div 10) @ [char_of (48 + n mod 10)])"

declare show_nat.simps [simp del]

fun join_str :: "string \<Rightarrow> string list \<Rightarrow> string" where
  "join_str sep [] = []"
| "join_str sep [x] = x"
| "join_str sep (x # y # ys) = x @ sep @ join_str sep (y # ys)"

section \<open>Deduplication keeping the first occurrence\<close>

definition dedup :: "'a list \<Rightarrow> 'a list" where
  "dedup xs = rev (remdups (rev xs))"

lemma set_dedup [simp]: "set (dedup xs) = set xs"
  by (simp add: dedup_def)

lemma distinct_dedup [simp]: "distinct (dedup xs)"
  by (simp add: dedup_def)

lemma dedup_eq_Nil [simp]: "dedup xs = [] \<longleftrightarrow> xs = []"
  by (metis set_dedup set_empty)

section \<open>Tables\<close>

definition lookup_by :: "('a \<Rightarrow> 'k) \<Rightarrow> 'k \<Rightarrow> 'a list \<Rightarrow> 'a option" where
  "lookup_by key k xs = find (\<lambda>x. key x = k) xs"

definition replace_by :: "('a \<Rightarrow> 'k) \<Rightarrow> 'k \<Rightarrow> ('a \<Rightarrow> 'a) \<Rightarrow> 'a list \<Rightarrow> 'a list" where
  "replace_by key k f xs = map (\<lambda>x. if key x = k then f x else x) xs"

lemma lookup_by_simps [simp]:
  "lookup_by key k [] = None"
  "lookup_by key k (x # xs) = (if key x = k then Some x else lookup_by key k xs)"
  by (simp_all add: lookup_by_def)

lemma lookup_by_None [simp]: "lookup_by key k xs = None \<longleftrightarrow> k \<notin> key ` set xs"
  by (induction xs) auto

lemma lookup_by_None' [simp]: "None = lookup_by key k xs \<longleftrightarrow> k \<notin> key ` set xs"
  by (metis lookup_by_None)

lemma lookup_by_notin [simp]: "k \<notin> key ` set xs \<Longrightarrow> lookup_by key k xs = None"
  by simp

lemma lookup_by_SomeD: "lookup_by key k xs = Some x \<Longrightarrow> x \<in> set xs \<and> key x = k"
  by (induction xs) (auto split: if_splits)

lemma lookup_by_Some_distinct:
  "distinct (map key xs) \<Longrightarrow> lookup_by key k xs = Some x \<longleftrightarrow> x \<in> set xs \<and> key x = k"
  by (induction xs) (auto simp: image_iff)

lemma lookup_by_append:
  "lookup_by key k (xs @ ys) = (case lookup_by key k xs of None \<Rightarrow> lookup_by key k ys | Some x \<Rightarrow> Some x)"
  by (induction xs) auto

lemma lookup_by_snoc:
  "lookup_by key k (xs @ [x]) =
     (if k \<in> key ` set xs then lookup_by key k xs else if key x = k then Some x else None)"
  by (induction xs) auto

lemma lookup_by_filter_other:
  "(\<And>x. x \<in> set xs \<Longrightarrow> key x = k \<Longrightarrow> P x) \<Longrightarrow> lookup_by key k (filter P xs) = lookup_by key k xs"
  by (induction xs) auto

lemma find_filter: "find (\<lambda>x. P x \<and> key x = k) xs = lookup_by key k (filter P xs)"
  by (induction xs) auto

lemma find_snoc_other: "\<not> P x \<Longrightarrow> find P (xs @ [x]) = find P xs"
  by (induction xs) auto

lemma filter_unique:
  "distinct (map key xs) \<Longrightarrow> x \<in> set xs \<Longrightarrow> key x = k \<Longrightarrow> filter (\<lambda>y. key y = k) xs = [x]"
  by (induction xs) (auto simp: filter_empty_conv image_iff)

lemma replace_by_simps [simp]:
  "replace_by key k f [] = []"
  "replace_by key k f (x # xs) = (if key x = k then f x else x) # replace_by key k f xs"
  by (simp_all add: replace_by_def)

lemma length_replace_by [simp]: "length (replace_by key k f xs) = length xs"
  by (simp add: replace_by_def)

lemma replace_by_notin: "k \<notin> key ` set xs \<Longrightarrow> replace_by key k f xs = xs"
  by (induction xs) auto

lemma set_replace_by: "set (replace_by key k f xs) = (\<lambda>x. if key x = k then f x else x) ` set xs"
  by (simp add: replace_by_def)

lemma map_replace_by: "(\<And>x. g (f x) = g x) \<Longrightarrow> map g (replace_by key k f xs) = map g xs"
  by (induction xs) simp_all

lemma list_all_replace_by:
  "list_all P xs \<Longrightarrow> (\<And>x. P x \<Longrightarrow> P (f x)) \<Longrightarrow> list_all P (replace_by key k f xs)"
  by (induction xs) simp_all

locale key_update =
  fixes key :: "'a \<Rightarrow> 'k" and upd :: "'a \<Rightarrow> 'a"
  assumes key_upd: "key (upd x) = key x"
begin

lemma keys_replace: "map key (replace_by key k upd xs) = map key xs"
  by (induction xs) (simp_all add: key_upd)

lemma key_image_replace: "key ` set (replace_by key k upd xs) = key ` set xs"
  by (metis keys_replace list.set_map)

lemma distinct_replace: "distinct (map key (replace_by key k upd xs)) \<longleftrightarrow> distinct (map key xs)"
  by (simp add: keys_replace)

lemma lookup_replace:
  "lookup_by key j (replace_by key k upd xs) =
     (if j = k then map_option upd (lookup_by key k xs) else lookup_by key j xs)"
  by (induction xs) (auto simp: key_upd)

end

section \<open>Reachability and invariants\<close>

text \<open>
  The contract of a transition system with an invariant: what holds initially and is kept by
  every step holds after any sequence of steps.
\<close>

locale invariant_system =
  fixes init :: "'s \<Rightarrow> bool" and step :: "'s \<Rightarrow> 's \<Rightarrow> bool" and inv :: "'s \<Rightarrow> bool"
  assumes inv_init: "init s \<Longrightarrow> inv s"
    and inv_step: "inv s \<Longrightarrow> step s t \<Longrightarrow> inv t"
begin

lemma inv_star: "step\<^sup>*\<^sup>* s t \<Longrightarrow> inv s \<Longrightarrow> inv t"
  by (induction rule: rtranclp_induct) (auto intro: inv_step)

lemma inv_reachable: "init s \<Longrightarrow> step\<^sup>*\<^sup>* s t \<Longrightarrow> inv t"
  by (blast intro: inv_init inv_star)

end

end
