(* ===== verification/Json_Values.thy ===== *)
theory Json_Values
  imports Task_Prelude
begin

text \<open>
  JSON values as the code stores and hashes them (\<^verbatim>\<open>src/atmem/core/canonical.py\<close>).  A timestamp is
  kept as the UTC instant its ISO-8601 text denotes (\<open>JTime\<close>).  \<open>canonical\<close> is the value that
  \<^verbatim>\<open>json.dumps(value, sort_keys=True)\<close> prints: object keys in code-point order at every level.  The
  printing itself and SHA-256 are the parameter \<open>sha_json\<close> of the record \<open>hashes\<close>; no law about it
  is assumed except where a lemma names one.
\<close>

datatype json =
    JNull
  | JBool bool
  | JNum int
  | JStr string
  | JTime int
  | JList "json list"
  | JObj "(string \<times> json) list"

fun canonical :: "json \<Rightarrow> json" where
  "canonical (JList xs) = JList (map canonical xs)"
| "canonical (JObj kvs) = JObj (sort_key fst (map (\<lambda>kv. (fst kv, canonical (snd kv))) kvs))"
| "canonical JNull = JNull"
| "canonical (JBool b) = JBool b"
| "canonical (JNum n) = JNum n"
| "canonical (JStr s) = JStr s"
| "canonical (JTime t) = JTime t"

record hashes =
  sha_json :: "json \<Rightarrow> string"
  sha_decision :: "string \<Rightarrow> int \<Rightarrow> string"

definition canonical_digest :: "hashes \<Rightarrow> json \<Rightarrow> string" where
  "canonical_digest H v = ''sha256:'' @ sha_json H (canonical v)"

section \<open>Reading objects\<close>

text \<open>
  \<open>jget\<close> is \<^verbatim>\<open>payload.get(key)\<close> on an object; the typed readers accept the shapes that the
  \<^verbatim>\<open>to_dict\<close> methods write and refuse every other shape.
\<close>

datatype py_error =
    ValueError
  | KeyError
  | TypeError

fun jget :: "json \<Rightarrow> string \<Rightarrow> json option" where
  "jget (JObj kvs) k = map_of kvs k"
| "jget _ k = None"

definition jfield :: "json \<Rightarrow> string \<Rightarrow> (json \<Rightarrow> 'a option) \<Rightarrow> py_error + 'a" where
  "jfield j k read =
     (case jget j k of
        None \<Rightarrow> Inl KeyError
      | Some v \<Rightarrow> (case read v of None \<Rightarrow> Inl TypeError | Some x \<Rightarrow> Inr x))"

fun as_str :: "json \<Rightarrow> string option" where
  "as_str (JStr s) = Some s"
| "as_str _ = None"

fun as_num :: "json \<Rightarrow> int option" where
  "as_num (JNum n) = Some n"
| "as_num _ = None"

fun as_bool :: "json \<Rightarrow> bool option" where
  "as_bool (JBool b) = Some b"
| "as_bool _ = None"

fun as_time :: "json \<Rightarrow> int option" where
  "as_time (JTime t) = Some t"
| "as_time _ = None"

fun as_list :: "json \<Rightarrow> json list option" where
  "as_list (JList xs) = Some xs"
| "as_list _ = None"

fun as_obj :: "json \<Rightarrow> (string \<times> json) list option" where
  "as_obj (JObj kvs) = Some kvs"
| "as_obj _ = None"

fun as_opt :: "(json \<Rightarrow> 'a option) \<Rightarrow> json \<Rightarrow> 'a option option" where
  "as_opt read JNull = Some None"
| "as_opt read v = map_option Some (read v)"

fun all_some :: "'a option list \<Rightarrow> 'a list option" where
  "all_some [] = Some []"
| "all_some (x # xs) =
     (case x of None \<Rightarrow> None | Some y \<Rightarrow> map_option (Cons y) (all_some xs))"

definition as_strs :: "json \<Rightarrow> string list option" where
  "as_strs v = (case as_list v of None \<Rightarrow> None | Some xs \<Rightarrow> all_some (map as_str xs))"

text \<open>\<^verbatim>\<open>payload.get(key) or default\<close>: absent and falsy values give the default.\<close>

fun py_falsy :: "json \<Rightarrow> bool" where
  "py_falsy JNull = True"
| "py_falsy (JBool b) = (\<not> b)"
| "py_falsy (JNum n) = (n = 0)"
| "py_falsy (JStr s) = (s = [])"
| "py_falsy (JTime t) = False"
| "py_falsy (JList xs) = (xs = [])"
| "py_falsy (JObj kvs) = (kvs = [])"

definition jget_or :: "json \<Rightarrow> string \<Rightarrow> (json \<Rightarrow> 'a option) \<Rightarrow> 'a \<Rightarrow> py_error + 'a" where
  "jget_or j k read d =
     (case jget j k of
        None \<Rightarrow> Inr d
      | Some v \<Rightarrow> if py_falsy v then Inr d else (case read v of None \<Rightarrow> Inl TypeError | Some x \<Rightarrow> Inr x))"

definition jopt_num :: "json \<Rightarrow> string \<Rightarrow> py_error + int option" where
  "jopt_num j k =
     (case jget j k of
        None \<Rightarrow> Inr None
      | Some v \<Rightarrow> (case as_opt as_num v of None \<Rightarrow> Inl TypeError | Some x \<Rightarrow> Inr x))"

definition jopt_str :: "json \<Rightarrow> string \<Rightarrow> py_error + string option" where
  "jopt_str j k =
     (case jget j k of
        None \<Rightarrow> Inr None
      | Some v \<Rightarrow> (case as_opt as_str v of None \<Rightarrow> Inl TypeError | Some x \<Rightarrow> Inr x))"

text \<open>\<^verbatim>\<open>Enum(payload.get(key, default))\<close>; without a default the key must be present.\<close>

definition jenum :: "json \<Rightarrow> string \<Rightarrow> (string \<Rightarrow> 'a option) \<Rightarrow> 'a option \<Rightarrow> py_error + 'a" where
  "jenum j k of_string d =
     (case jget j k of
        None \<Rightarrow> (case d of None \<Rightarrow> Inl KeyError | Some x \<Rightarrow> Inr x)
      | Some (JStr s) \<Rightarrow> (case of_string s of None \<Rightarrow> Inl ValueError | Some x \<Rightarrow> Inr x)
      | Some _ \<Rightarrow> Inl ValueError)"

definition jdefault_num :: "json \<Rightarrow> string \<Rightarrow> int \<Rightarrow> py_error + int" where
  "jdefault_num j k d =
     (case jget j k of
        None \<Rightarrow> Inr d
      | Some v \<Rightarrow> (case as_num v of None \<Rightarrow> Inl TypeError | Some n \<Rightarrow> Inr n))"

definition opt_json :: "('a \<Rightarrow> json) \<Rightarrow> 'a option \<Rightarrow> json" where
  "opt_json f x = (case x of None \<Rightarrow> JNull | Some y \<Rightarrow> f y)"

definition strs_json :: "string list \<Rightarrow> json" where
  "strs_json xs = JList (map JStr xs)"

lemma all_some_map_Some [simp]: "all_some (map (\<lambda>x. Some (f x)) xs) = Some (map f xs)"
  by (induction xs) simp_all

lemma as_strs_strs_json [simp]: "as_strs (strs_json xs) = Some xs"
  by (simp add: as_strs_def strs_json_def comp_def)

lemma as_opt_opt_json [simp]:
  "as_opt as_str (opt_json JStr x) = Some x"
  "as_opt as_num (opt_json JNum n) = Some n"
  by (auto simp: opt_json_def split: option.splits)

lemma canonical_digest_cong: "canonical v = canonical w \<Longrightarrow> canonical_digest H v = canonical_digest H w"
  by (simp add: canonical_digest_def)

lemma jget_or_strs:
  "jget j k = Some (strs_json xs) \<Longrightarrow> jget_or j k as_strs d = (if xs = [] then Inr d else Inr xs)"
  by (simp add: jget_or_def) (simp add: strs_json_def)

lemma all_some_length: "all_some xs = Some ys \<Longrightarrow> length ys = length xs"
  by (induction xs arbitrary: ys) (auto split: option.splits)

lemma as_opt_simps [simp]: "as_opt read JNull = Some None" "as_opt as_num (JNum n) = Some (Some n)"
  by simp_all

lemma jopt_num_read: "jget j k = Some (opt_json JNum x) \<Longrightarrow> jopt_num j k = Inr x"
  by (simp add: jopt_num_def)

lemma jopt_str_read: "jget j k = Some (opt_json JStr x) \<Longrightarrow> jopt_str j k = Inr x"
  by (simp add: jopt_str_def)

lemma jget_or_list: "jget j k = Some (JList xs) \<Longrightarrow> jget_or j k as_list [] = Inr xs"
  by (simp add: jget_or_def)

lemma jget_or_obj: "jget j k = Some (JObj kvs) \<Longrightarrow> jget_or j k as_obj [] = Inr kvs"
  by (simp add: jget_or_def)

lemma jget_or_bool: "jget j k = Some (JBool b) \<Longrightarrow> jget_or j k as_bool False = Inr b"
  by (simp add: jget_or_def)

lemma jenum_read: "jget j k = Some (JStr (val x)) \<Longrightarrow> of_string (val x) = Some x \<Longrightarrow> jenum j k of_string d = Inr x"
  by (simp add: jenum_def)

end
