(* ===== verification/Task_Contracts.thy ===== *)
theory Task_Contracts
  imports Json_Values
begin

text \<open>
  The closed contracts of governed task state (\<^verbatim>\<open>src/atmem/contracts/task_state.py\<close>, with
  \<^verbatim>\<open>AuthorityScope\<close> of \<^verbatim>\<open>contracts/models.py\<close>): the enumerations, the frozen dataclasses as
  records, every \<^verbatim>\<open>__post_init__\<close> as a boolean predicate (the constructor raises
  \<^verbatim>\<open>ValueError\<close> exactly when the predicate is false), the properties and methods, and the
  \<^verbatim>\<open>to_dict\<close> encodings with the digests computed from them.  The assurance classes are a linear
  order by rank.
\<close>

type_synonym timestamp = int

section \<open>Enumerations\<close>

definition enum_of :: "('a \<Rightarrow> string) \<Rightarrow> 'a list \<Rightarrow> string \<Rightarrow> 'a option" where
  "enum_of val members s = find (\<lambda>x. val x = s) members"

datatype task_lifecycle = OPEN | PAUSED | COMPLETED_L | CANCELLED | EXPIRED

fun lifecycle_value :: "task_lifecycle \<Rightarrow> string" where
  "lifecycle_value OPEN = ''open''"
| "lifecycle_value PAUSED = ''paused''"
| "lifecycle_value COMPLETED_L = ''completed''"
| "lifecycle_value CANCELLED = ''cancelled''"
| "lifecycle_value EXPIRED = ''expired''"

definition TaskLifecycle_of :: "string \<Rightarrow> task_lifecycle option" where
  "TaskLifecycle_of = enum_of lifecycle_value [OPEN, PAUSED, COMPLETED_L, CANCELLED, EXPIRED]"

definition lifecycle_terminal :: "task_lifecycle \<Rightarrow> bool" where
  "lifecycle_terminal l \<longleftrightarrow> l \<in> {COMPLETED_L, CANCELLED, EXPIRED}"

datatype item_status = PENDING | READY | RUNNING | BLOCKED | COMPLETED | SKIPPED | FAILED

fun status_value :: "item_status \<Rightarrow> string" where
  "status_value PENDING = ''pending''"
| "status_value READY = ''ready''"
| "status_value RUNNING = ''running''"
| "status_value BLOCKED = ''blocked''"
| "status_value COMPLETED = ''completed''"
| "status_value SKIPPED = ''skipped''"
| "status_value FAILED = ''failed''"

definition ItemStatus_of :: "string \<Rightarrow> item_status option" where
  "ItemStatus_of = enum_of status_value [PENDING, READY, RUNNING, BLOCKED, COMPLETED, SKIPPED, FAILED]"

definition settled :: "item_status \<Rightarrow> bool" where
  "settled s \<longleftrightarrow> s \<in> {COMPLETED, SKIPPED}"

datatype step_outcome = ACCEPTED | REJECTED | CONFLICT | NO_CHANGE

fun outcome_value :: "step_outcome \<Rightarrow> string" where
  "outcome_value ACCEPTED = ''accepted''"
| "outcome_value REJECTED = ''rejected''"
| "outcome_value CONFLICT = ''conflict''"
| "outcome_value NO_CHANGE = ''no_change''"

definition StepOutcome_of :: "string \<Rightarrow> step_outcome option" where
  "StepOutcome_of = enum_of outcome_value [ACCEPTED, REJECTED, CONFLICT, NO_CHANGE]"

datatype assurance =
    ASSERTED | MODEL_INTERPRETED | RULE_EXTRACTED | HOST_REPORTED | OPERATOR_CONFIRMED
  | INDEPENDENTLY_VERIFIED

fun assurance_value :: "assurance \<Rightarrow> string" where
  "assurance_value ASSERTED = ''asserted''"
| "assurance_value MODEL_INTERPRETED = ''model_interpreted''"
| "assurance_value RULE_EXTRACTED = ''rule_extracted''"
| "assurance_value HOST_REPORTED = ''host_reported''"
| "assurance_value OPERATOR_CONFIRMED = ''operator_confirmed''"
| "assurance_value INDEPENDENTLY_VERIFIED = ''independently_verified''"

definition Assurance_of :: "string \<Rightarrow> assurance option" where
  "Assurance_of = enum_of assurance_value
     [ASSERTED, MODEL_INTERPRETED, RULE_EXTRACTED, HOST_REPORTED, OPERATOR_CONFIRMED, INDEPENDENTLY_VERIFIED]"

fun assurance_rank :: "assurance \<Rightarrow> nat" where
  "assurance_rank ASSERTED = 0"
| "assurance_rank MODEL_INTERPRETED = 1"
| "assurance_rank RULE_EXTRACTED = 2"
| "assurance_rank HOST_REPORTED = 3"
| "assurance_rank OPERATOR_CONFIRMED = 4"
| "assurance_rank INDEPENDENTLY_VERIFIED = 5"

lemma assurance_rank_inject [simp]: "assurance_rank a = assurance_rank b \<longleftrightarrow> a = b"
  by (cases a; cases b) simp_all

instantiation assurance :: linorder
begin

definition less_eq_assurance :: "assurance \<Rightarrow> assurance \<Rightarrow> bool" where
  "less_eq_assurance a b \<longleftrightarrow> assurance_rank a \<le> assurance_rank b"

definition less_assurance :: "assurance \<Rightarrow> assurance \<Rightarrow> bool" where
  "less_assurance a b \<longleftrightarrow> assurance_rank a < assurance_rank b"

instance
  by standard (auto simp: less_eq_assurance_def less_assurance_def)

end

lemma assurance_rank_max [simp]: "assurance_rank (max a b) = max (assurance_rank a) (assurance_rank b)"
  by (simp add: max_def less_eq_assurance_def)

datatype actor_role =
    ATMEM_AUTHORITY | POLICY_EVALUATOR | ATBOT_INTELLIGENCE | HOST_AGENT | OPERATOR
  | ADMINISTRATOR | VERIFIER | AUDITOR | DELEGATED_PROVIDER

fun role_value :: "actor_role \<Rightarrow> string" where
  "role_value ATMEM_AUTHORITY = ''atmem_authority''"
| "role_value POLICY_EVALUATOR = ''policy_evaluator''"
| "role_value ATBOT_INTELLIGENCE = ''atbot_intelligence''"
| "role_value HOST_AGENT = ''host_agent''"
| "role_value OPERATOR = ''operator''"
| "role_value ADMINISTRATOR = ''administrator''"
| "role_value VERIFIER = ''verifier''"
| "role_value AUDITOR = ''auditor''"
| "role_value DELEGATED_PROVIDER = ''delegated_provider''"

datatype guard_type = NO_PROGRESS | DEPENDENCY_UNSATISFIED | OUT_OF_SCOPE | COMPLETION_NOT_ALLOWED

fun guard_value :: "guard_type \<Rightarrow> string" where
  "guard_value NO_PROGRESS = ''no_progress''"
| "guard_value DEPENDENCY_UNSATISFIED = ''dependency_unsatisfied''"
| "guard_value OUT_OF_SCOPE = ''out_of_scope''"
| "guard_value COMPLETION_NOT_ALLOWED = ''completion_not_allowed''"

definition GuardType_of :: "string \<Rightarrow> guard_type option" where
  "GuardType_of = enum_of guard_value
     [NO_PROGRESS, DEPENDENCY_UNSATISFIED, OUT_OF_SCOPE, COMPLETION_NOT_ALLOWED]"

datatype context_disposition = INJECTED | WITHHELD

fun disposition_value :: "context_disposition \<Rightarrow> string" where
  "disposition_value INJECTED = ''injected''"
| "disposition_value WITHHELD = ''withheld''"

datatype operation_kind =
    SET_PHASE | SET_ITEM_STATUS | ADD_ITEM | SET_ITEM_CONTENT | SET_ITEM_BLOCKER
  | ADD_CONSTRAINT | SATISFY_CONSTRAINT | MARK_SOURCE_INSPECTED | LOCK_SCHEMA

fun operation_value :: "operation_kind \<Rightarrow> string" where
  "operation_value SET_PHASE = ''set_phase''"
| "operation_value SET_ITEM_STATUS = ''set_item_status''"
| "operation_value ADD_ITEM = ''add_item''"
| "operation_value SET_ITEM_CONTENT = ''set_item_content''"
| "operation_value SET_ITEM_BLOCKER = ''set_item_blocker''"
| "operation_value ADD_CONSTRAINT = ''add_constraint''"
| "operation_value SATISFY_CONSTRAINT = ''satisfy_constraint''"
| "operation_value MARK_SOURCE_INSPECTED = ''mark_source_inspected''"
| "operation_value LOCK_SCHEMA = ''lock_schema''"

definition all_operation_kinds :: "operation_kind list" where
  "all_operation_kinds =
     [SET_PHASE, SET_ITEM_STATUS, ADD_ITEM, SET_ITEM_CONTENT, SET_ITEM_BLOCKER, ADD_CONSTRAINT,
      SATISFY_CONSTRAINT, MARK_SOURCE_INSPECTED, LOCK_SCHEMA]"

lemma enum_inverse [simp]:
  "TaskLifecycle_of (lifecycle_value l) = Some l"
  "ItemStatus_of (status_value s) = Some s"
  "StepOutcome_of (outcome_value u) = Some u"
  "Assurance_of (assurance_value a) = Some a"
  "GuardType_of (guard_value g) = Some g"
  by (cases l, simp_all add: TaskLifecycle_of_def enum_of_def,
      cases s, simp_all add: ItemStatus_of_def enum_of_def,
      cases u, simp_all add: StepOutcome_of_def enum_of_def,
      cases a, simp_all add: Assurance_of_def enum_of_def,
      cases g, simp_all add: GuardType_of_def enum_of_def)

section \<open>Reason codes, bounds and text checks\<close>

definition MAX_GOAL_CHARS :: nat where "MAX_GOAL_CHARS = 2000"
definition MAX_TEXT_CHARS :: nat where "MAX_TEXT_CHARS = 2000"
definition MAX_ITEMS :: nat where "MAX_ITEMS = 500"
definition MAX_CONSTRAINTS :: nat where "MAX_CONSTRAINTS = 100"
definition MAX_OPERATIONS :: nat where "MAX_OPERATIONS = 50"

definition REASON_CODES :: "string list" where
  "REASON_CODES =
     [''transition_accepted'', ''operator_correction_accepted'', ''lifecycle_change_accepted'',
      ''state_already_matches'', ''duplicate_idempotency_key'',
      ''stale_base_revision'', ''concurrent_successor_committed'',
      ''scope_mismatch'', ''capability_denied'', ''task_not_eligible'', ''task_is_terminal'',
      ''task_is_paused'',
      ''unknown_item'', ''unknown_constraint'', ''unknown_source'', ''duplicate_item_id'',
      ''schema_is_locked'', ''full_replacement_refused'', ''operation_not_permitted_by_profile'',
      ''too_many_operations'', ''empty_delta'',
      ''illegal_phase_transition'', ''illegal_status_transition'', ''dependency_unsatisfied'',
      ''required_items_incomplete'', ''constraint_unsatisfied'',
      ''unknown_evidence'', ''evidence_required'', ''assurance_ceiling_exceeded'', ''reason_required'',
      ''expired_absolute_age'', ''expired_no_progress'', ''expiry_not_operator_initiated'',
      ''task_context_selection_required'', ''task_context_not_eligible'',
      ''task_context_budget_exceeded'',
      ''task_state_disabled'', ''task_state_shadow_mode'', ''capability_unavailable'',
      ''integrity_check_failed'',
      ''binding_registered'', ''binding_revoked'', ''binding_already_active'', ''binding_not_found'',
      ''task_binding_conflict'', ''task_binding_stale_session'', ''session_identity_required'',
      ''host_task_not_bound_to_session'', ''owner_required'', ''host_proposal_accepted'']"

definition id_char :: "char \<Rightarrow> bool" where
  "id_char c \<longleftrightarrow> is_alpha c \<or> is_digit c \<or> c \<in> {CHR ''_'', CHR ''.'', CHR '':'', CHR ''-''}"

definition identifier_ok :: "string \<Rightarrow> bool" where
  "identifier_ok s =
     (case py_strip s of
        [] \<Rightarrow> False
      | c # cs \<Rightarrow> is_alpha c \<and> list_all id_char cs \<and> length cs \<le> 127)"

definition text_ok :: "nat \<Rightarrow> string \<Rightarrow> bool" where
  "text_ok limit s \<longleftrightarrow> py_strip s \<noteq> [] \<and> length (py_strip s) \<le> limit"

definition reason_codes_ok :: "string list \<Rightarrow> bool" where
  "reason_codes_ok codes =
     (let cs = dedup (map py_strip codes)
      in cs \<noteq> [] \<and> list_all (\<lambda>c. c \<in> set REASON_CODES) cs)"

definition hex_digit :: "char \<Rightarrow> bool" where
  "hex_digit c \<longleftrightarrow> is_digit c \<or> 97 \<le> code c \<and> code c \<le> 102"

definition digest_ok :: "string \<Rightarrow> bool" where
  "digest_ok s \<longleftrightarrow> take 7 s = ''sha256:'' \<and> length s = 71 \<and> list_all hex_digit (drop 7 s)"

text \<open>\<^verbatim>\<open>_closed\<close> and \<^verbatim>\<open>_host_request\<close> look only at the keys of the payload.\<close>

definition closed_ok :: "string list \<Rightarrow> string list \<Rightarrow> bool" where
  "closed_ok keys allowed \<longleftrightarrow> set keys - set allowed - {''format''} = {}"

definition HOST_FORBIDDEN_FIELDS :: "string list" where
  "HOST_FORBIDDEN_FIELDS =
     [''actor_role'', ''role'', ''capability'', ''capabilities'', ''authority'', ''permissions'']"

definition host_request_ok :: "string list \<Rightarrow> string list \<Rightarrow> bool" where
  "host_request_ok keys allowed \<longleftrightarrow>
     set keys \<inter> set HOST_FORBIDDEN_FIELDS = {} \<and> closed_ok keys allowed"

section \<open>Scope, evidence, profiles\<close>

record authority_scope =
  sc_subject_id :: string
  sc_agent_id :: string
  sc_workspace_id :: string

definition AuthorityScope_ok :: "authority_scope \<Rightarrow> bool" where
  "AuthorityScope_ok sc \<longleftrightarrow>
     identifier_ok (sc_subject_id sc) \<and> identifier_ok (sc_agent_id sc) \<and> identifier_ok (sc_workspace_id sc)"

definition scope_fields :: "authority_scope \<Rightarrow> (string \<times> json) list" where
  "scope_fields sc =
     [(''subject_id'', JStr (sc_subject_id sc)),
      (''agent_id'', JStr (sc_agent_id sc)),
      (''workspace_id'', JStr (sc_workspace_id sc))]"

definition AuthorityScope_to_dict :: "authority_scope \<Rightarrow> json" where
  "AuthorityScope_to_dict sc = JObj (scope_fields sc @ [(''format'', JStr ''atmem-authority-scope-v1'')])"

record evidence_ref =
  er_kind :: string
  er_reference_id :: string
  er_sha256 :: "string option"

definition EVIDENCE_KINDS :: "string list" where
  "EVIDENCE_KINDS =
     [''source'', ''record'', ''audit_event'', ''blackbox_event'', ''tool_call'', ''verifier_result'',
      ''operator_request'', ''policy_rule'']"

definition EvidenceRef_ok :: "evidence_ref \<Rightarrow> bool" where
  "EvidenceRef_ok e \<longleftrightarrow>
     er_kind e \<in> set EVIDENCE_KINDS \<and> identifier_ok (er_reference_id e) \<and>
     (case er_sha256 e of None \<Rightarrow> True | Some d \<Rightarrow> digest_ok d)"

definition evidence_json :: "evidence_ref \<Rightarrow> json" where
  "evidence_json e =
     JObj [(''kind'', JStr (er_kind e)),
           (''reference_id'', JStr (er_reference_id e)),
           (''sha256'', opt_json JStr (er_sha256 e))]"

record expiry_policy =
  xp_max_absolute_age_ms :: "int option"
  xp_max_no_progress_age_ms :: "int option"

definition positive_opt :: "int option \<Rightarrow> bool" where
  "positive_opt x = (case x of None \<Rightarrow> True | Some v \<Rightarrow> 0 < v)"

definition ExpiryPolicy_ok :: "expiry_policy \<Rightarrow> bool" where
  "ExpiryPolicy_ok x \<longleftrightarrow>
     positive_opt (xp_max_absolute_age_ms x) \<and> positive_opt (xp_max_no_progress_age_ms x)"

definition expiry_enabled :: "expiry_policy \<Rightarrow> bool" where
  "expiry_enabled x \<longleftrightarrow> xp_max_absolute_age_ms x \<noteq> None \<or> xp_max_no_progress_age_ms x \<noteq> None"

record task_profile =
  pf_profile_id :: string
  pf_version :: string
  pf_phases :: "string list"
  pf_phase_transitions :: "(string \<times> string) list"
  pf_required_item_kinds :: "string list"
  pf_optional_context_fields :: "string list"
  pf_permitted_operations :: "operation_kind list"
  pf_no_progress_action_threshold :: int
  pf_expiry :: expiry_policy
  pf_allow_schema_extension_phases :: "string list"
  pf_description :: string
  pf_binding_lifetime_ms :: "int option"

definition TaskProfile_ok :: "task_profile \<Rightarrow> bool" where
  "TaskProfile_ok p \<longleftrightarrow>
     identifier_ok (pf_profile_id p) \<and> identifier_ok (pf_version p) \<and>
     pf_phases p \<noteq> [] \<and> distinct (pf_phases p) \<and>
     list_all (\<lambda>(a, b). a \<in> set (pf_phases p) \<and> b \<in> set (pf_phases p)) (pf_phase_transitions p) \<and>
     1 \<le> pf_no_progress_action_threshold p \<and>
     list_all (\<lambda>ph. ph \<in> set (pf_phases p)) (pf_allow_schema_extension_phases p) \<and>
     positive_opt (pf_binding_lifetime_ms p)"

text \<open>\<^verbatim>\<open>self.phases[0]\<close> and \<^verbatim>\<open>self.phases[-1]\<close>; the constructor refuses an empty tuple.\<close>

definition initial_phase :: "task_profile \<Rightarrow> string" where
  "initial_phase p = (case pf_phases p of [] \<Rightarrow> [] | ph # _ \<Rightarrow> ph)"

definition terminal_phase :: "task_profile \<Rightarrow> string" where
  "terminal_phase p = (case rev (pf_phases p) of [] \<Rightarrow> [] | ph # _ \<Rightarrow> ph)"

definition allows_phase_transition :: "task_profile \<Rightarrow> string \<Rightarrow> string \<Rightarrow> bool" where
  "allows_phase_transition p source target \<longleftrightarrow> (source, target) \<in> set (pf_phase_transitions p)"

definition allows_operation :: "task_profile \<Rightarrow> operation_kind \<Rightarrow> bool" where
  "allows_operation p k \<longleftrightarrow> k \<in> set (pf_permitted_operations p)"

definition TaskProfile_to_dict :: "task_profile \<Rightarrow> json" where
  "TaskProfile_to_dict p =
     JObj [(''profile_id'', JStr (pf_profile_id p)),
           (''version'', JStr (pf_version p)),
           (''phases'', strs_json (pf_phases p)),
           (''required_item_kinds'', strs_json (pf_required_item_kinds p)),
           (''optional_context_fields'', strs_json (pf_optional_context_fields p)),
           (''no_progress_action_threshold'', JNum (pf_no_progress_action_threshold p)),
           (''expiry'', JObj [(''max_absolute_age_ms'', opt_json JNum (xp_max_absolute_age_ms (pf_expiry p))),
                              (''max_no_progress_age_ms'', opt_json JNum (xp_max_no_progress_age_ms (pf_expiry p)))]),
           (''allow_schema_extension_phases'', strs_json (pf_allow_schema_extension_phases p)),
           (''description'', JStr (pf_description p)),
           (''binding_lifetime_ms'', opt_json JNum (pf_binding_lifetime_ms p)),
           (''format'', JStr ''atmem-task-profile-v1''),
           (''phase_transitions'', JList (map (\<lambda>(a, b). strs_json [a, b]) (pf_phase_transitions p))),
           (''permitted_operations'', strs_json (map operation_value (pf_permitted_operations p)))]"

definition profile_digest :: "hashes \<Rightarrow> task_profile \<Rightarrow> string" where
  "profile_digest H p = canonical_digest H (TaskProfile_to_dict p)"

section \<open>Sessions and bindings\<close>

record host_session_identity =
  hs_host_type :: string
  hs_session_key :: string
  hs_session_epoch :: string

definition HostSessionIdentity_ok :: "host_session_identity \<Rightarrow> bool" where
  "HostSessionIdentity_ok i \<longleftrightarrow>
     identifier_ok (hs_host_type i) \<and> identifier_ok (hs_session_key i) \<and> identifier_ok (hs_session_epoch i)"

record session_binding =
  sb_binding_id :: string
  sb_scope :: authority_scope
  sb_identity :: host_session_identity
  sb_task_id :: string
  sb_actor :: string
  sb_reason :: string
  sb_registered_at :: timestamp
  sb_source :: string
  sb_evidence :: "evidence_ref list"
  sb_expires_at :: "timestamp option"
  sb_revoked_at :: "timestamp option"
  sb_revoked_by :: "string option"
  sb_revoked_reason :: "string option"

definition SessionBinding_ok :: "session_binding \<Rightarrow> bool" where
  "SessionBinding_ok b \<longleftrightarrow>
     identifier_ok (sb_binding_id b) \<and> identifier_ok (sb_task_id b) \<and>
     text_ok MAX_TEXT_CHARS (sb_actor b) \<and> text_ok MAX_TEXT_CHARS (sb_reason b)"

definition binding_active :: "session_binding \<Rightarrow> bool" where
  "binding_active b \<longleftrightarrow> sb_revoked_at b = None"

definition binding_key :: "session_binding \<Rightarrow> authority_scope \<times> host_session_identity" where
  "binding_key b = (sb_scope b, sb_identity b)"

datatype binding_resolution = EXPLICIT | BOUND | NONE | CONFLICT_B | STALE_SESSION | INELIGIBLE

definition delivers :: "binding_resolution \<Rightarrow> bool" where
  "delivers r \<longleftrightarrow> r \<in> {EXPLICIT, BOUND}"

section \<open>Items, constraints, snapshots\<close>

record task_start_request =
  sr_task_id :: string
  sr_scope :: authority_scope
  sr_profile_id :: string
  sr_profile_version :: string
  sr_goal :: string
  sr_actor :: string
  sr_actor_role :: actor_role
  sr_idempotency_key :: string
  sr_constraints :: "string list"
  sr_sources_to_inspect :: "string list"
  sr_evidence :: "evidence_ref list"
  sr_continues_task_id :: "string option"

definition TaskStartRequest_ok :: "task_start_request \<Rightarrow> bool" where
  "TaskStartRequest_ok r \<longleftrightarrow>
     identifier_ok (sr_task_id r) \<and> identifier_ok (sr_profile_id r) \<and>
     text_ok MAX_GOAL_CHARS (sr_goal r) \<and> text_ok 200 (sr_actor r) \<and>
     text_ok 256 (sr_idempotency_key r) \<and> length (sr_constraints r) \<le> MAX_CONSTRAINTS"

record task_item =
  ti_item_id :: string
  ti_kind :: string
  ti_title :: string
  ti_status :: item_status
  ti_content :: "(string \<times> json) list"
  ti_depends_on :: "string list"
  ti_blocker_reason :: "string option"
  ti_skip_reason :: "string option"
  ti_assurance :: assurance
  ti_evidence :: "evidence_ref list"
  ti_required :: bool

definition TaskItem_ok :: "task_item \<Rightarrow> bool" where
  "TaskItem_ok t \<longleftrightarrow>
     identifier_ok (ti_item_id t) \<and> text_ok 100 (ti_kind t) \<and> text_ok MAX_TEXT_CHARS (ti_title t) \<and>
     (ti_status t = BLOCKED \<longrightarrow> truthy (ti_blocker_reason t)) \<and>
     (ti_status t = SKIPPED \<longrightarrow> truthy (ti_skip_reason t)) \<and>
     ti_item_id t \<notin> set (ti_depends_on t)"

definition TaskItem_to_dict :: "task_item \<Rightarrow> json" where
  "TaskItem_to_dict t =
     JObj [(''item_id'', JStr (ti_item_id t)),
           (''kind'', JStr (ti_kind t)),
           (''title'', JStr (ti_title t)),
           (''status'', JStr (status_value (ti_status t))),
           (''content'', JObj (ti_content t)),
           (''depends_on'', strs_json (ti_depends_on t)),
           (''blocker_reason'', opt_json JStr (ti_blocker_reason t)),
           (''skip_reason'', opt_json JStr (ti_skip_reason t)),
           (''assurance'', JStr (assurance_value (ti_assurance t))),
           (''evidence'', JList (map evidence_json (ti_evidence t))),
           (''required'', JBool (ti_required t)),
           (''format'', JStr ''atmem-task-item-v1'')]"

record task_constraint =
  tc_constraint_id :: string
  tc_text :: string
  tc_satisfied :: bool
  tc_required_for_completion :: bool

definition TaskConstraint_ok :: "task_constraint \<Rightarrow> bool" where
  "TaskConstraint_ok c \<longleftrightarrow> identifier_ok (tc_constraint_id c) \<and> text_ok MAX_TEXT_CHARS (tc_text c)"

definition constraint_json :: "task_constraint \<Rightarrow> json" where
  "constraint_json c =
     JObj [(''constraint_id'', JStr (tc_constraint_id c)),
           (''text'', JStr (tc_text c)),
           (''satisfied'', JBool (tc_satisfied c)),
           (''required_for_completion'', JBool (tc_required_for_completion c))]"

record task_state =
  ts_task_id :: string
  ts_scope :: authority_scope
  ts_revision :: int
  ts_lifecycle :: task_lifecycle
  ts_phase :: string
  ts_goal :: string
  ts_profile_id :: string
  ts_profile_version :: string
  ts_items :: "task_item list"
  ts_constraints :: "task_constraint list"
  ts_sources_to_inspect :: "string list"
  ts_completed_sources :: "string list"
  ts_schema_locked :: bool
  ts_created_at :: timestamp
  ts_updated_at :: timestamp
  ts_last_progress_at :: timestamp
  ts_parent_revision :: "int option"
  ts_policy_generation :: int

definition item_ids :: "task_state \<Rightarrow> string list" where
  "item_ids s = map ti_item_id (ts_items s)"

definition TaskState_ok :: "task_state \<Rightarrow> bool" where
  "TaskState_ok s \<longleftrightarrow>
     identifier_ok (ts_task_id s) \<and> 1 \<le> ts_revision s \<and> length (ts_items s) \<le> MAX_ITEMS \<and>
     distinct (item_ids s) \<and>
     list_all (\<lambda>t. set (ti_depends_on t) \<subseteq> set (item_ids s)) (ts_items s)"

definition TaskState_to_dict :: "task_state \<Rightarrow> json" where
  "TaskState_to_dict s =
     JObj [(''task_id'', JStr (ts_task_id s)),
           (''scope'', JObj (scope_fields (ts_scope s))),
           (''revision'', JNum (ts_revision s)),
           (''lifecycle'', JStr (lifecycle_value (ts_lifecycle s))),
           (''phase'', JStr (ts_phase s)),
           (''goal'', JStr (ts_goal s)),
           (''profile_id'', JStr (ts_profile_id s)),
           (''profile_version'', JStr (ts_profile_version s)),
           (''items'', JList (map TaskItem_to_dict (ts_items s))),
           (''constraints'', JList (map constraint_json (ts_constraints s))),
           (''sources_to_inspect'', strs_json (ts_sources_to_inspect s)),
           (''completed_sources'', strs_json (ts_completed_sources s)),
           (''schema_locked'', JBool (ts_schema_locked s)),
           (''created_at'', JTime (ts_created_at s)),
           (''updated_at'', JTime (ts_updated_at s)),
           (''last_progress_at'', JTime (ts_last_progress_at s)),
           (''parent_revision'', opt_json JNum (ts_parent_revision s)),
           (''policy_generation'', JNum (ts_policy_generation s)),
           (''format'', JStr ''atmem-task-state-v1'')]"

definition state_item :: "task_state \<Rightarrow> string \<Rightarrow> task_item option" where
  "state_item s k = lookup_by ti_item_id k (ts_items s)"

definition state_constraint :: "task_state \<Rightarrow> string \<Rightarrow> task_constraint option" where
  "state_constraint s k = lookup_by tc_constraint_id k (ts_constraints s)"

definition VOLATILE_FIELDS :: "string list" where
  "VOLATILE_FIELDS = [''revision'', ''parent_revision'', ''created_at'', ''updated_at'', ''last_progress_at'']"

fun drop_keys :: "string list \<Rightarrow> json \<Rightarrow> json" where
  "drop_keys ks (JObj kvs) = JObj (filter (\<lambda>kv. fst kv \<notin> set ks) kvs)"
| "drop_keys ks v = v"

definition semantic_digest :: "hashes \<Rightarrow> task_state \<Rightarrow> string" where
  "semantic_digest H s = canonical_digest H (drop_keys VOLATILE_FIELDS (TaskState_to_dict s))"

definition state_digest :: "hashes \<Rightarrow> task_state \<Rightarrow> string" where
  "state_digest H s = canonical_digest H (TaskState_to_dict s)"

section \<open>Operations and proposals\<close>

record task_operation =
  op_kind :: operation_kind
  op_item_id :: "string option"
  op_constraint_id :: "string option"
  op_source_id :: "string option"
  op_phase :: "string option"
  op_status :: "item_status option"
  op_text :: "string option"
  op_content :: "(string \<times> json) list option"
  op_depends_on :: "string list option"
  op_kind_label :: "string option"
  op_required :: "bool option"
  op_reason :: "string option"
  op_assurance :: assurance

definition TaskOperation_ok :: "task_operation \<Rightarrow> bool" where
  "TaskOperation_ok p \<longleftrightarrow>
     (op_kind p \<in> {SET_ITEM_STATUS, ADD_ITEM, SET_ITEM_CONTENT, SET_ITEM_BLOCKER} \<longrightarrow> truthy (op_item_id p)) \<and>
     (op_kind p = SET_ITEM_STATUS \<longrightarrow> op_status p \<noteq> None) \<and>
     (op_kind p = SET_PHASE \<longrightarrow> truthy (op_phase p)) \<and>
     (op_kind p = ADD_CONSTRAINT \<longrightarrow> truthy (op_constraint_id p) \<and> truthy (op_text p)) \<and>
     (op_kind p = SATISFY_CONSTRAINT \<longrightarrow> truthy (op_constraint_id p)) \<and>
     (op_kind p = MARK_SOURCE_INSPECTED \<longrightarrow> truthy (op_source_id p)) \<and>
     (op_kind p = ADD_ITEM \<longrightarrow> truthy (op_kind_label p) \<and> truthy (op_text p))"

definition TaskOperation_to_dict :: "task_operation \<Rightarrow> json" where
  "TaskOperation_to_dict p =
     JObj [(''kind'', JStr (operation_value (op_kind p))),
           (''item_id'', opt_json JStr (op_item_id p)),
           (''constraint_id'', opt_json JStr (op_constraint_id p)),
           (''source_id'', opt_json JStr (op_source_id p)),
           (''phase'', opt_json JStr (op_phase p)),
           (''status'', opt_json (\<lambda>s. JStr (status_value s)) (op_status p)),
           (''text'', opt_json JStr (op_text p)),
           (''content'', opt_json JObj (op_content p)),
           (''depends_on'', opt_json strs_json (op_depends_on p)),
           (''kind_label'', opt_json JStr (op_kind_label p)),
           (''required'', opt_json JBool (op_required p)),
           (''reason'', opt_json JStr (op_reason p)),
           (''assurance'', JStr (assurance_value (op_assurance p))),
           (''format'', JStr ''atmem-task-operation-v1'')]"

record task_state_proposal =
  pr_proposal_id :: string
  pr_task_id :: string
  pr_scope :: authority_scope
  pr_base_revision :: int
  pr_idempotency_key :: string
  pr_actor :: string
  pr_actor_role :: actor_role
  pr_operations :: "task_operation list"
  pr_evidence :: "evidence_ref list"
  pr_interpreter :: "string option"
  pr_assurance :: assurance
  pr_reason :: "string option"
  pr_action_fingerprint :: "string option"

definition TaskStateProposal_ok :: "task_state_proposal \<Rightarrow> bool" where
  "TaskStateProposal_ok p \<longleftrightarrow>
     identifier_ok (pr_proposal_id p) \<and> identifier_ok (pr_task_id p) \<and>
     text_ok 200 (pr_actor p) \<and> text_ok 256 (pr_idempotency_key p) \<and>
     1 \<le> pr_base_revision p \<and> pr_operations p \<noteq> [] \<and> length (pr_operations p) \<le> MAX_OPERATIONS"

definition TaskStateProposal_to_dict :: "task_state_proposal \<Rightarrow> json" where
  "TaskStateProposal_to_dict p =
     JObj [(''proposal_id'', JStr (pr_proposal_id p)),
           (''task_id'', JStr (pr_task_id p)),
           (''scope'', JObj (scope_fields (pr_scope p))),
           (''base_revision'', JNum (pr_base_revision p)),
           (''idempotency_key'', JStr (pr_idempotency_key p)),
           (''actor'', JStr (pr_actor p)),
           (''actor_role'', JStr (role_value (pr_actor_role p))),
           (''operations'', JList (map TaskOperation_to_dict (pr_operations p))),
           (''evidence'', JList (map evidence_json (pr_evidence p))),
           (''interpreter'', opt_json JStr (pr_interpreter p)),
           (''assurance'', JStr (assurance_value (pr_assurance p))),
           (''reason'', opt_json JStr (pr_reason p)),
           (''action_fingerprint'', opt_json JStr (pr_action_fingerprint p)),
           (''format'', JStr ''atmem-task-state-proposal-v1'')]"

definition payload_digest :: "hashes \<Rightarrow> task_state_proposal \<Rightarrow> string" where
  "payload_digest H p =
     canonical_digest H (drop_keys [''idempotency_key'', ''proposal_id''] (TaskStateProposal_to_dict p))"

section \<open>Host-boundary requests\<close>

record host_observation_request =
  ho_identity :: host_session_identity
  ho_task_id :: string
  ho_idempotency_key :: string
  ho_observation :: string
  ho_adapter :: string
  ho_adapter_version :: string
  ho_evidence :: "evidence_ref list"
  ho_observed_at_utc :: string

definition HostTaskObservationRequest_ok :: "host_observation_request \<Rightarrow> bool" where
  "HostTaskObservationRequest_ok r \<longleftrightarrow>
     identifier_ok (ho_task_id r) \<and> text_ok 256 (ho_idempotency_key r) \<and>
     text_ok MAX_TEXT_CHARS (ho_observation r) \<and> text_ok 200 (ho_adapter r)"

record host_proposal_request =
  hp_identity :: host_session_identity
  hp_task_id :: string
  hp_base_revision :: int
  hp_idempotency_key :: string
  hp_operations :: "task_operation list"
  hp_adapter :: string
  hp_adapter_version :: string
  hp_evidence :: "evidence_ref list"
  hp_reason :: string

definition HostTaskProposalRequest_ok :: "host_proposal_request \<Rightarrow> bool" where
  "HostTaskProposalRequest_ok r \<longleftrightarrow>
     identifier_ok (hp_task_id r) \<and> text_ok 256 (hp_idempotency_key r) \<and> text_ok 200 (hp_adapter r) \<and>
     1 \<le> hp_base_revision r \<and> hp_operations r \<noteq> [] \<and> length (hp_operations r) \<le> MAX_OPERATIONS"

datatype host_action = PAUSE | RESUME | COMPLETE

record host_lifecycle_request =
  hl_identity :: host_session_identity
  hl_task_id :: string
  hl_action :: host_action
  hl_expected_revision :: int
  hl_idempotency_key :: string
  hl_adapter :: string
  hl_adapter_version :: string
  hl_reason :: string

definition HostTaskLifecycleRequest_ok :: "host_lifecycle_request \<Rightarrow> bool" where
  "HostTaskLifecycleRequest_ok r \<longleftrightarrow>
     identifier_ok (hl_task_id r) \<and> text_ok 256 (hl_idempotency_key r) \<and> text_ok 200 (hl_adapter r) \<and>
     1 \<le> hl_expected_revision r"

section \<open>Decisions, guards, context packages, capabilities\<close>

record guard_signal =
  gs_guard_type :: guard_type
  gs_task_id :: string
  gs_revision :: int
  gs_message :: string
  gs_blocking_item_ids :: "string list"
  gs_repeated_action_count :: int
  gs_enforced :: bool

definition GuardSignal_ok :: "guard_signal \<Rightarrow> bool" where
  "GuardSignal_ok g \<longleftrightarrow> text_ok MAX_TEXT_CHARS (gs_message g)"

definition GuardSignal_to_dict :: "guard_signal \<Rightarrow> json" where
  "GuardSignal_to_dict g =
     JObj [(''guard_type'', JStr (guard_value (gs_guard_type g))),
           (''task_id'', JStr (gs_task_id g)),
           (''revision'', JNum (gs_revision g)),
           (''message'', JStr (gs_message g)),
           (''blocking_item_ids'', strs_json (gs_blocking_item_ids g)),
           (''repeated_action_count'', JNum (gs_repeated_action_count g)),
           (''enforced'', JBool (gs_enforced g)),
           (''format'', JStr ''atmem-task-guard-signal-v1'')]"

record transition_decision =
  td_decision_id :: string
  td_proposal_id :: string
  td_task_id :: string
  td_scope :: authority_scope
  td_outcome :: step_outcome
  td_reason_codes :: "string list"
  td_base_revision :: int
  td_resulting_revision :: "int option"
  td_decided_at :: timestamp
  td_decided_by :: string
  td_assurance :: assurance
  td_evidence :: "evidence_ref list"
  td_guards :: "guard_signal list"
  td_replayed :: bool

definition TransitionDecision_ok :: "transition_decision \<Rightarrow> bool" where
  "TransitionDecision_ok d \<longleftrightarrow>
     reason_codes_ok (td_reason_codes d) \<and>
     (td_outcome d = ACCEPTED \<longrightarrow> td_resulting_revision d \<noteq> None) \<and>
     (td_outcome d \<noteq> ACCEPTED \<longrightarrow> td_resulting_revision d \<in> {None, Some (td_base_revision d)})"

definition TransitionDecision_to_dict :: "transition_decision \<Rightarrow> json" where
  "TransitionDecision_to_dict d =
     JObj [(''decision_id'', JStr (td_decision_id d)),
           (''proposal_id'', JStr (td_proposal_id d)),
           (''task_id'', JStr (td_task_id d)),
           (''scope'', JObj (scope_fields (td_scope d))),
           (''outcome'', JStr (outcome_value (td_outcome d))),
           (''reason_codes'', strs_json (td_reason_codes d)),
           (''base_revision'', JNum (td_base_revision d)),
           (''resulting_revision'', opt_json JNum (td_resulting_revision d)),
           (''decided_at'', JTime (td_decided_at d)),
           (''decided_by'', JStr (td_decided_by d)),
           (''assurance'', JStr (assurance_value (td_assurance d))),
           (''evidence'', JList (map evidence_json (td_evidence d))),
           (''guards'', JList (map GuardSignal_to_dict (td_guards d))),
           (''replayed'', JBool (td_replayed d)),
           (''format'', JStr ''atmem-task-transition-decision-v1'')]"

definition SERIALIZER_VERSION :: string where
  "SERIALIZER_VERSION = ''atmem-task-context-utf8-v1''"

text \<open>The bytes of a package as the code points of their text.\<close>

record task_context_package =
  cp_context_id :: string
  cp_task_id :: string
  cp_scope :: authority_scope
  cp_revision :: int
  cp_disposition :: context_disposition
  cp_context :: "nat list"
  cp_context_sha256 :: string
  cp_reason_codes :: "string list"
  cp_serializer_version :: string
  cp_profile_version :: string
  cp_policy_generation :: int
  cp_omitted_fields :: "string list"
  cp_prepared_at :: timestamp
  cp_preparation_id :: string

definition TaskContextPackage_ok :: "task_context_package \<Rightarrow> bool" where
  "TaskContextPackage_ok c \<longleftrightarrow>
     (cp_reason_codes c \<noteq> [] \<longrightarrow> reason_codes_ok (cp_reason_codes c)) \<and>
     (cp_disposition c = WITHHELD \<longrightarrow> cp_context c = []) \<and>
     (cp_disposition c = INJECTED \<longrightarrow> cp_context c \<noteq> [])"

definition cache_identity :: "task_context_package \<Rightarrow> json" where
  "cache_identity c =
     JObj [(''subject_id'', JStr (sc_subject_id (cp_scope c))),
           (''agent_id'', JStr (sc_agent_id (cp_scope c))),
           (''workspace_id'', JStr (sc_workspace_id (cp_scope c))),
           (''task_id'', JStr (cp_task_id c)),
           (''revision'', JNum (cp_revision c)),
           (''profile_version'', JStr (cp_profile_version c)),
           (''policy_generation'', JNum (cp_policy_generation c)),
           (''serializer_version'', JStr (cp_serializer_version c))]"

definition cache_key :: "hashes \<Rightarrow> task_context_package \<Rightarrow> string" where
  "cache_key H c = canonical_digest H (cache_identity c)"

section \<open>Facts about the contracts\<close>

lemma scope_eq_iff_fields [simp]: "scope_fields a = scope_fields b \<longleftrightarrow> a = b"
  by (cases a; cases b) (auto simp: scope_fields_def)

lemma AuthorityScope_to_dict_inject [simp]:
  "AuthorityScope_to_dict a = AuthorityScope_to_dict b \<longleftrightarrow> a = b"
  by (simp add: AuthorityScope_to_dict_def)

lemma TaskState_ok_items_distinct: "TaskState_ok s \<Longrightarrow> distinct (map ti_item_id (ts_items s))"
  by (simp add: TaskState_ok_def item_ids_def)

lemma state_item_SomeD: "state_item s k = Some t \<Longrightarrow> t \<in> set (ts_items s) \<and> ti_item_id t = k"
  unfolding state_item_def by (rule lookup_by_SomeD)

lemma state_item_None_iff: "state_item s k = None \<longleftrightarrow> k \<notin> set (item_ids s)"
  by (simp add: state_item_def item_ids_def)

text \<open>
  The semantic content of a snapshot: everything the semantic digest covers.
\<close>

definition semantic_view :: "task_state \<Rightarrow> task_state" where
  "semantic_view s =
     s\<lparr>ts_revision := 0, ts_created_at := 0, ts_updated_at := 0, ts_last_progress_at := 0,
       ts_parent_revision := None\<rparr>"

definition same_meaning :: "task_state \<Rightarrow> task_state \<Rightarrow> bool" where
  "same_meaning s t \<longleftrightarrow> semantic_view s = semantic_view t"

lemma drop_volatile_semantic_view:
  "drop_keys VOLATILE_FIELDS (TaskState_to_dict (semantic_view s)) =
   drop_keys VOLATILE_FIELDS (TaskState_to_dict s)"
  by (simp add: semantic_view_def TaskState_to_dict_def VOLATILE_FIELDS_def)

lemma semantic_digest_cong: "same_meaning s t \<Longrightarrow> semantic_digest H s = semantic_digest H t"
  by (metis drop_volatile_semantic_view same_meaning_def semantic_digest_def)

end
