(* ===== verification/Task_Governance.thy ===== *)
theory Task_Governance
  imports Task_Contracts
begin

text \<open>
  The governance matrix (\<^verbatim>\<open>src/atmem/task_state/governance.py\<close>) with \<^verbatim>\<open>GovernanceCapability\<close> of
  the contracts, and the exceptions of the task-state components as one error type.
\<close>

datatype task_error =
    TaskStateError string
  | TaskCompletionDenied string guard_signal
  | CapabilityDenied actor_role string
  | BindingError string
  | ContractError py_error
  | IntegrityError
  | AssertionError

record governance_capability =
  gc_actor_role :: actor_role
  gc_read_state :: bool
  gc_propose_delta :: bool
  gc_commit_state :: bool
  gc_correct_state :: bool
  gc_register_profile :: bool
  gc_change_lifecycle :: bool
  gc_expire_task :: bool
  gc_deliver_context :: bool
  gc_delete_state :: bool

definition GOVERNANCE_ACTIONS :: "string list" where
  "GOVERNANCE_ACTIONS =
     [''read_state'', ''propose_delta'', ''commit_state'', ''correct_state'', ''register_profile'',
      ''change_lifecycle'', ''expire_task'', ''deliver_context'', ''delete_state'']"

definition no_capability :: "actor_role \<Rightarrow> governance_capability" where
  "no_capability r =
     \<lparr>gc_actor_role = r, gc_read_state = False, gc_propose_delta = False, gc_commit_state = False,
      gc_correct_state = False, gc_register_profile = False, gc_change_lifecycle = False,
      gc_expire_task = False, gc_deliver_context = False, gc_delete_state = False\<rparr>"

text \<open>\<^verbatim>\<open>GOVERNANCE_MATRIX\<close> read through \<^verbatim>\<open>capability_for\<close>; each row sets only what it grants.\<close>

fun capability_for :: "actor_role \<Rightarrow> governance_capability" where
  "capability_for ATMEM_AUTHORITY =
     (no_capability ATMEM_AUTHORITY)\<lparr>gc_read_state := True, gc_propose_delta := True,
       gc_commit_state := True, gc_correct_state := True, gc_register_profile := True,
       gc_change_lifecycle := True, gc_deliver_context := True, gc_delete_state := True\<rparr>"
| "capability_for POLICY_EVALUATOR = (no_capability POLICY_EVALUATOR)\<lparr>gc_expire_task := True\<rparr>"
| "capability_for ATBOT_INTELLIGENCE =
     (no_capability ATBOT_INTELLIGENCE)\<lparr>gc_read_state := True, gc_propose_delta := True\<rparr>"
| "capability_for HOST_AGENT =
     (no_capability HOST_AGENT)\<lparr>gc_read_state := True, gc_propose_delta := True\<rparr>"
| "capability_for OPERATOR =
     (no_capability OPERATOR)\<lparr>gc_read_state := True, gc_propose_delta := True,
       gc_correct_state := True, gc_change_lifecycle := True\<rparr>"
| "capability_for ADMINISTRATOR =
     (no_capability ADMINISTRATOR)\<lparr>gc_read_state := True, gc_propose_delta := True,
       gc_correct_state := True, gc_register_profile := True, gc_change_lifecycle := True,
       gc_delete_state := True\<rparr>"
| "capability_for VERIFIER =
     (no_capability VERIFIER)\<lparr>gc_read_state := True, gc_propose_delta := True\<rparr>"
| "capability_for AUDITOR = (no_capability AUDITOR)\<lparr>gc_read_state := True\<rparr>"
| "capability_for DELEGATED_PROVIDER = no_capability DELEGATED_PROVIDER"

definition capability_permits :: "governance_capability \<Rightarrow> string \<Rightarrow> py_error + bool" where
  "capability_permits c a =
     (if a = ''read_state'' then Inr (gc_read_state c)
      else if a = ''propose_delta'' then Inr (gc_propose_delta c)
      else if a = ''commit_state'' then Inr (gc_commit_state c)
      else if a = ''correct_state'' then Inr (gc_correct_state c)
      else if a = ''register_profile'' then Inr (gc_register_profile c)
      else if a = ''change_lifecycle'' then Inr (gc_change_lifecycle c)
      else if a = ''expire_task'' then Inr (gc_expire_task c)
      else if a = ''deliver_context'' then Inr (gc_deliver_context c)
      else if a = ''delete_state'' then Inr (gc_delete_state c)
      else Inl ValueError)"

definition permits :: "actor_role \<Rightarrow> string \<Rightarrow> py_error + bool" where
  "permits r a =
     (if a \<notin> set GOVERNANCE_ACTIONS then Inl ValueError else capability_permits (capability_for r) a)"

definition require :: "actor_role \<Rightarrow> string \<Rightarrow> task_error + unit" where
  "require r a =
     (case permits r a of
        Inl e \<Rightarrow> Inl (ContractError e)
      | Inr ok \<Rightarrow> if ok then Inr () else Inl (CapabilityDenied r a))"

definition ALL_ROLES :: "actor_role list" where
  "ALL_ROLES =
     [ATMEM_AUTHORITY, POLICY_EVALUATOR, ATBOT_INTELLIGENCE, HOST_AGENT, OPERATOR, ADMINISTRATOR,
      VERIFIER, AUDITOR, DELEGATED_PROVIDER]"

definition matrix_rows :: "(string \<times> (string \<times> (py_error + bool)) list) list" where
  "matrix_rows =
     map (\<lambda>r. (role_value r, map (\<lambda>a. (a, capability_permits (capability_for r) a)) GOVERNANCE_ACTIONS))
       ALL_ROLES"

section \<open>What the matrix grants\<close>

lemma require_eq_Inr:
  "require r a = Inr u \<longleftrightarrow> a \<in> set GOVERNANCE_ACTIONS \<and> capability_permits (capability_for r) a = Inr True"
  by (auto simp: require_def permits_def split: sum.splits if_splits)

lemma require_change_lifecycle:
  "require r ''change_lifecycle'' =
     (if r \<in> {ATMEM_AUTHORITY, OPERATOR, ADMINISTRATOR} then Inr ()
      else Inl (CapabilityDenied r ''change_lifecycle''))"
  by (cases r) (simp_all add: require_def permits_def GOVERNANCE_ACTIONS_def capability_permits_def no_capability_def)

lemma require_expire_task:
  "require r ''expire_task'' =
     (if r = POLICY_EVALUATOR then Inr () else Inl (CapabilityDenied r ''expire_task''))"
  by (cases r) (simp_all add: require_def permits_def GOVERNANCE_ACTIONS_def capability_permits_def no_capability_def)

lemma require_correct_state:
  "require r ''correct_state'' =
     (if r \<in> {ATMEM_AUTHORITY, OPERATOR, ADMINISTRATOR} then Inr ()
      else Inl (CapabilityDenied r ''correct_state''))"
  by (cases r) (simp_all add: require_def permits_def GOVERNANCE_ACTIONS_def capability_permits_def no_capability_def)

lemma require_delete_state:
  "require r ''delete_state'' =
     (if r \<in> {ATMEM_AUTHORITY, ADMINISTRATOR} then Inr ()
      else Inl (CapabilityDenied r ''delete_state''))"
  by (cases r) (simp_all add: require_def permits_def GOVERNANCE_ACTIONS_def capability_permits_def no_capability_def)

lemma require_commit_state:
  "require r ''commit_state'' =
     (if r = ATMEM_AUTHORITY then Inr () else Inl (CapabilityDenied r ''commit_state''))"
  by (cases r) (simp_all add: require_def permits_def GOVERNANCE_ACTIONS_def capability_permits_def no_capability_def)

lemmas require_rules =
  require_change_lifecycle require_expire_task require_correct_state require_delete_state

end
