(* ===== verification/Task_Models.thy ===== *)
theory Task_Models
  imports Task_Governance
begin

text \<open>
  The meaning of a snapshot (\<^verbatim>\<open>src/atmem/task_state/models.py\<close>): the status machine of an item,
  dependencies, completion blockers, what counts as progress, and \<^verbatim>\<open>apply_operations\<close>, which
  computes a successor snapshot.  The local variables of the loop of \<^verbatim>\<open>apply_operations\<close> are the
  record \<open>draft\<close>; constructing or replacing a dataclass runs its checks, so a step of the loop may
  raise \<^verbatim>\<open>ValueError\<close>.
\<close>

section \<open>The status machine of an item\<close>

fun LEGAL_STATUS_TRANSITIONS :: "item_status \<Rightarrow> item_status list" where
  "LEGAL_STATUS_TRANSITIONS PENDING = [READY, RUNNING, BLOCKED, COMPLETED, SKIPPED, FAILED]"
| "LEGAL_STATUS_TRANSITIONS READY = [RUNNING, BLOCKED, COMPLETED, SKIPPED, FAILED]"
| "LEGAL_STATUS_TRANSITIONS RUNNING = [COMPLETED, BLOCKED, FAILED, READY]"
| "LEGAL_STATUS_TRANSITIONS BLOCKED = [READY, SKIPPED, FAILED, PENDING]"
| "LEGAL_STATUS_TRANSITIONS FAILED = [READY, SKIPPED]"
| "LEGAL_STATUS_TRANSITIONS COMPLETED = []"
| "LEGAL_STATUS_TRANSITIONS SKIPPED = []"

definition PROGRESS_STATUSES :: "item_status list" where
  "PROGRESS_STATUSES = [RUNNING, COMPLETED, SKIPPED]"

definition allows_status_transition :: "item_status \<Rightarrow> item_status \<Rightarrow> bool" where
  "allows_status_transition cur target \<longleftrightarrow>
     (if cur = target then True else target \<in> set (LEGAL_STATUS_TRANSITIONS cur))"

section \<open>Reading a snapshot\<close>

definition dependencies_satisfied :: "task_state \<Rightarrow> task_item \<Rightarrow> bool" where
  "dependencies_satisfied s t =
     list_all (\<lambda>d. case state_item s d of None \<Rightarrow> False | Some dep \<Rightarrow> settled (ti_status dep))
       (ti_depends_on t)"

definition waiting :: "task_state \<Rightarrow> task_item \<Rightarrow> bool" where
  "waiting s t \<longleftrightarrow> ti_status t \<in> {PENDING, READY} \<and> \<not> dependencies_satisfied s t"

definition ready_items :: "task_state \<Rightarrow> task_item list" where
  "ready_items s =
     filter (\<lambda>t. ti_status t \<in> {PENDING, READY} \<and> dependencies_satisfied s t) (ts_items s)"

definition blocked_items :: "task_state \<Rightarrow> task_item list" where
  "blocked_items s = filter (\<lambda>t. ti_status t = BLOCKED \<or> waiting s t) (ts_items s)"

definition remaining_items :: "task_state \<Rightarrow> task_item list" where
  "remaining_items s = filter (\<lambda>t. \<not> settled (ti_status t)) (ts_items s)"

definition completion_blockers :: "task_state \<Rightarrow> task_profile \<Rightarrow> string list" where
  "completion_blockers s p =
     dedup
       (map ti_item_id (filter (\<lambda>t. ti_required t \<and> \<not> settled (ti_status t)) (ts_items s)) @
        map (\<lambda>k. ''kind:'' @ k)
          (filter (\<lambda>k. let matching = filter (\<lambda>t. ti_kind t = k) (ts_items s)
                       in matching = [] \<or> list_ex (\<lambda>t. \<not> settled (ti_status t)) matching)
             (pf_required_item_kinds p)) @
        map (\<lambda>c. ''constraint:'' @ tc_constraint_id c)
          (filter (\<lambda>c. tc_required_for_completion c \<and> \<not> tc_satisfied c) (ts_constraints s)))"

definition may_complete :: "task_state \<Rightarrow> task_profile \<Rightarrow> bool" where
  "may_complete s p \<longleftrightarrow> completion_blockers s p = []"

definition is_progress :: "task_operation \<Rightarrow> task_state \<Rightarrow> bool" where
  "is_progress p s =
     (if op_kind p = SET_ITEM_STATUS then
        (case (state_item s (py_str (op_item_id p)), op_status p) of
           (Some t, Some st) \<Rightarrow> st \<noteq> ti_status t \<and> st \<in> set PROGRESS_STATUSES
         | _ \<Rightarrow> False)
      else op_kind p \<in> {SET_PHASE, SATISFY_CONSTRAINT, MARK_SOURCE_INSPECTED})"

section \<open>Applying operations\<close>

definition stronger :: "assurance \<Rightarrow> assurance \<Rightarrow> assurance" where
  "stronger cur prop = (if assurance_rank cur < assurance_rank prop then prop else cur)"

record draft =
  dr_items :: "task_item list"
  dr_constraints :: "task_constraint list"
  dr_phase :: string
  dr_completed_sources :: "string list"
  dr_schema_locked :: bool

definition draft_of :: "task_state \<Rightarrow> draft" where
  "draft_of s =
     \<lparr>dr_items = ts_items s, dr_constraints = ts_constraints s, dr_phase = ts_phase s,
      dr_completed_sources = ts_completed_sources s, dr_schema_locked = ts_schema_locked s\<rparr>"

definition set_item_status :: "task_operation \<Rightarrow> task_item \<Rightarrow> task_item" where
  "set_item_status p t =
     t\<lparr>ti_status := (case op_status p of None \<Rightarrow> ti_status t | Some st \<Rightarrow> st),
       ti_blocker_reason := (if op_status p = Some BLOCKED then op_reason p else None),
       ti_skip_reason := (if op_status p = Some SKIPPED then op_reason p else ti_skip_reason t),
       ti_assurance := stronger (ti_assurance t) (op_assurance p)\<rparr>"

definition set_item_content :: "task_operation \<Rightarrow> task_item \<Rightarrow> task_item" where
  "set_item_content p t = t\<lparr>ti_content := (case op_content p of None \<Rightarrow> [] | Some c \<Rightarrow> c)\<rparr>"

definition set_item_blocker :: "task_operation \<Rightarrow> task_item \<Rightarrow> task_item" where
  "set_item_blocker p t =
     t\<lparr>ti_status := BLOCKED,
       ti_blocker_reason := Some (if truthy (op_reason p) then py_str (op_reason p) else ''blocked'')\<rparr>"

definition new_item :: "task_operation \<Rightarrow> task_item" where
  "new_item p =
     \<lparr>ti_item_id = py_str (op_item_id p), ti_kind = py_str (op_kind_label p), ti_title = py_str (op_text p),
      ti_status = (case op_status p of None \<Rightarrow> PENDING | Some st \<Rightarrow> st),
      ti_content = (case op_content p of None \<Rightarrow> [] | Some c \<Rightarrow> c),
      ti_depends_on = (case op_depends_on p of None \<Rightarrow> [] | Some ds \<Rightarrow> ds),
      ti_blocker_reason = None, ti_skip_reason = None, ti_assurance = op_assurance p,
      ti_evidence = [], ti_required = (op_required p = Some True)\<rparr>"

definition new_constraint :: "task_operation \<Rightarrow> task_constraint" where
  "new_constraint p =
     \<lparr>tc_constraint_id = py_str (op_constraint_id p), tc_text = py_str (op_text p), tc_satisfied = False,
      tc_required_for_completion = (op_required p \<noteq> Some False)\<rparr>"

definition satisfy_constraint :: "task_constraint \<Rightarrow> task_constraint" where
  "satisfy_constraint c = c\<lparr>tc_satisfied := True\<rparr>"

text \<open>\<^verbatim>\<open>_replace_item\<close> with a \<^verbatim>\<open>dataclasses.replace\<close> in \<^verbatim>\<open>change\<close>: every changed item is checked.\<close>

definition replace_item ::
  "task_item list \<Rightarrow> string \<Rightarrow> (task_item \<Rightarrow> task_item) \<Rightarrow> py_error + task_item list" where
  "replace_item items k change =
     (if list_all (\<lambda>t. ti_item_id t = k \<longrightarrow> TaskItem_ok (change t)) items
      then Inr (replace_by ti_item_id k change items) else Inl ValueError)"

definition with_items :: "draft \<Rightarrow> py_error + task_item list \<Rightarrow> py_error + draft" where
  "with_items d r = bind_res r (\<lambda>items. Inr (d\<lparr>dr_items := items\<rparr>))"

definition apply_operation :: "task_operation \<Rightarrow> draft \<Rightarrow> py_error + draft" where
  "apply_operation p d =
     (case op_kind p of
        SET_PHASE \<Rightarrow> Inr (d\<lparr>dr_phase := py_str (op_phase p)\<rparr>)
      | SET_ITEM_STATUS \<Rightarrow>
          with_items d (replace_item (dr_items d) (py_str (op_item_id p)) (set_item_status p))
      | ADD_ITEM \<Rightarrow>
          (if TaskItem_ok (new_item p) then Inr (d\<lparr>dr_items := dr_items d @ [new_item p]\<rparr>)
           else Inl ValueError)
      | SET_ITEM_CONTENT \<Rightarrow>
          with_items d (replace_item (dr_items d) (py_str (op_item_id p)) (set_item_content p))
      | SET_ITEM_BLOCKER \<Rightarrow>
          with_items d (replace_item (dr_items d) (py_str (op_item_id p)) (set_item_blocker p))
      | ADD_CONSTRAINT \<Rightarrow>
          (if TaskConstraint_ok (new_constraint p)
           then Inr (d\<lparr>dr_constraints := dr_constraints d @ [new_constraint p]\<rparr>) else Inl ValueError)
      | SATISFY_CONSTRAINT \<Rightarrow>
          Inr (d\<lparr>dr_constraints :=
                  replace_by tc_constraint_id (py_str (op_constraint_id p)) satisfy_constraint
                    (dr_constraints d)\<rparr>)
      | MARK_SOURCE_INSPECTED \<Rightarrow>
          Inr (if py_str (op_source_id p) \<in> set (dr_completed_sources d) then d
               else d\<lparr>dr_completed_sources := dr_completed_sources d @ [py_str (op_source_id p)]\<rparr>)
      | LOCK_SCHEMA \<Rightarrow> Inr (d\<lparr>dr_schema_locked := True\<rparr>))"

definition finish_draft ::
  "task_state \<Rightarrow> int \<Rightarrow> timestamp \<Rightarrow> timestamp option \<Rightarrow> draft \<Rightarrow> task_state" where
  "finish_draft s rv upd_at progress_at d =
     s\<lparr>ts_revision := rv, ts_parent_revision := Some (ts_revision s), ts_phase := dr_phase d,
       ts_items := dr_items d, ts_constraints := dr_constraints d,
       ts_completed_sources := dr_completed_sources d, ts_schema_locked := dr_schema_locked d,
       ts_updated_at := upd_at,
       ts_last_progress_at := (case progress_at of None \<Rightarrow> ts_last_progress_at s | Some t \<Rightarrow> t)\<rparr>"

definition checked_state :: "task_state \<Rightarrow> py_error + task_state" where
  "checked_state s = (if TaskState_ok s then Inr s else Inl ValueError)"

definition apply_operations ::
  "task_state \<Rightarrow> task_operation list \<Rightarrow> int \<Rightarrow> timestamp \<Rightarrow> timestamp option \<Rightarrow> py_error + task_state" where
  "apply_operations s ps rv upd_at progress_at =
     bind_res (fold_res apply_operation ps (draft_of s))
       (\<lambda>d. checked_state (finish_draft s rv upd_at progress_at d))"

section \<open>The summary\<close>

record task_summary =
  sm_goal :: string
  sm_lifecycle :: task_lifecycle
  sm_phase :: string
  sm_revision :: int
  sm_total_items :: nat
  sm_completed_items :: nat
  sm_skipped_items :: nat
  sm_failed_items :: nat
  sm_blocked_items :: "string list"
  sm_ready_items :: "string list"
  sm_remaining_items :: "string list"
  sm_unsatisfied_constraints :: "string list"
  sm_completion_allowed :: bool
  sm_completion_blockers :: "string list"
  sm_last_progress_at :: timestamp

definition summarize :: "task_state \<Rightarrow> task_profile \<Rightarrow> task_summary" where
  "summarize s p =
     \<lparr>sm_goal = ts_goal s, sm_lifecycle = ts_lifecycle s, sm_phase = ts_phase s,
      sm_revision = ts_revision s, sm_total_items = length (ts_items s),
      sm_completed_items = length (filter (\<lambda>t. ti_status t = COMPLETED) (ts_items s)),
      sm_skipped_items = length (filter (\<lambda>t. ti_status t = SKIPPED) (ts_items s)),
      sm_failed_items = length (filter (\<lambda>t. ti_status t = FAILED) (ts_items s)),
      sm_blocked_items = map ti_item_id (blocked_items s),
      sm_ready_items = map ti_item_id (ready_items s),
      sm_remaining_items = map ti_item_id (remaining_items s),
      sm_unsatisfied_constraints =
        map tc_constraint_id (filter (\<lambda>c. \<not> tc_satisfied c) (ts_constraints s)),
      sm_completion_allowed = (completion_blockers s p = []),
      sm_completion_blockers = completion_blockers s p,
      sm_last_progress_at = ts_last_progress_at s\<rparr>"

section \<open>Item updates keep identities\<close>

interpretation status_upd: key_update ti_item_id "set_item_status p" for p
  by unfold_locales (simp add: set_item_status_def)

interpretation content_upd: key_update ti_item_id "set_item_content p" for p
  by unfold_locales (simp add: set_item_content_def)

interpretation blocker_upd: key_update ti_item_id "set_item_blocker p" for p
  by unfold_locales (simp add: set_item_blocker_def)

interpretation satisfy_upd: key_update tc_constraint_id satisfy_constraint
  by unfold_locales (simp add: satisfy_constraint_def)

lemma replace_item_Inr:
  "replace_item items k f = Inr items' \<longleftrightarrow>
     (\<forall>t\<in>set items. ti_item_id t = k \<longrightarrow> TaskItem_ok (f t)) \<and> items' = replace_by ti_item_id k f items"
  by (auto simp: replace_item_def list_all_iff)

lemma with_items_Inr:
  "with_items d r = Inr d' \<longleftrightarrow> (\<exists>items. r = Inr items \<and> d' = d\<lparr>dr_items := items\<rparr>)"
  by (auto simp: with_items_def)

lemmas apply_operation_defs = apply_operation_def with_items_Inr replace_item_Inr

lemma draft_of_finish_draft [simp]: "draft_of (finish_draft s rv u pr d) = d"
  by (simp add: draft_of_def finish_draft_def)

lemma finish_draft_fields [simp]:
  "ts_task_id (finish_draft s rv u pr d) = ts_task_id s"
  "ts_scope (finish_draft s rv u pr d) = ts_scope s"
  "ts_revision (finish_draft s rv u pr d) = rv"
  "ts_lifecycle (finish_draft s rv u pr d) = ts_lifecycle s"
  "ts_goal (finish_draft s rv u pr d) = ts_goal s"
  "ts_profile_id (finish_draft s rv u pr d) = ts_profile_id s"
  "ts_profile_version (finish_draft s rv u pr d) = ts_profile_version s"
  "ts_sources_to_inspect (finish_draft s rv u pr d) = ts_sources_to_inspect s"
  "ts_items (finish_draft s rv u pr d) = dr_items d"
  "ts_constraints (finish_draft s rv u pr d) = dr_constraints d"
  "ts_phase (finish_draft s rv u pr d) = dr_phase d"
  "ts_completed_sources (finish_draft s rv u pr d) = dr_completed_sources d"
  "ts_schema_locked (finish_draft s rv u pr d) = dr_schema_locked d"
  "ts_parent_revision (finish_draft s rv u pr d) = Some (ts_revision s)"
  "ts_created_at (finish_draft s rv u pr d) = ts_created_at s"
  "ts_updated_at (finish_draft s rv u pr d) = u"
  "ts_policy_generation (finish_draft s rv u pr d) = ts_policy_generation s"
  by (simp_all add: finish_draft_def)

lemma checked_state_Inr [simp]: "checked_state s = Inr t \<longleftrightarrow> TaskState_ok s \<and> t = s"
  by (auto simp: checked_state_def)

lemma apply_operations_Inr:
  "apply_operations s ps rv u pr = Inr t \<longleftrightarrow>
     (\<exists>d. fold_res apply_operation ps (draft_of s) = Inr d \<and> t = finish_draft s rv u pr d \<and> TaskState_ok t)"
  by (auto simp: apply_operations_def)

section \<open>What one operation does to the items\<close>

lemma apply_operation_item_ids:
  assumes "apply_operation p d = Inr d'"
  shows "map ti_item_id (dr_items d') =
           map ti_item_id (dr_items d) @ (if op_kind p = ADD_ITEM then [py_str (op_item_id p)] else [])"
  using assms
  by (cases "op_kind p")
     (auto simp: apply_operation_defs status_upd.keys_replace content_upd.keys_replace
        blocker_upd.keys_replace new_item_def split: if_splits)

lemma apply_operation_schema_locked:
  assumes "apply_operation p d = Inr d'"
  shows "dr_schema_locked d' \<longleftrightarrow> dr_schema_locked d \<or> op_kind p = LOCK_SCHEMA"
  using assms by (cases "op_kind p") (auto simp: apply_operation_defs split: if_splits)

lemma apply_operation_phase:
  assumes "apply_operation p d = Inr d'"
  shows "dr_phase d' = (if op_kind p = SET_PHASE then py_str (op_phase p) else dr_phase d)"
  using assms by (cases "op_kind p") (auto simp: apply_operation_defs split: if_splits)

lemma apply_operation_constraint_ids:
  assumes "apply_operation p d = Inr d'"
  shows "map tc_constraint_id (dr_constraints d') =
           map tc_constraint_id (dr_constraints d) @
           (if op_kind p = ADD_CONSTRAINT then [py_str (op_constraint_id p)] else [])"
  using assms
  by (cases "op_kind p")
     (auto simp: apply_operation_defs satisfy_upd.keys_replace new_constraint_def split: if_splits)

text \<open>An item with another identity is untouched; the named one changes only in its own fields.\<close>

lemma apply_operation_item_other:
  assumes "apply_operation p d = Inr d'" and "k \<noteq> py_str (op_item_id p)"
  shows "lookup_by ti_item_id k (dr_items d') = lookup_by ti_item_id k (dr_items d)"
  using assms
  by (cases "op_kind p")
     (auto simp: apply_operation_defs status_upd.lookup_replace content_upd.lookup_replace
        blocker_upd.lookup_replace lookup_by_append new_item_def split: if_splits option.splits)

lemma apply_operation_item_status:
  assumes "apply_operation p d = Inr d'" and "lookup_by ti_item_id k (dr_items d) = Some t"
  obtains t' where "lookup_by ti_item_id k (dr_items d') = Some t'"
    and "k = py_str (op_item_id p) \<Longrightarrow> op_kind p = SET_ITEM_STATUS \<Longrightarrow> t' = set_item_status p t"
    and "k = py_str (op_item_id p) \<Longrightarrow> op_kind p = SET_ITEM_BLOCKER \<Longrightarrow> t' = set_item_blocker p t"
    and "\<not> (k = py_str (op_item_id p) \<and> op_kind p \<in> {SET_ITEM_STATUS, SET_ITEM_BLOCKER}) \<Longrightarrow>
           ti_status t' = ti_status t \<and> ti_assurance t' = ti_assurance t"
proof (cases "op_kind p")
  case SET_ITEM_CONTENT
  with assms have "lookup_by ti_item_id k (dr_items d') =
      Some (if k = py_str (op_item_id p) then set_item_content p t else t)"
    by (auto simp: apply_operation_defs content_upd.lookup_replace)
  with SET_ITEM_CONTENT show thesis
    by (cases "k = py_str (op_item_id p)") (auto simp: set_item_content_def intro: that)
next
  case SET_ITEM_STATUS
  with assms have "lookup_by ti_item_id k (dr_items d') =
      Some (if k = py_str (op_item_id p) then set_item_status p t else t)"
    by (auto simp: apply_operation_defs status_upd.lookup_replace)
  with SET_ITEM_STATUS show thesis by (cases "k = py_str (op_item_id p)") (auto intro: that)
next
  case SET_ITEM_BLOCKER
  with assms have "lookup_by ti_item_id k (dr_items d') =
      Some (if k = py_str (op_item_id p) then set_item_blocker p t else t)"
    by (auto simp: apply_operation_defs blocker_upd.lookup_replace)
  with SET_ITEM_BLOCKER show thesis by (cases "k = py_str (op_item_id p)") (auto intro: that)
qed (use assms in \<open>auto simp: apply_operation_defs lookup_by_append split: if_splits intro: that\<close>)

section \<open>Applying one by one and applying at once\<close>

text \<open>
  The policy applies operations one at a time to a working snapshot and then the whole delta to the
  base snapshot.  Both computations agree on everything but the bookkeeping fields.
\<close>

definition apply_one :: "task_operation \<Rightarrow> task_state \<Rightarrow> py_error + task_state" where
  "apply_one p w = apply_operations w [p] (ts_revision w) (ts_updated_at w) None"

lemma apply_one_Inr:
  "apply_one p w = Inr w' \<longleftrightarrow>
     (\<exists>d. apply_operation p (draft_of w) = Inr d \<and>
          w' = finish_draft w (ts_revision w) (ts_updated_at w) None d \<and> TaskState_ok w')"
  by (auto simp: apply_one_def apply_operations_Inr)

lemma finish_draft_finish_draft [simp]:
  "finish_draft (finish_draft w (ts_revision w) u None d) rv upd_at pr d' = finish_draft w rv upd_at pr d'"
  by (cases pr) (simp_all add: finish_draft_def)

lemma incremental_draft:
  assumes "fold_res apply_one ps w = Inr w'"
  shows "fold_res apply_operation ps (draft_of w) = Inr (draft_of w') \<and>
         (\<forall>rv u pr d. finish_draft w' rv u pr d = finish_draft w rv u pr d)"
  using assms
proof (induction ps arbitrary: w)
  case Nil
  then show ?case by simp
next
  case (Cons p ps)
  from Cons.prems obtain v where v: "apply_one p w = Inr v" and rest: "fold_res apply_one ps v = Inr w'"
    by auto
  from v obtain d where d: "apply_operation p (draft_of w) = Inr d"
    and eq: "v = finish_draft w (ts_revision w) (ts_updated_at w) None d"
    by (auto simp: apply_one_Inr)
  from Cons.IH [OF rest] have IH:
    "fold_res apply_operation ps (draft_of v) = Inr (draft_of w')"
    "\<forall>rv u pr d. finish_draft w' rv u pr d = finish_draft v rv u pr d" by auto
  show ?case using d eq IH by simp
qed

lemma incremental_ok:
  assumes "fold_res apply_one ps w = Inr w'" and "TaskState_ok w"
  shows "TaskState_ok w'"
  using assms(1,2) by (rule fold_res_invariant) (auto simp: apply_one_Inr)

lemma TaskState_ok_finish_draft:
  assumes "TaskState_ok w" and "1 \<le> rv"
  shows "TaskState_ok (finish_draft w rv u pr (draft_of w))"
  using assms by (simp add: TaskState_ok_def item_ids_def draft_of_def)

lemma batch_eq_incremental:
  assumes inc: "fold_res apply_one ps s = Inr w" and ok: "TaskState_ok s" and rv: "1 \<le> rv"
  shows "apply_operations s ps rv u pr = Inr (finish_draft s rv u pr (draft_of w))"
proof -
  from incremental_draft [OF inc]
  have "fold_res apply_operation ps (draft_of s) = Inr (draft_of w)"
    and eq: "finish_draft w rv u pr (draft_of w) = finish_draft s rv u pr (draft_of w)" by auto
  moreover have "TaskState_ok (finish_draft s rv u pr (draft_of w))"
    using TaskState_ok_finish_draft [OF incremental_ok [OF inc ok] rv, of u pr] eq by simp
  ultimately show ?thesis by (auto simp: apply_operations_Inr)
qed

section \<open>Blockers\<close>

lemma completion_blockers_Nil:
  "completion_blockers s p = [] \<longleftrightarrow>
     (\<forall>t\<in>set (ts_items s). ti_required t \<longrightarrow> settled (ti_status t)) \<and>
     (\<forall>k\<in>set (pf_required_item_kinds p).
        (\<exists>t\<in>set (ts_items s). ti_kind t = k) \<and>
        (\<forall>t\<in>set (ts_items s). ti_kind t = k \<longrightarrow> settled (ti_status t))) \<and>
     (\<forall>c\<in>set (ts_constraints s). tc_required_for_completion c \<longrightarrow> tc_satisfied c)"
  unfolding completion_blockers_def dedup_eq_Nil
  by (fastforce simp: filter_empty_conv list_ex_iff Let_def)

end
