(* ===== verification/Task_Samples.thy ===== *)
theory Task_Samples
  imports Task_Models
begin

text \<open>
  A worked example the witnesses share: a scope, a profile, a task with two required items (the
  second depends on the first) and one constraint, and a way to build proposals for it.  The hash of
  the example adds up the sizes of the leaves, which tells the example's snapshots apart.
\<close>

fun json_weight :: "json \<Rightarrow> nat" where
  "json_weight JNull = 1"
| "json_weight (JBool b) = (if b then 2 else 3)"
| "json_weight (JNum n) = nat \<bar>n\<bar>"
| "json_weight (JStr s) = length s"
| "json_weight (JTime t) = nat \<bar>t\<bar>"
| "json_weight (JList xs) = 5 + sum_list (map json_weight xs)"
| "json_weight (JObj kvs) = 7 + sum_list (map (\<lambda>kv. json_weight (snd kv)) kvs)"

definition ex_hashes :: hashes where
  "ex_hashes = \<lparr>sha_json = (\<lambda>j. show_nat (json_weight j)), sha_decision = (\<lambda>s n. s @ ''-'' @ show_nat (nat n))\<rparr>"

definition ex_scope :: authority_scope where
  "ex_scope = \<lparr>sc_subject_id = ''alice'', sc_agent_id = ''agent'', sc_workspace_id = ''ws''\<rparr>"

definition ex_profile :: task_profile where
  "ex_profile =
     \<lparr>pf_profile_id = ''demo'', pf_version = ''v1'', pf_phases = [''plan'', ''work'', ''done''],
      pf_phase_transitions = [(''plan'', ''work''), (''work'', ''done'')], pf_required_item_kinds = [],
      pf_optional_context_fields = [], pf_permitted_operations = all_operation_kinds,
      pf_no_progress_action_threshold = 3,
      pf_expiry = \<lparr>xp_max_absolute_age_ms = None, xp_max_no_progress_age_ms = None\<rparr>,
      pf_allow_schema_extension_phases = [], pf_description = [], pf_binding_lifetime_ms = None\<rparr>"

definition ex_item :: "string \<Rightarrow> item_status \<Rightarrow> string list \<Rightarrow> task_item" where
  "ex_item k st deps =
     \<lparr>ti_item_id = k, ti_kind = ''step'', ti_title = k, ti_status = st, ti_content = [],
      ti_depends_on = deps, ti_blocker_reason = None, ti_skip_reason = None, ti_assurance = ASSERTED,
      ti_evidence = [], ti_required = True\<rparr>"

definition ex_state :: task_state where
  "ex_state =
     \<lparr>ts_task_id = ''task1'', ts_scope = ex_scope, ts_revision = 4, ts_lifecycle = OPEN, ts_phase = ''plan'',
      ts_goal = ''ship'', ts_profile_id = ''demo'', ts_profile_version = ''v1'',
      ts_items = [ex_item ''a'' COMPLETED [], ex_item ''b'' PENDING [''a'']],
      ts_constraints = [\<lparr>tc_constraint_id = ''c'', tc_text = ''tested'', tc_satisfied = False,
                         tc_required_for_completion = True\<rparr>],
      ts_sources_to_inspect = [''s1''], ts_completed_sources = [], ts_schema_locked = True,
      ts_created_at = 0, ts_updated_at = 5, ts_last_progress_at = 5, ts_parent_revision = Some 3,
      ts_policy_generation = 1\<rparr>"

definition ex_op :: "operation_kind \<Rightarrow> task_operation" where
  "ex_op k =
     \<lparr>op_kind = k, op_item_id = None, op_constraint_id = None, op_source_id = None, op_phase = None,
      op_status = None, op_text = None, op_content = None, op_depends_on = None, op_kind_label = None,
      op_required = None, op_reason = None, op_assurance = ASSERTED\<rparr>"

definition ex_complete :: "string \<Rightarrow> task_operation" where
  "ex_complete k = (ex_op SET_ITEM_STATUS)\<lparr>op_item_id := Some k, op_status := Some COMPLETED\<rparr>"

definition ex_phase :: "string \<Rightarrow> task_operation" where
  "ex_phase ph = (ex_op SET_PHASE)\<lparr>op_phase := Some ph\<rparr>"

definition ex_proposal :: "task_operation list \<Rightarrow> task_state_proposal" where
  "ex_proposal ps =
     \<lparr>pr_proposal_id = ''p1'', pr_task_id = ''task1'', pr_scope = ex_scope, pr_base_revision = 4,
      pr_idempotency_key = ''k1'', pr_actor = ''host'', pr_actor_role = HOST_AGENT, pr_operations = ps,
      pr_evidence = [], pr_interpreter = None, pr_assurance = HOST_REPORTED, pr_reason = None,
      pr_action_fingerprint = None\<rparr>"

text \<open>Completing the second item and moving on, and the snapshot that results.\<close>

definition ex_ops :: "task_operation list" where
  "ex_ops = [ex_complete ''b'', ex_phase ''work'']"

definition ex_next :: task_state where
  "ex_next =
     ex_state\<lparr>ts_revision := 5, ts_parent_revision := Some 4, ts_phase := ''work'',
       ts_items := [ex_item ''a'' COMPLETED [], ex_item ''b'' COMPLETED [''a'']],
       ts_updated_at := 9, ts_last_progress_at := 9\<rparr>"

lemma ex_proposal_operations [simp]: "pr_operations (ex_proposal ps) = ps"
  by (simp add: ex_proposal_def)

lemma ex_state_ok: "TaskState_ok ex_state"
  by code_simp

lemma ex_state_items:
  "state_item ex_state ''a'' = Some (ex_item ''a'' COMPLETED [])"
  "state_item ex_state ''b'' = Some (ex_item ''b'' PENDING [''a''])"
  "state_item ex_next ''b'' = Some (ex_item ''b'' COMPLETED [''a''])"
  by (simp_all add: state_item_def ex_state_def ex_next_def ex_item_def)

lemmas ex_defs = ex_hashes_def ex_scope_def ex_profile_def ex_item_def ex_state_def ex_op_def
  ex_complete_def ex_phase_def ex_proposal_def

end
