(* ===== verification/Task_Policy.thy ===== *)
theory Task_Policy
  imports Task_Samples
begin

text \<open>
  The decision layer (\<^verbatim>\<open>src/atmem/task_state/policy.py\<close>): \<^verbatim>\<open>evaluate\<close> takes a snapshot, a profile
  and an untrusted proposal and returns one outcome, or raises the \<^verbatim>\<open>ValueError\<close> of a dataclass
  check inside \<^verbatim>\<open>apply_operations\<close>.  The explainable guards of \<^verbatim>\<open>guards.py\<close> that need no store
  are here as well.
\<close>

definition PROPOSING_ROLES :: "actor_role list" where
  "PROPOSING_ROLES = [ATBOT_INTELLIGENCE, HOST_AGENT, OPERATOR, ADMINISTRATOR, VERIFIER]"

fun ASSURANCE_CEILING :: "actor_role \<Rightarrow> assurance" where
  "ASSURANCE_CEILING ATBOT_INTELLIGENCE = MODEL_INTERPRETED"
| "ASSURANCE_CEILING HOST_AGENT = HOST_REPORTED"
| "ASSURANCE_CEILING OPERATOR = OPERATOR_CONFIRMED"
| "ASSURANCE_CEILING ADMINISTRATOR = OPERATOR_CONFIRMED"
| "ASSURANCE_CEILING VERIFIER = INDEPENDENTLY_VERIFIED"
| "ASSURANCE_CEILING POLICY_EVALUATOR = RULE_EXTRACTED"
| "ASSURANCE_CEILING ATMEM_AUTHORITY = RULE_EXTRACTED"
| "ASSURANCE_CEILING _ = ASSERTED"

definition PRIVILEGED_OPERATIONS :: "operation_kind list" where
  "PRIVILEGED_OPERATIONS = [LOCK_SCHEMA]"

definition SCHEMA_OPERATIONS :: "operation_kind list" where
  "SCHEMA_OPERATIONS = [ADD_ITEM, ADD_CONSTRAINT]"

record policy_decision =
  pd_outcome :: step_outcome
  pd_reason_codes :: "string list"
  pd_next_state :: "task_state option"
  pd_is_progress :: bool
  pd_guards :: "guard_signal list"
  pd_effective_assurance :: assurance

definition accepted :: "policy_decision \<Rightarrow> bool" where
  "accepted d \<longleftrightarrow> pd_outcome d = ACCEPTED"

definition plain_decision :: "step_outcome \<Rightarrow> string \<Rightarrow> assurance \<Rightarrow> policy_decision" where
  "plain_decision oc r a =
     \<lparr>pd_outcome = oc, pd_reason_codes = [r], pd_next_state = None, pd_is_progress = False,
      pd_guards = [], pd_effective_assurance = a\<rparr>"

definition reject :: "string \<Rightarrow> policy_decision" where
  "reject r = plain_decision REJECTED r ASSERTED"

section \<open>Guards over one snapshot\<close>

definition guard_signal_of :: "guard_type \<Rightarrow> task_state \<Rightarrow> string \<Rightarrow> string list \<Rightarrow> guard_signal" where
  "guard_signal_of g s msg ids =
     \<lparr>gs_guard_type = g, gs_task_id = ts_task_id s, gs_revision = ts_revision s, gs_message = msg,
      gs_blocking_item_ids = ids, gs_repeated_action_count = 0, gs_enforced = False\<rparr>"

definition completion_message :: "string list \<Rightarrow> string" where
  "completion_message blockers =
     ''Completion is not allowed yet: '' @ show_nat (length blockers) @ '' requirement(s) are unsatisfied.''"

definition evaluate_completion ::
  "task_state \<Rightarrow> task_profile \<Rightarrow> bool \<times> string list \<times> guard_signal option" where
  "evaluate_completion s p =
     (let blockers = completion_blockers s p in
      if blockers = [] then (True, [], None)
      else (False, [''required_items_incomplete''],
            Some (guard_signal_of COMPLETION_NOT_ALLOWED s (completion_message blockers) blockers)))"

definition unmet_items :: "task_state \<Rightarrow> string list" where
  "unmet_items s = map ti_item_id (filter (waiting s) (ts_items s))"

definition completion_guards :: "task_state \<Rightarrow> guard_signal list" where
  "completion_guards s =
     (let unmet = unmet_items s in
      if unmet = [] then []
      else [guard_signal_of DEPENDENCY_UNSATISFIED s
              (show_nat (length unmet) @ '' item(s) are waiting on unfinished dependencies.'') unmet])"

section \<open>Validating one operation\<close>

definition validate_status ::
  "task_operation \<Rightarrow> task_item \<Rightarrow> item_status \<Rightarrow> task_state \<Rightarrow> task_state_proposal \<Rightarrow> bool \<Rightarrow> string option" where
  "validate_status p t target s prop allow_privileged =
     (if \<not> allows_status_transition (ti_status t) target then Some ''illegal_status_transition''
      else if target \<in> {RUNNING, COMPLETED} \<and> \<not> dependencies_satisfied s t then Some ''dependency_unsatisfied''
      else if target = SKIPPED \<and> \<not> truthy (op_reason p) then Some ''reason_required''
      else if target = BLOCKED \<and> \<not> truthy (op_reason p) then Some ''reason_required''
      else if target = COMPLETED \<and>
              \<not> (pr_evidence prop \<noteq> [] \<or>
                 assurance_rank HOST_REPORTED \<le> max (assurance_rank (op_assurance p)) (assurance_rank (pr_assurance prop)))
        then Some ''evidence_required''
      else if ti_required t \<and> target = SKIPPED \<and> \<not> allow_privileged then Some ''capability_denied''
      else None)"

definition validate_item_change ::
  "task_operation \<Rightarrow> task_state \<Rightarrow> task_state_proposal \<Rightarrow> bool \<Rightarrow> string option" where
  "validate_item_change p s prop allow_privileged =
     (case state_item s (py_str (op_item_id p)) of
        None \<Rightarrow> Some ''unknown_item''
      | Some t \<Rightarrow>
          if op_kind p = SET_ITEM_STATUS then
            (case op_status p of
               None \<Rightarrow> None
             | Some target \<Rightarrow> validate_status p t target s prop allow_privileged)
          else None)"

definition validate_phase :: "task_operation \<Rightarrow> task_state \<Rightarrow> task_profile \<Rightarrow> string option" where
  "validate_phase p s profile =
     (let target = py_str (op_phase p) in
      if target \<notin> set (pf_phases profile) then Some ''illegal_phase_transition''
      else if target \<noteq> ts_phase s \<and> \<not> allows_phase_transition profile (ts_phase s) target
        then Some ''illegal_phase_transition''
      else if target = terminal_phase profile \<and> completion_blockers s profile \<noteq> []
        then Some ''required_items_incomplete''
      else None)"

definition validate_add_item :: "task_operation \<Rightarrow> task_state \<Rightarrow> string option" where
  "validate_add_item p s =
     (if state_item s (py_str (op_item_id p)) \<noteq> None then Some ''duplicate_item_id''
      else if \<not> set (case op_depends_on p of None \<Rightarrow> [] | Some ds \<Rightarrow> ds) \<subseteq> set (item_ids s)
        then Some ''unknown_item''
      else None)"

definition validate_operation ::
  "task_operation \<Rightarrow> task_state \<Rightarrow> task_profile \<Rightarrow> task_state_proposal \<Rightarrow> bool \<Rightarrow> string option" where
  "validate_operation p s profile prop allow_privileged =
     (if \<not> allows_operation profile (op_kind p) then Some ''operation_not_permitted_by_profile''
      else if op_kind p \<in> set PRIVILEGED_OPERATIONS \<and> \<not> allow_privileged then Some ''capability_denied''
      else if op_kind p \<in> set SCHEMA_OPERATIONS \<and> ts_schema_locked s then Some ''schema_is_locked''
      else if op_kind p \<in> set SCHEMA_OPERATIONS \<and> pf_allow_schema_extension_phases profile \<noteq> [] \<and>
              ts_phase s \<notin> set (pf_allow_schema_extension_phases profile) then Some ''schema_is_locked''
      else (case op_kind p of
          SET_PHASE \<Rightarrow> validate_phase p s profile
        | ADD_ITEM \<Rightarrow> validate_add_item p s
        | SET_ITEM_STATUS \<Rightarrow> validate_item_change p s prop allow_privileged
        | SET_ITEM_CONTENT \<Rightarrow> validate_item_change p s prop allow_privileged
        | SET_ITEM_BLOCKER \<Rightarrow> validate_item_change p s prop allow_privileged
        | SATISFY_CONSTRAINT \<Rightarrow>
            (if state_constraint s (py_str (op_constraint_id p)) = None then Some ''unknown_constraint'' else None)
        | ADD_CONSTRAINT \<Rightarrow>
            (if state_constraint s (py_str (op_constraint_id p)) \<noteq> None then Some ''unknown_constraint'' else None)
        | MARK_SOURCE_INSPECTED \<Rightarrow>
            (if py_str (op_source_id p) \<notin> set (ts_sources_to_inspect s) then Some ''unknown_source'' else None)
        | LOCK_SCHEMA \<Rightarrow> None))"

section \<open>Evaluating a proposal\<close>

text \<open>The loop over the operations: the first failing operation decides the rejection.\<close>

fun run_operations ::
  "task_profile \<Rightarrow> task_state_proposal \<Rightarrow> bool \<Rightarrow> task_operation list \<Rightarrow> task_state \<Rightarrow> bool \<Rightarrow>
   py_error + (string + task_state \<times> bool)" where
  "run_operations profile prop allow [] w progressed = Inr (Inr (w, progressed))"
| "run_operations profile prop allow (p # ps) w progressed =
     (case validate_operation p w profile prop allow of
        Some r \<Rightarrow> Inr (Inl r)
      | None \<Rightarrow>
          bind_res (apply_one p w)
            (\<lambda>w'. run_operations profile prop allow ps w' (progressed \<or> is_progress p w)))"

definition precheck :: "task_state \<Rightarrow> task_state_proposal \<Rightarrow> string list option \<Rightarrow> policy_decision option" where
  "precheck s prop known_evidence_ids =
     (if AuthorityScope_to_dict (pr_scope prop) \<noteq> AuthorityScope_to_dict (ts_scope s)
        then Some (reject ''scope_mismatch'')
      else if pr_task_id prop \<noteq> ts_task_id s then Some (reject ''task_not_eligible'')
      else if pr_actor_role prop \<notin> set PROPOSING_ROLES then Some (reject ''capability_denied'')
      else if lifecycle_terminal (ts_lifecycle s) then Some (reject ''task_is_terminal'')
      else if ts_lifecycle s = PAUSED then Some (reject ''task_is_paused'')
      else if pr_base_revision prop \<noteq> ts_revision s
        then Some (plain_decision CONFLICT ''stale_base_revision'' ASSERTED)
      else if assurance_rank (ASSURANCE_CEILING (pr_actor_role prop)) < assurance_rank (pr_assurance prop)
        then Some (reject ''assurance_ceiling_exceeded'')
      else (case known_evidence_ids of
              None \<Rightarrow> None
            | Some known \<Rightarrow>
                if list_ex (\<lambda>e. er_reference_id e \<notin> set known) (pr_evidence prop)
                then Some (reject ''unknown_evidence'') else None))"

text \<open>The last decision of \<^verbatim>\<open>evaluate\<close>: a successor with the meaning of the base is no change.\<close>

definition settle :: "hashes \<Rightarrow> task_state \<Rightarrow> task_state_proposal \<Rightarrow> bool \<Rightarrow> task_state \<Rightarrow> policy_decision" where
  "settle H s prop progressed n =
     (if semantic_digest H n = semantic_digest H s
      then plain_decision NO_CHANGE ''state_already_matches'' (pr_assurance prop)
      else \<lparr>pd_outcome = ACCEPTED, pd_reason_codes = [''transition_accepted''],
            pd_next_state = Some n, pd_is_progress = progressed,
            pd_guards = completion_guards n, pd_effective_assurance = pr_assurance prop\<rparr>)"

definition decide ::
  "hashes \<Rightarrow> task_state \<Rightarrow> task_state_proposal \<Rightarrow> timestamp \<Rightarrow> string + task_state \<times> bool \<Rightarrow>
   py_error + policy_decision" where
  "decide H s prop now r =
     (case r of
        Inl failure \<Rightarrow> Inr (reject failure)
      | Inr (_, progressed) \<Rightarrow>
          if pr_operations prop = [] then Inr (reject ''empty_delta'')
          else
            bind_res (apply_operations s (pr_operations prop) (ts_revision s + 1) now
              (Some (if progressed then now else ts_last_progress_at s)))
              (\<lambda>n. Inr (settle H s prop progressed n)))"

definition evaluate ::
  "hashes \<Rightarrow> task_state \<Rightarrow> task_profile \<Rightarrow> task_state_proposal \<Rightarrow> timestamp \<Rightarrow> string list option \<Rightarrow> bool \<Rightarrow>
   py_error + policy_decision" where
  "evaluate H s profile prop now known_evidence_ids allow_privileged =
     (case precheck s prop known_evidence_ids of
        Some d \<Rightarrow> Inr d
      | None \<Rightarrow>
          bind_res (run_operations profile prop allow_privileged (pr_operations prop) s False)
            (decide H s prop now))"

section \<open>The loop, abstractly\<close>

text \<open>
  \<open>legal_step\<close> is one validated operation.  A run that is not refused is a chain of legal steps,
  so a relation between snapshots that every legal step keeps holds of the whole delta.
\<close>

definition legal_step ::
  "task_profile \<Rightarrow> task_state_proposal \<Rightarrow> bool \<Rightarrow> task_operation \<Rightarrow> task_state \<Rightarrow> task_state \<Rightarrow> bool" where
  "legal_step profile prop allow p w w' \<longleftrightarrow>
     validate_operation p w profile prop allow = None \<and> apply_one p w = Inr w'"

lemma run_operations_incremental:
  "run_operations profile prop allow ps w b = Inr (Inr (w', b')) \<Longrightarrow> fold_res apply_one ps w = Inr w'"
  by (induction ps arbitrary: w b) (auto split: option.splits)

lemma run_operations_invariant:
  assumes "run_operations profile prop allow ps w b = Inr (Inr (w', b'))" and "P w"
    and "\<And>p u v. p \<in> set ps \<Longrightarrow> P u \<Longrightarrow> legal_step profile prop allow p u v \<Longrightarrow> P v"
  shows "P w'"
  using assms
proof (induction ps arbitrary: w b)
  case Nil
  then show ?case by simp
next
  case (Cons p ps)
  from Cons.prems(1) obtain u where step: "legal_step profile prop allow p w u"
    and rest: "run_operations profile prop allow ps u (b \<or> is_progress p w) = Inr (Inr (w', b'))"
    by (auto simp: legal_step_def split: option.splits)
  have "P u" using Cons.prems(2) step by (rule Cons.prems(3) [rotated]) simp
  with rest show ?case by (rule Cons.IH) (auto intro: Cons.prems(3))
qed

lemma run_operations_progress_mono:
  "run_operations profile prop allow ps w b = Inr (Inr (w', b')) \<Longrightarrow> b \<Longrightarrow> b'"
  by (induction ps arbitrary: w b) (auto split: option.splits)

text \<open>Everything an accepted decision implies about its inputs.\<close>

lemma evaluate_acceptedE:
  assumes "evaluate H s profile prop now known allow = Inr d" and "pd_outcome d = ACCEPTED"
  obtains w progressed n where
    "precheck s prop known = None" "pr_operations prop \<noteq> []"
    "run_operations profile prop allow (pr_operations prop) s False = Inr (Inr (w, progressed))"
    "apply_operations s (pr_operations prop) (ts_revision s + 1) now
       (Some (if progressed then now else ts_last_progress_at s)) = Inr n"
    "semantic_digest H n \<noteq> semantic_digest H s"
    "d = \<lparr>pd_outcome = ACCEPTED, pd_reason_codes = [''transition_accepted''], pd_next_state = Some n,
          pd_is_progress = progressed, pd_guards = completion_guards n,
          pd_effective_assurance = pr_assurance prop\<rparr>"
proof (cases "precheck s prop known")
  case None
  with assms(1) obtain r where r:
    "run_operations profile prop allow (pr_operations prop) s False = Inr r"
    "decide H s prop now r = Inr d" by (auto simp: evaluate_def)
  show thesis
  proof (cases r)
    case (Inl failure)
    with r(2) assms(2) show thesis by (auto simp: decide_def reject_def plain_decision_def)
  next
    case (Inr wb)
    obtain w progressed where wb: "wb = (w, progressed)" by (cases wb)
    have ne: "pr_operations prop \<noteq> []"
    proof
      assume "pr_operations prop = []"
      with r(2) assms(2) Inr wb show False by (auto simp: decide_def reject_def plain_decision_def)
    qed
    with r(2) Inr wb obtain n where n:
      "apply_operations s (pr_operations prop) (ts_revision s + 1) now
         (Some (if progressed then now else ts_last_progress_at s)) = Inr n"
      "settle H s prop progressed n = d"
      by (auto simp: decide_def)
    have "semantic_digest H n \<noteq> semantic_digest H s"
    proof
      assume "semantic_digest H n = semantic_digest H s"
      with n(2) assms(2) show False by (auto simp: settle_def plain_decision_def)
    qed
    with n(2) show thesis
      by (intro that [OF None ne r(1) [unfolded Inr wb] n(1)]) (simp_all add: settle_def)
  qed
next
  case (Some e)
  with assms have "d = e" by (simp add: evaluate_def)
  moreover have "pd_outcome e \<noteq> ACCEPTED"
    using Some by (auto simp: precheck_def reject_def plain_decision_def split: if_splits option.splits)
  ultimately show thesis using assms(2) by simp
qed

lemma precheck_None:
  assumes "precheck s prop known = None"
  shows "pr_scope prop = ts_scope s" "pr_task_id prop = ts_task_id s"
    "pr_actor_role prop \<in> set PROPOSING_ROLES" "ts_lifecycle s = OPEN"
    "pr_base_revision prop = ts_revision s" "pr_assurance prop \<le> ASSURANCE_CEILING (pr_actor_role prop)"
  using assms
  by (auto simp: precheck_def less_eq_assurance_def lifecycle_terminal_def not_less
      split: if_splits option.splits intro: task_lifecycle.exhaust [of "ts_lifecycle s"])

text \<open>
  The successor is the incremental result with the bookkeeping of the commit: the interface through
  which the facts below speak about an accepted delta.
\<close>

lemma evaluate_accepted_next:
  assumes "evaluate H s profile prop now known allow = Inr d" and "pd_outcome d = ACCEPTED"
    and ok: "TaskState_ok s"
  obtains w n where
    "pd_next_state d = Some n"
    "run_operations profile prop allow (pr_operations prop) s False = Inr (Inr (w, pd_is_progress d))"
    "n = finish_draft s (ts_revision s + 1) now
           (Some (if pd_is_progress d then now else ts_last_progress_at s)) (draft_of w)"
    "TaskState_ok n" "\<not> same_meaning n s"
proof -
  from assms(1,2) obtain w b n where e:
    "run_operations profile prop allow (pr_operations prop) s False = Inr (Inr (w, b))"
    "apply_operations s (pr_operations prop) (ts_revision s + 1) now
       (Some (if b then now else ts_last_progress_at s)) = Inr n"
    "semantic_digest H n \<noteq> semantic_digest H s" "pd_next_state d = Some n" "pd_is_progress d = b"
    by (rule evaluate_acceptedE) auto
  have "fold_res apply_one (pr_operations prop) s = Inr w" using e(1) by (rule run_operations_incremental)
  moreover have "1 \<le> ts_revision s + 1" using ok by (simp add: TaskState_ok_def)
  ultimately have "n = finish_draft s (ts_revision s + 1) now
      (Some (if b then now else ts_last_progress_at s)) (draft_of w)"
    using e(2) batch_eq_incremental [OF _ ok] by simp
  moreover have "TaskState_ok n" using e(2) by (auto simp: apply_operations_Inr)
  ultimately show thesis using e semantic_digest_cong by (intro that) auto
qed

section \<open>What a legal step does to one item\<close>

lemma apply_operation_item_required:
  assumes "apply_operation p d = Inr d'" and "lookup_by ti_item_id k (dr_items d) = Some t"
    and "lookup_by ti_item_id k (dr_items d') = Some t'"
  shows "ti_required t' = ti_required t"
  using assms
  by (cases "op_kind p")
     (auto simp: apply_operation_defs status_upd.lookup_replace content_upd.lookup_replace
        blocker_upd.lookup_replace lookup_by_append set_item_status_def set_item_content_def
        set_item_blocker_def split: if_splits)

lemma legal_step_draft:
  assumes "legal_step profile prop allow p u v"
  obtains d where "apply_operation p (draft_of u) = Inr d"
    "v = finish_draft u (ts_revision u) (ts_updated_at u) None d" "draft_of v = d" "TaskState_ok v"
    "validate_operation p u profile prop allow = None"
  using assms by (auto simp: legal_step_def apply_one_Inr)

lemma legal_step_status_valid:
  assumes "legal_step profile prop allow p u v" and "op_kind p = SET_ITEM_STATUS"
    and "state_item u (py_str (op_item_id p)) = Some t" and "op_status p = Some target"
  shows "validate_status p t target u prop allow = None"
  using assms
  by (auto simp: legal_step_def validate_operation_def validate_item_change_def split: if_splits)

lemma legal_step_item:
  assumes step: "legal_step profile prop allow p u v" and item: "state_item u k = Some t"
  obtains t' where "state_item v k = Some t'" "ti_required t' = ti_required t"
    "ti_status t' = ti_status t \<or>
     k = py_str (op_item_id p) \<and> op_kind p = SET_ITEM_BLOCKER \<and> ti_status t' = BLOCKED \<or>
     k = py_str (op_item_id p) \<and> op_kind p = SET_ITEM_STATUS \<and> op_status p = Some (ti_status t') \<and>
       validate_status p t (ti_status t') u prop allow = None"
proof -
  from step obtain d where d: "apply_operation p (draft_of u) = Inr d"
    "v = finish_draft u (ts_revision u) (ts_updated_at u) None d" by (rule legal_step_draft)
  have look: "lookup_by ti_item_id k (dr_items (draft_of u)) = Some t"
    using item by (simp add: state_item_def draft_of_def)
  from apply_operation_item_status [OF d(1) look] obtain t' where
    t': "lookup_by ti_item_id k (dr_items d) = Some t'"
    and st: "k = py_str (op_item_id p) \<Longrightarrow> op_kind p = SET_ITEM_STATUS \<Longrightarrow> t' = set_item_status p t"
    and bl: "k = py_str (op_item_id p) \<Longrightarrow> op_kind p = SET_ITEM_BLOCKER \<Longrightarrow> t' = set_item_blocker p t"
    and other: "\<not> (k = py_str (op_item_id p) \<and> op_kind p \<in> {SET_ITEM_STATUS, SET_ITEM_BLOCKER}) \<Longrightarrow>
       ti_status t' = ti_status t" by metis
  have "state_item v k = Some t'" using t' d(2) by (simp add: state_item_def)
  moreover have "ti_required t' = ti_required t"
    using apply_operation_item_required [OF d(1) look t'] .
  moreover have "k = py_str (op_item_id p) \<and> op_kind p = SET_ITEM_STATUS \<and>
      ti_status t' \<noteq> ti_status t \<longrightarrow> op_status p = Some (ti_status t') \<and>
      validate_status p t (ti_status t') u prop allow = None"
    using st item legal_step_status_valid [OF step]
    by (cases "op_status p") (auto simp: set_item_status_def)
  moreover have "k = py_str (op_item_id p) \<and> op_kind p = SET_ITEM_BLOCKER \<longrightarrow> ti_status t' = BLOCKED"
    using bl by (auto simp: set_item_blocker_def)
  ultimately show thesis using other by (intro that [of t']) auto
qed

lemma allows_from_settled:
  "allows_status_transition st target \<Longrightarrow> settled st \<Longrightarrow> target = st"
  by (cases st) (auto simp: allows_status_transition_def settled_def split: if_splits)

lemma validate_status_None:
  assumes "validate_status p t target u prop allow = None"
  shows "allows_status_transition (ti_status t) target"
    "target \<in> {RUNNING, COMPLETED} \<Longrightarrow> dependencies_satisfied u t"
    "target = COMPLETED \<Longrightarrow> pr_evidence prop \<noteq> [] \<or>
       HOST_REPORTED \<le> max (op_assurance p) (pr_assurance prop)"
    "target \<in> {SKIPPED, BLOCKED} \<Longrightarrow> truthy (op_reason p)"
    "target = SKIPPED \<Longrightarrow> ti_required t \<Longrightarrow> allow"
  using assms
  by (auto simp: validate_status_def less_eq_assurance_def le_max_iff_disj split: if_splits)

text \<open>The item facts lift from the working snapshot of the loop to the committed successor.\<close>

lemma evaluate_accepted_invariant:
  assumes "evaluate H s profile prop now known allow = Inr d" "accepted d" "TaskState_ok s" "P s"
    and "\<And>p u v. p \<in> set (pr_operations prop) \<Longrightarrow> P u \<Longrightarrow> legal_step profile prop allow p u v \<Longrightarrow> P v"
    and "\<And>w n. draft_of n = draft_of w \<Longrightarrow> P w \<Longrightarrow> P n"
  shows "\<exists>n. pd_next_state d = Some n \<and> P n"
proof -
  have "pd_outcome d = ACCEPTED" using assms(2) by (simp add: accepted_def)
  from evaluate_accepted_next [OF assms(1) this assms(3)] obtain w n where
    n: "pd_next_state d = Some n"
    and run: "run_operations profile prop allow (pr_operations prop) s False = Inr (Inr (w, pd_is_progress d))"
    and eq: "n = finish_draft s (ts_revision s + 1) now
           (Some (if pd_is_progress d then now else ts_last_progress_at s)) (draft_of w)" by blast
  have "P w" using run assms(4,5) by (rule run_operations_invariant)
  then have "P n" by (rule assms(6) [rotated]) (simp add: eq)
  with n show ?thesis by blast
qed

section \<open>Properties of the policy\<close>

definition ex_decision :: policy_decision where
  "ex_decision =
     \<lparr>pd_outcome = ACCEPTED, pd_reason_codes = [''transition_accepted''], pd_next_state = Some ex_next,
      pd_is_progress = True, pd_guards = [], pd_effective_assurance = HOST_REPORTED\<rparr>"

lemma ex_evaluate:
  "evaluate ex_hashes ex_state ex_profile (ex_proposal ex_ops) 9 None False = Inr ex_decision"
  by code_simp

lemma ex_accepted: "accepted ex_decision" "pd_next_state ex_decision = Some ex_next"
  by (simp_all add: accepted_def ex_decision_def)

lemmas ex_run = ex_evaluate ex_accepted(1) ex_state_ok

text \<open>
  [C1] An accepted proposal names the scope, the task and the current revision of an open task, comes
  from a proposing role within its assurance ceiling, and its successor is a well-formed next
  revision that differs in meaning and leaves identity, scope, goal, profile, lifecycle and creation
  time alone.
\<close>

theorem accepted_transition:
  assumes "evaluate H s profile prop now known allow = Inr d" and "accepted d" and "TaskState_ok s"
  shows "\<exists>n. pd_next_state d = Some n \<and> TaskState_ok n \<and> \<not> same_meaning n s \<and>
    pr_scope prop = ts_scope s \<and> pr_task_id prop = ts_task_id s \<and> pr_base_revision prop = ts_revision s \<and>
    ts_lifecycle s = OPEN \<and> pr_actor_role prop \<in> set PROPOSING_ROLES \<and>
    pr_assurance prop \<le> ASSURANCE_CEILING (pr_actor_role prop) \<and>
    ts_revision n = ts_revision s + 1 \<and> ts_parent_revision n = Some (ts_revision s) \<and>
    ts_task_id n = ts_task_id s \<and> ts_scope n = ts_scope s \<and> ts_lifecycle n = OPEN \<and>
    ts_goal n = ts_goal s \<and> ts_profile_id n = ts_profile_id s \<and>
    ts_profile_version n = ts_profile_version s \<and> ts_sources_to_inspect n = ts_sources_to_inspect s \<and>
    ts_created_at n = ts_created_at s \<and> ts_updated_at n = now"
proof -
  have acc: "pd_outcome d = ACCEPTED" using assms(2) by (simp add: accepted_def)
  from evaluate_acceptedE [OF assms(1) acc] have pre: "precheck s prop known = None" by metis
  from evaluate_accepted_next [OF assms(1) acc assms(3)] obtain w n where
    n: "pd_next_state d = Some n" "TaskState_ok n" "\<not> same_meaning n s"
    "n = finish_draft s (ts_revision s + 1) now
           (Some (if pd_is_progress d then now else ts_last_progress_at s)) (draft_of w)" by blast
  show ?thesis using n precheck_None [OF pre] by (intro exI [of _ n]) simp
qed

theorem accepted_transition_witness:
  "evaluate ex_hashes ex_state ex_profile (ex_proposal ex_ops) 9 None False = Inr ex_decision \<and>
   accepted ex_decision \<and> TaskState_ok ex_next \<and> ts_revision ex_next = ts_revision ex_state + 1"
  using accepted_transition [OF ex_run] ex_run ex_accepted(2) by simp

text \<open>
  Completed and skipped items keep their status through an accepted delta unless an operation of
  the delta sets a blocker on them.
\<close>

theorem settled_items_stay_settled:
  assumes "evaluate H s profile prop now known allow = Inr d" and "accepted d" and "TaskState_ok s"
    and "state_item s k = Some t" and "settled (ti_status t)"
    and "\<forall>p\<in>set (pr_operations prop). op_kind p = SET_ITEM_BLOCKER \<longrightarrow> op_item_id p \<noteq> Some k"
    and "\<forall>p\<in>set (pr_operations prop). TaskOperation_ok p"
  shows "\<exists>n t'. pd_next_state d = Some n \<and> state_item n k = Some t' \<and> ti_status t' = ti_status t"
proof -
  let ?P = "\<lambda>u. \<exists>t'. state_item u k = Some t' \<and> ti_status t' = ti_status t"
  have step: "?P v" if op: "p \<in> set (pr_operations prop)" and u: "?P u"
    and st: "legal_step profile prop allow p u v" for p u v
  proof -
    from u obtain t1 where t1: "state_item u k = Some t1" "ti_status t1 = ti_status t" by blast
    have nb: "\<not> (k = py_str (op_item_id p) \<and> op_kind p = SET_ITEM_BLOCKER)"
      using assms(6,7) op by (auto simp: TaskOperation_ok_def truthy_def py_str_def)
    from legal_step_item [OF st t1(1)] obtain t2 where t2: "state_item v k = Some t2"
      "ti_status t2 = ti_status t1 \<or> validate_status p t1 (ti_status t2) u prop allow = None"
      using nb by metis
    then show ?thesis
      using validate_status_None(1) allows_from_settled t1(2) assms(5) by metis
  qed
  have "?P s" using assms(4) by blast
  then have "\<exists>n. pd_next_state d = Some n \<and> ?P n"
    by (rule evaluate_accepted_invariant [OF assms(1-3), where P = ?P, OF _ step])
       (auto simp: draft_of_def state_item_def item_ids_def)
  then show ?thesis by blast
qed

theorem settled_items_stay_settled_witness:
  "settled (ti_status (ex_item ''a'' COMPLETED [])) \<and>
   (\<exists>t'. state_item ex_next ''a'' = Some t' \<and> ti_status t' = COMPLETED)"
proof -
  have "\<forall>p\<in>set (pr_operations (ex_proposal ex_ops)). op_kind p = SET_ITEM_BLOCKER \<longrightarrow> op_item_id p \<noteq> Some ''a''"
    "\<forall>p\<in>set (pr_operations (ex_proposal ex_ops)). TaskOperation_ok p"
    by (simp_all add: ex_ops_def ex_complete_def ex_phase_def ex_op_def TaskOperation_ok_def)
  moreover have "settled (ti_status (ex_item ''a'' COMPLETED []))" by (simp add: ex_item_def settled_def)
  ultimately show ?thesis
    using settled_items_stay_settled [OF ex_run ex_state_items(1)] ex_accepted(2)
    by (simp add: ex_item_def)
qed

text \<open>
  [C21] An existing item becomes completed in an accepted delta only through an operation that sets it so,
  with cited evidence or a claim of at least host-reported assurance.
\<close>

theorem completion_is_backed:
  assumes "evaluate H s profile prop now known allow = Inr d" and "accepted d" and "TaskState_ok s"
    and "state_item s k = Some t" and "ti_status t \<noteq> COMPLETED"
    and "pd_next_state d = Some n" and "state_item n k = Some t'" and "ti_status t' = COMPLETED"
  shows "\<exists>p\<in>set (pr_operations prop). op_kind p = SET_ITEM_STATUS \<and> py_str (op_item_id p) = k \<and>
     op_status p = Some COMPLETED \<and>
     (pr_evidence prop \<noteq> [] \<or> HOST_REPORTED \<le> max (op_assurance p) (pr_assurance prop))"
    (is "?backed")
proof -
  let ?P = "\<lambda>u. \<exists>t1. state_item u k = Some t1 \<and> (ti_status t1 = COMPLETED \<longrightarrow> ?backed)"
  have step: "?P v" if op: "p \<in> set (pr_operations prop)" and u: "?P u"
    and st: "legal_step profile prop allow p u v" for p u v
  proof -
    from u obtain t1 where t1: "state_item u k = Some t1" "ti_status t1 = COMPLETED \<longrightarrow> ?backed" by blast
    from legal_step_item [OF st t1(1)] obtain t2 where t2: "state_item v k = Some t2"
      "ti_status t2 = ti_status t1 \<or> ti_status t2 = BLOCKED \<or>
       k = py_str (op_item_id p) \<and> op_kind p = SET_ITEM_STATUS \<and> op_status p = Some (ti_status t2) \<and>
         validate_status p t1 (ti_status t2) u prop allow = None" by metis
    have "?backed" if c: "ti_status t2 = COMPLETED" "ti_status t1 \<noteq> COMPLETED"
      using t2(2) c op validate_status_None(3) by (intro bexI [of _ p]) auto
    then show ?thesis using t1(2) t2(1) by blast
  qed
  have "?P s" using assms(4,5) by blast
  then have "\<exists>n. pd_next_state d = Some n \<and> ?P n"
    by (rule evaluate_accepted_invariant [OF assms(1-3), where P = ?P, OF _ step])
       (auto simp: draft_of_def state_item_def item_ids_def)
  then show ?thesis using assms(6-8) by auto
qed

theorem completion_is_backed_witness:
  "ti_status (ex_item ''b'' COMPLETED [''a'']) = COMPLETED \<and>
   (\<exists>p\<in>set (pr_operations (ex_proposal ex_ops)). op_status p = Some COMPLETED \<and>
      HOST_REPORTED \<le> max (op_assurance p) (pr_assurance (ex_proposal ex_ops)))"
  using completion_is_backed [OF ex_run ex_state_items(2) _ ex_accepted(2) ex_state_items(3)]
  by (auto simp: ex_item_def ex_proposal_def)

text \<open>
  Once the schema of a task is locked no accepted delta adds an item or a constraint, and the lock
  stays.
\<close>

theorem locked_schema_is_stable:
  assumes "evaluate H s profile prop now known allow = Inr d" and "accepted d" and "TaskState_ok s"
    and "ts_schema_locked s"
  shows "\<exists>n. pd_next_state d = Some n \<and> ts_schema_locked n \<and> item_ids n = item_ids s \<and>
     map tc_constraint_id (ts_constraints n) = map tc_constraint_id (ts_constraints s)"
proof -
  let ?P = "\<lambda>u. ts_schema_locked u \<and> item_ids u = item_ids s \<and>
     map tc_constraint_id (ts_constraints u) = map tc_constraint_id (ts_constraints s)"
  have step: "?P v" if u: "?P u" and st: "legal_step profile prop allow p u v" for p u v
  proof -
    from st obtain d where d: "apply_operation p (draft_of u) = Inr d"
      "v = finish_draft u (ts_revision u) (ts_updated_at u) None d"
      "validate_operation p u profile prop allow = None" by (rule legal_step_draft)
    have "op_kind p \<noteq> ADD_ITEM" "op_kind p \<noteq> ADD_CONSTRAINT"
      using d(3) u by (auto simp: validate_operation_def SCHEMA_OPERATIONS_def split: if_splits)
    then show ?thesis
      using u apply_operation_item_ids [OF d(1)] apply_operation_constraint_ids [OF d(1)]
        apply_operation_schema_locked [OF d(1)] d(2)
      by (simp add: item_ids_def draft_of_def)
  qed
  have "?P s" using assms by simp
  then have "\<exists>n. pd_next_state d = Some n \<and> ?P n"
    by (rule evaluate_accepted_invariant [OF assms(1-3), where P = ?P, OF _ step])
       (auto simp: draft_of_def state_item_def item_ids_def)
  then show ?thesis by blast
qed

theorem locked_schema_is_stable_witness:
  "ts_schema_locked ex_state \<and> ts_schema_locked ex_next \<and> item_ids ex_next = item_ids ex_state"
proof -
  have "ts_schema_locked ex_state" by (simp add: ex_state_def)
  from locked_schema_is_stable [OF ex_run this] this show ?thesis using ex_accepted(2) by simp
qed

text \<open>
  An accepted delta moves the phase only along the transitions the profile declares.
\<close>

theorem phase_follows_profile:
  assumes "evaluate H s profile prop now known allow = Inr d" and "accepted d" and "TaskState_ok s"
  shows "\<exists>n. pd_next_state d = Some n \<and> (ts_phase s, ts_phase n) \<in> (set (pf_phase_transitions profile))\<^sup>*"
proof -
  let ?P = "\<lambda>u. (ts_phase s, ts_phase u) \<in> (set (pf_phase_transitions profile))\<^sup>*"
  have step: "?P v" if u: "?P u" and st: "legal_step profile prop allow p u v" for p u v
  proof -
    from st obtain d where d: "apply_operation p (draft_of u) = Inr d"
      "v = finish_draft u (ts_revision u) (ts_updated_at u) None d"
      "validate_operation p u profile prop allow = None" by (rule legal_step_draft)
    have "ts_phase v = ts_phase u \<or> (ts_phase u, ts_phase v) \<in> set (pf_phase_transitions profile)"
      using apply_operation_phase [OF d(1)] d(2,3)
      by (auto simp: validate_operation_def validate_phase_def allows_phase_transition_def Let_def
          draft_of_def split: if_splits)
    then show ?thesis using u by (auto intro: rtrancl.rtrancl_into_rtrancl)
  qed
  have "?P s" using assms by simp
  then have "\<exists>n. pd_next_state d = Some n \<and> ?P n"
    by (rule evaluate_accepted_invariant [OF assms(1-3), where P = ?P, OF _ step])
       (auto simp: draft_of_def state_item_def item_ids_def)
  then show ?thesis by blast
qed

theorem phase_follows_profile_witness:
  "(ts_phase ex_state, ts_phase ex_next) \<in> (set (pf_phase_transitions ex_profile))\<^sup>*"
  using phase_follows_profile [OF ex_run] ex_accepted(2) by simp

text \<open>
  Without privilege an accepted delta neither locks the schema nor skips a required item.
\<close>

theorem unprivileged_limits:
  assumes "evaluate H s profile prop now known False = Inr d" and "accepted d" and "TaskState_ok s"
    and "state_item s k = Some t" and "ti_required t" and "ti_status t \<noteq> SKIPPED"
  shows "\<exists>n t'. pd_next_state d = Some n \<and> ts_schema_locked n = ts_schema_locked s \<and>
     state_item n k = Some t' \<and> ti_status t' \<noteq> SKIPPED"
proof -
  let ?P = "\<lambda>u. ts_schema_locked u = ts_schema_locked s \<and>
     (\<exists>t'. state_item u k = Some t' \<and> ti_required t' \<and> ti_status t' \<noteq> SKIPPED)"
  have step: "?P v" if u: "?P u" and st: "legal_step profile prop False p u v" for p u v
  proof -
    from u obtain t1 where t1: "state_item u k = Some t1" "ti_required t1" "ti_status t1 \<noteq> SKIPPED" by blast
    from st obtain d where d: "apply_operation p (draft_of u) = Inr d"
      "v = finish_draft u (ts_revision u) (ts_updated_at u) None d"
      "validate_operation p u profile prop False = None" by (rule legal_step_draft)
    have "op_kind p \<noteq> LOCK_SCHEMA"
      using d(3) by (auto simp: validate_operation_def PRIVILEGED_OPERATIONS_def split: if_splits)
    then have "ts_schema_locked v = ts_schema_locked u"
      using apply_operation_schema_locked [OF d(1)] d(2) by (simp add: draft_of_def)
    moreover from legal_step_item [OF st t1(1)] obtain t2 where t2: "state_item v k = Some t2"
      "ti_required t2 = ti_required t1" "ti_status t2 = ti_status t1 \<or> ti_status t2 = BLOCKED \<or>
         validate_status p t1 (ti_status t2) u prop False = None" by metis
    moreover have "ti_status t2 \<noteq> SKIPPED"
      using t2(3) t1 by (auto dest: validate_status_None(5))
    ultimately show ?thesis using u t1 by auto
  qed
  have "?P s" using assms(4-6) by blast
  then have "\<exists>n. pd_next_state d = Some n \<and> ?P n"
    by (rule evaluate_accepted_invariant [OF assms(1-3), where P = ?P, OF _ step])
       (auto simp: draft_of_def state_item_def item_ids_def)
  then show ?thesis by blast
qed

theorem unprivileged_limits_witness:
  "ti_required (ex_item ''b'' PENDING [''a'']) \<and> ts_schema_locked ex_next = ts_schema_locked ex_state \<and>
   (\<exists>t'. state_item ex_next ''b'' = Some t' \<and> ti_status t' \<noteq> SKIPPED)"
  using unprivileged_limits [OF ex_run ex_state_items(2)] ex_accepted(2) by (simp add: ex_item_def)


text \<open>
  Operations are validated and applied one at a time on a working copy and then applied at once
  to the base; both computations give the same snapshot up to the bookkeeping fields.
\<close>

theorem batch_application_agrees:
  assumes "evaluate H s profile prop now known allow = Inr d" and "accepted d" and "TaskState_ok s"
  shows "\<exists>w n. fold_res apply_one (pr_operations prop) s = Inr w \<and> pd_next_state d = Some n \<and>
           same_meaning n w \<and> apply_operations s (pr_operations prop) (ts_revision s + 1) now
             (Some (if pd_is_progress d then now else ts_last_progress_at s)) = Inr n"
proof -
  have acc: "pd_outcome d = ACCEPTED" using assms(2) by (simp add: accepted_def)
  from evaluate_accepted_next [OF assms(1) acc assms(3)] obtain w n where
    n: "pd_next_state d = Some n"
    and run: "run_operations profile prop allow (pr_operations prop) s False = Inr (Inr (w, pd_is_progress d))"
    and eq: "n = finish_draft s (ts_revision s + 1) now
           (Some (if pd_is_progress d then now else ts_last_progress_at s)) (draft_of w)" by blast
  have inc: "fold_res apply_one (pr_operations prop) s = Inr w"
    using run by (rule run_operations_incremental)
  have "finish_draft w rv u pr (draft_of w) = finish_draft s rv u pr (draft_of w)" for rv u pr
    using incremental_draft [OF inc] by simp
  moreover have "same_meaning (finish_draft w rv u pr (draft_of w)) w" for rv u pr
    by (simp add: same_meaning_def semantic_view_def finish_draft_def draft_of_def)
  ultimately have "same_meaning n w" using eq by metis
  moreover have "apply_operations s (pr_operations prop) (ts_revision s + 1) now
      (Some (if pd_is_progress d then now else ts_last_progress_at s)) = Inr n"
    unfolding eq by (rule batch_eq_incremental [OF inc assms(3)]) (use assms(3) in \<open>simp add: TaskState_ok_def\<close>)
  ultimately show ?thesis using inc n by blast
qed

theorem batch_application_agrees_witness:
  "\<exists>w. fold_res apply_one ex_ops ex_state = Inr w \<and> same_meaning ex_next w"
  using batch_application_agrees [OF ex_run] ex_accepted(2) by auto

section \<open>When the policy returns a decision\<close>

text \<open>
  A dataclass check inside \<^verbatim>\<open>apply_operations\<close> raises only for an added item or constraint that is not
  well formed, or beyond the bound on items.
\<close>

definition well_formed_delta :: "task_state \<Rightarrow> task_operation list \<Rightarrow> bool" where
  "well_formed_delta s ps \<longleftrightarrow>
     list_all TaskOperation_ok ps \<and>
     list_all (\<lambda>p. op_kind p = ADD_ITEM \<longrightarrow> TaskItem_ok (new_item p)) ps \<and>
     list_all (\<lambda>p. op_kind p = ADD_CONSTRAINT \<longrightarrow> TaskConstraint_ok (new_constraint p)) ps \<and>
     length (ts_items s) + length (filter (\<lambda>p. op_kind p = ADD_ITEM) ps) \<le> MAX_ITEMS"

definition items_ok :: "task_state \<Rightarrow> bool" where
  "items_ok s \<longleftrightarrow> TaskState_ok s \<and> list_all TaskItem_ok (ts_items s)"

lemma item_change_ok:
  assumes "TaskItem_ok t"
  shows "TaskItem_ok (set_item_content p t)" "TaskItem_ok (set_item_blocker p t)"
    "validate_status p t' target u prop allow = None \<Longrightarrow> op_status p = Some target \<Longrightarrow>
       TaskItem_ok (set_item_status p t)"
  using assms
  by (auto dest: truthy_py_str validate_status_None(4) simp: TaskItem_ok_def set_item_content_def set_item_blocker_def set_item_status_def)


definition same_shape :: "task_item list \<Rightarrow> task_item list \<Rightarrow> bool" where
  "same_shape xs ys \<longleftrightarrow> map ti_item_id xs = map ti_item_id ys \<and> map ti_depends_on xs = map ti_depends_on ys"

lemma same_shape_replace:
  "same_shape (replace_by ti_item_id k (set_item_status p) xs) xs"
  "same_shape (replace_by ti_item_id k (set_item_content p) xs) xs"
  "same_shape (replace_by ti_item_id k (set_item_blocker p) xs) xs"
  by (simp_all add: same_shape_def map_replace_by set_item_status_def set_item_content_def set_item_blocker_def)

lemma TaskState_ok_same_shape:
  assumes ok: "TaskState_ok u" and shape: "same_shape items (ts_items u)"
  shows "TaskState_ok (u\<lparr>ts_items := items\<rparr>)"
proof -
  have len: "length items = length (ts_items u)" using shape by (metis same_shape_def length_map)
  have ids: "item_ids (u\<lparr>ts_items := items\<rparr>) = item_ids u" using shape by (simp add: same_shape_def item_ids_def)
  have "list_all (\<lambda>ds. set ds \<subseteq> set (item_ids u)) (map ti_depends_on (ts_items u))"
    using ok by (simp add: TaskState_ok_def list.pred_map comp_def)
  then have "list_all (\<lambda>ds. set ds \<subseteq> set (item_ids u)) (map ti_depends_on items)"
    using shape by (simp add: same_shape_def)
  then show ?thesis using ok len ids by (simp add: TaskState_ok_def list.pred_map comp_def)
qed

lemma items_ok_finish:
  assumes "items_ok (u\<lparr>ts_items := dr_items d\<rparr>)"
  shows "items_ok (finish_draft u (ts_revision u) at pr d)"
  using assms by (simp add: items_ok_def TaskState_ok_def item_ids_def)

lemma legal_item_change:
  assumes ok: "items_ok u" and shape: "same_shape (replace_by ti_item_id k f (ts_items u)) (ts_items u)"
    and ch: "\<And>t. TaskItem_ok t \<Longrightarrow> TaskItem_ok (f t)"
  shows "\<exists>d. with_items (draft_of u) (replace_item (dr_items (draft_of u)) k f) = Inr d \<and>
     items_ok (u\<lparr>ts_items := dr_items d\<rparr>) \<and> length (dr_items d) = length (ts_items u)"
proof -
  have "replace_item (ts_items u) k f = Inr (replace_by ti_item_id k f (ts_items u))"
    using ch ok by (auto simp: replace_item_Inr items_ok_def list_all_iff)
  moreover have "list_all TaskItem_ok (replace_by ti_item_id k f (ts_items u))"
    using ok ch by (intro list_all_replace_by) (simp_all add: items_ok_def)
  ultimately show ?thesis
    using ok TaskState_ok_same_shape [OF _ shape] by (simp add: with_items_def items_ok_def draft_of_def)
qed

lemma validated_operation_applies:
  assumes ok: "items_ok u" and op: "TaskOperation_ok p" and v: "validate_operation p u profile prop allow = None"
    and new: "op_kind p = ADD_ITEM \<Longrightarrow> TaskItem_ok (new_item p)"
    "op_kind p = ADD_CONSTRAINT \<Longrightarrow> TaskConstraint_ok (new_constraint p)"
    and len: "length (ts_items u) + (if op_kind p = ADD_ITEM then 1 else 0) \<le> MAX_ITEMS"
  shows "\<exists>d. apply_operation p (draft_of u) = Inr d \<and> items_ok (u\<lparr>ts_items := dr_items d\<rparr>) \<and>
     length (dr_items d) = length (ts_items u) + (if op_kind p = ADD_ITEM then 1 else 0)"
proof (cases "op_kind p")
  case ADD_ITEM
  have fresh: "py_str (op_item_id p) \<notin> set (item_ids u)"
    "set (ti_depends_on (new_item p)) \<subseteq> set (item_ids u)"
    using v ADD_ITEM by (auto simp: validate_operation_def validate_add_item_def state_item_None_iff
        new_item_def split: if_splits option.splits)
  have "apply_operation p (draft_of u) = Inr ((draft_of u)\<lparr>dr_items := ts_items u @ [new_item p]\<rparr>)"
    using ADD_ITEM new by (simp add: apply_operation_def draft_of_def)
  moreover have "items_ok (u\<lparr>ts_items := ts_items u @ [new_item p]\<rparr>)"
    using ok fresh new(1) [OF ADD_ITEM] len ADD_ITEM
    by (auto simp: items_ok_def TaskState_ok_def item_ids_def new_item_def list_all_iff)
  ultimately show ?thesis using ADD_ITEM by simp
next
  case SET_ITEM_STATUS
  obtain st where st: "op_status p = Some st" using op SET_ITEM_STATUS by (auto simp: TaskOperation_ok_def)
  have "validate_item_change p u prop allow = None"
    using v SET_ITEM_STATUS by (auto simp: validate_operation_def split: if_splits)
  then obtain t where "validate_status p t st u prop allow = None"
    using SET_ITEM_STATUS st by (auto simp: validate_item_change_def split: option.splits)
  then have ch: "TaskItem_ok x \<Longrightarrow> TaskItem_ok (set_item_status p x)" for x
    using st by (auto intro: item_change_ok)
  show ?thesis
    using legal_item_change [OF ok same_shape_replace(1), of p] ch SET_ITEM_STATUS
    by (simp add: apply_operation_def)
next
  case SET_ITEM_CONTENT
  then show ?thesis
    using legal_item_change [OF ok same_shape_replace(2), of p] item_change_ok
    by (simp add: apply_operation_def)
next
  case SET_ITEM_BLOCKER
  then show ?thesis
    using legal_item_change [OF ok same_shape_replace(3), of p] item_change_ok
    by (simp add: apply_operation_def)
qed (use ok new in \<open>simp_all add: apply_operation_def draft_of_def items_ok_def TaskState_ok_def item_ids_def\<close>)


lemma run_operations_total:
  assumes "items_ok u" and "well_formed_delta u ps"
  shows "\<exists>r. run_operations profile prop allow ps u b = Inr r"
  using assms
proof (induction ps arbitrary: u b)
  case Nil
  then show ?case by simp
next
  case (Cons p ps)
  show ?case
  proof (cases "validate_operation p u profile prop allow")
    case None
    have "\<exists>d. apply_operation p (draft_of u) = Inr d \<and> items_ok (u\<lparr>ts_items := dr_items d\<rparr>) \<and>
        length (dr_items d) = length (ts_items u) + (if op_kind p = ADD_ITEM then 1 else 0)"
      using Cons.prems(2)
      by (intro validated_operation_applies [OF Cons.prems(1) _ None])
         (auto simp: well_formed_delta_def split: if_splits)
    then obtain d where d: "apply_operation p (draft_of u) = Inr d" "items_ok (u\<lparr>ts_items := dr_items d\<rparr>)"
      "length (dr_items d) = length (ts_items u) + (if op_kind p = ADD_ITEM then 1 else 0)" by blast
    let ?v = "finish_draft u (ts_revision u) (ts_updated_at u) None d"
    have v: "items_ok ?v" using d(2) by (rule items_ok_finish)
    then have "apply_one p u = Inr ?v" using d(1) by (auto simp: apply_one_Inr items_ok_def)
    moreover have "well_formed_delta ?v ps"
      using Cons.prems(2) d(3) by (auto simp: well_formed_delta_def split: if_splits)
    ultimately show ?thesis using None Cons.IH [OF v] by simp
  qed simp
qed

text \<open>
  [C22] Evaluation always returns one decision, never an exception, when the items of the snapshot are
  well formed, every added item and constraint is, and the bound on items is respected.
\<close>

theorem evaluate_returns:
  assumes "items_ok s" and "well_formed_delta s (pr_operations prop)"
  shows "\<exists>d. evaluate H s profile prop now known allow = Inr d"
proof (cases "precheck s prop known")
  case None
  obtain r where r: "run_operations profile prop allow (pr_operations prop) s False = Inr r"
    using run_operations_total [OF assms] by blast
  have "\<exists>d. decide H s prop now r = Inr d"
  proof (cases r)
    case (Inr wb)
    obtain w b where wb: "wb = (w, b)" by (cases wb)
    have "fold_res apply_one (pr_operations prop) s = Inr w"
      using r Inr wb by (auto intro: run_operations_incremental)
    then have "\<exists>n. apply_operations s (pr_operations prop) (ts_revision s + 1) now pr = Inr n" for pr
      using batch_eq_incremental assms(1) by (auto simp: items_ok_def TaskState_ok_def)
    then obtain n where "apply_operations s (pr_operations prop) (ts_revision s + 1) now
      (Some (if b then now else ts_last_progress_at s)) = Inr n" by blast
    then show ?thesis using Inr wb by (simp add: decide_def)
  qed (simp add: decide_def)
  with None r show ?thesis by (simp add: evaluate_def)
qed (simp add: evaluate_def)

theorem evaluate_returns_witness:
  "items_ok ex_state \<and> well_formed_delta ex_state ex_ops \<and>
   (\<exists>d. evaluate ex_hashes ex_state ex_profile (ex_proposal ex_ops) 9 None False = Inr d)"
proof -
  have "items_ok ex_state" "well_formed_delta ex_state ex_ops" by code_simp+
  with evaluate_returns [of ex_state "ex_proposal ex_ops"] show ?thesis
    by simp
qed


end
