(* ===== verification/Task_Codec.thy ===== *)
theory Task_Codec
  imports Task_Samples "HOL-Library.AList"
begin

text \<open>
  Reading stored snapshots and decisions back (\<^verbatim>\<open>_state_from_dict\<close>, \<^verbatim>\<open>_item_from_dict\<close> and
  \<^verbatim>\<open>_decision_from_dict\<close> of \<^verbatim>\<open>src/atmem/task_state/service.py\<close>).  Rebuilding a dataclass runs its checks, so
  reading may raise; a snapshot whose parts all pass their checks is read back exactly.
\<close>

definition checked :: "bool \<Rightarrow> 'a \<Rightarrow> py_error + 'a" where
  "checked ok x = (if ok then Inr x else Inl ValueError)"

lemma checked_Inr [simp]: "checked ok x = Inr y \<longleftrightarrow> ok \<and> y = x"
  by (auto simp: checked_def)

lemma checked_True [simp]: "checked True x = Inr x"
  by (simp add: checked_def)

definition scope_from_dict :: "json \<Rightarrow> py_error + authority_scope" where
  "scope_from_dict j =
     bind_res (jfield j ''subject_id'' as_str) (\<lambda>s.
     bind_res (jfield j ''agent_id'' as_str) (\<lambda>a.
     bind_res (jfield j ''workspace_id'' as_str) (\<lambda>w.
       let sc = \<lparr>sc_subject_id = s, sc_agent_id = a, sc_workspace_id = w\<rparr>
       in checked (AuthorityScope_ok sc) sc)))"

definition evidence_from_dict :: "json \<Rightarrow> py_error + evidence_ref" where
  "evidence_from_dict j =
     bind_res (jfield j ''kind'' as_str) (\<lambda>k.
     bind_res (jfield j ''reference_id'' as_str) (\<lambda>r.
     bind_res (jopt_str j ''sha256'') (\<lambda>d.
       let e = \<lparr>er_kind = k, er_reference_id = r, er_sha256 = d\<rparr> in checked (EvidenceRef_ok e) e)))"

definition item_from_dict :: "json \<Rightarrow> py_error + task_item" where
  "item_from_dict j =
     bind_res (jfield j ''item_id'' as_str) (\<lambda>item_id.
     bind_res (jfield j ''kind'' as_str) (\<lambda>kind.
     bind_res (jfield j ''title'' as_str) (\<lambda>title.
     bind_res (jenum j ''status'' ItemStatus_of (Some PENDING)) (\<lambda>status.
     bind_res (jget_or j ''content'' as_obj []) (\<lambda>content.
     bind_res (jget_or j ''depends_on'' as_strs []) (\<lambda>deps.
     bind_res (jopt_str j ''blocker_reason'') (\<lambda>blocker.
     bind_res (jopt_str j ''skip_reason'') (\<lambda>skip.
     bind_res (jenum j ''assurance'' Assurance_of (Some ASSERTED)) (\<lambda>assurance.
     bind_res (jget_or j ''evidence'' as_list []) (\<lambda>rows.
     bind_res (map_res evidence_from_dict rows) (\<lambda>evidence.
     bind_res (jget_or j ''required'' as_bool False) (\<lambda>required.
       let t = \<lparr>ti_item_id = item_id, ti_kind = kind, ti_title = title, ti_status = status, ti_content = content,
                ti_depends_on = deps, ti_blocker_reason = blocker, ti_skip_reason = skip,
                ti_assurance = assurance, ti_evidence = evidence, ti_required = required\<rparr>
       in checked (TaskItem_ok t) t))))))))))))"

definition constraint_from_dict :: "json \<Rightarrow> py_error + task_constraint" where
  "constraint_from_dict j =
     bind_res (jfield j ''constraint_id'' as_str) (\<lambda>k.
     bind_res (jfield j ''text'' as_str) (\<lambda>text.
     bind_res (jget_or j ''satisfied'' as_bool False) (\<lambda>satisfied.
     bind_res (case jget j ''required_for_completion'' of None \<Rightarrow> Inr True
               | Some _ \<Rightarrow> jget_or j ''required_for_completion'' as_bool False) (\<lambda>required.
       let c = \<lparr>tc_constraint_id = k, tc_text = text, tc_satisfied = satisfied,
                tc_required_for_completion = required\<rparr>
       in checked (TaskConstraint_ok c) c))))"

definition state_from_dict :: "json \<Rightarrow> py_error + task_state" where
  "state_from_dict j =
     bind_res (jfield j ''scope'' Some) (\<lambda>sj.
     bind_res (jfield j ''task_id'' as_str) (\<lambda>task_id.
     bind_res (scope_from_dict sj) (\<lambda>scope.
     bind_res (jfield j ''revision'' as_num) (\<lambda>rv.
     bind_res (jenum j ''lifecycle'' TaskLifecycle_of None) (\<lambda>lifecycle.
     bind_res (jfield j ''phase'' as_str) (\<lambda>phase.
     bind_res (jfield j ''goal'' as_str) (\<lambda>goal.
     bind_res (jfield j ''profile_id'' as_str) (\<lambda>profile_id.
     bind_res (jfield j ''profile_version'' as_str) (\<lambda>profile_version.
     bind_res (jget_or j ''items'' as_list []) (\<lambda>item_rows.
     bind_res (map_res item_from_dict item_rows) (\<lambda>items.
     bind_res (jget_or j ''constraints'' as_list []) (\<lambda>constraint_rows.
     bind_res (map_res constraint_from_dict constraint_rows) (\<lambda>constraints.
     bind_res (jget_or j ''sources_to_inspect'' as_strs []) (\<lambda>sources.
     bind_res (jget_or j ''completed_sources'' as_strs []) (\<lambda>completed.
     bind_res (jget_or j ''schema_locked'' as_bool False) (\<lambda>locked.
     bind_res (jfield j ''created_at'' as_time) (\<lambda>created.
     bind_res (jfield j ''updated_at'' as_time) (\<lambda>updated.
     bind_res (jfield j ''last_progress_at'' as_time) (\<lambda>progress.
     bind_res (jopt_num j ''parent_revision'') (\<lambda>parent.
     bind_res (jdefault_num j ''policy_generation'' 1) (\<lambda>generation.
       checked_state
         \<lparr>ts_task_id = task_id, ts_scope = scope, ts_revision = rv, ts_lifecycle = lifecycle, ts_phase = phase,
          ts_goal = goal, ts_profile_id = profile_id, ts_profile_version = profile_version, ts_items = items,
          ts_constraints = constraints, ts_sources_to_inspect = sources, ts_completed_sources = completed,
          ts_schema_locked = locked, ts_created_at = created, ts_updated_at = updated,
          ts_last_progress_at = progress, ts_parent_revision = parent, ts_policy_generation = generation\<rparr>)))))))))))))))))))))"

definition guard_from_dict :: "json \<Rightarrow> py_error + guard_signal" where
  "guard_from_dict j =
     bind_res (jenum j ''guard_type'' GuardType_of None) (\<lambda>g.
     bind_res (jfield j ''task_id'' as_str) (\<lambda>task_id.
     bind_res (jfield j ''revision'' as_num) (\<lambda>rv.
     bind_res (jfield j ''message'' as_str) (\<lambda>message.
     bind_res (jget_or j ''blocking_item_ids'' as_strs []) (\<lambda>ids.
     bind_res (jdefault_num j ''repeated_action_count'' 0) (\<lambda>count.
     bind_res (jget_or j ''enforced'' as_bool False) (\<lambda>enforced.
       let s = \<lparr>gs_guard_type = g, gs_task_id = task_id, gs_revision = rv, gs_message = message,
                gs_blocking_item_ids = ids, gs_repeated_action_count = count, gs_enforced = enforced\<rparr>
       in checked (GuardSignal_ok s) s)))))))"

text \<open>The stored evidence of a decision is not read back: the field keeps its default.\<close>

definition decision_from_dict :: "json \<Rightarrow> py_error + transition_decision" where
  "decision_from_dict j =
     bind_res (jfield j ''scope'' Some) (\<lambda>sj.
     bind_res (jfield j ''decision_id'' as_str) (\<lambda>decision_id.
     bind_res (jfield j ''proposal_id'' as_str) (\<lambda>proposal_id.
     bind_res (jfield j ''task_id'' as_str) (\<lambda>task_id.
     bind_res (scope_from_dict sj) (\<lambda>scope.
     bind_res (jenum j ''outcome'' StepOutcome_of None) (\<lambda>oc.
     bind_res (jget_or j ''reason_codes'' as_strs []) (\<lambda>reasons.
     bind_res (jfield j ''base_revision'' as_num) (\<lambda>base.
     bind_res (jopt_num j ''resulting_revision'') (\<lambda>resulting.
     bind_res (jfield j ''decided_at'' as_time) (\<lambda>decided_at.
     bind_res (jget_or j ''decided_by'' as_str ''atmem-authority'') (\<lambda>decided_by.
     bind_res (jenum j ''assurance'' Assurance_of (Some ASSERTED)) (\<lambda>assurance.
     bind_res (jget_or j ''guards'' as_list []) (\<lambda>rows.
     bind_res (map_res guard_from_dict rows) (\<lambda>guards.
     bind_res (jget_or j ''replayed'' as_bool False) (\<lambda>replayed.
       let d = \<lparr>td_decision_id = decision_id, td_proposal_id = proposal_id, td_task_id = task_id,
                td_scope = scope, td_outcome = oc, td_reason_codes = reasons, td_base_revision = base,
                td_resulting_revision = resulting, td_decided_at = decided_at, td_decided_by = decided_by,
                td_assurance = assurance, td_evidence = [], td_guards = guards, td_replayed = replayed\<rparr>
       in checked (TransitionDecision_ok d) d)))))))))))))))"

text \<open>\<^verbatim>\<open>stored["replayed"] = True\<close>\<close>

fun set_key :: "string \<Rightarrow> json \<Rightarrow> json \<Rightarrow> json" where
  "set_key k v (JObj kvs) = JObj (AList.update k v kvs)"
| "set_key k v j = j"

section \<open>Reading back what was written\<close>

definition item_valid :: "task_item \<Rightarrow> bool" where
  "item_valid t \<longleftrightarrow> TaskItem_ok t \<and> list_all EvidenceRef_ok (ti_evidence t)"

definition state_valid :: "task_state \<Rightarrow> bool" where
  "state_valid s \<longleftrightarrow> TaskState_ok s \<and> AuthorityScope_ok (ts_scope s) \<and> list_all item_valid (ts_items s) \<and>
     list_all TaskConstraint_ok (ts_constraints s)"

lemma jget_or_strs_Nil: "jget j k = Some (strs_json xs) \<Longrightarrow> jget_or j k as_strs [] = Inr xs"
  by (simp add: jget_or_strs)

lemma jfield_read: "jget j k = Some v \<Longrightarrow> read v = Some x \<Longrightarrow> jfield j k read = Inr x"
  by (simp add: jfield_def)

lemma jdefault_num_read: "jget j k = Some (JNum n) \<Longrightarrow> jdefault_num j k d = Inr n"
  by (simp add: jdefault_num_def)

lemmas json_reads = jfield_read jdefault_num_read jget_or_strs_Nil jget_or_list jget_or_obj jget_or_bool
  jopt_num_read jopt_str_read jenum_read

lemma scope_roundtrip: "AuthorityScope_ok sc \<Longrightarrow> scope_from_dict (JObj (scope_fields sc)) = Inr sc"
  by (simp add: scope_from_dict_def scope_fields_def jfield_def AuthorityScope_ok_def Let_def del: bind_res_eq_Inr)

lemma evidence_roundtrip: "EvidenceRef_ok e \<Longrightarrow> evidence_from_dict (evidence_json e) = Inr e"
  by (simp add: evidence_from_dict_def evidence_json_def json_reads EvidenceRef_ok_def Let_def del: bind_res_eq_Inr)

lemma constraint_roundtrip: "TaskConstraint_ok c \<Longrightarrow> constraint_from_dict (constraint_json c) = Inr c"
  by (simp add: constraint_from_dict_def constraint_json_def json_reads TaskConstraint_ok_def Let_def del: bind_res_eq_Inr)

lemma item_roundtrip: "item_valid t \<Longrightarrow> item_from_dict (TaskItem_to_dict t) = Inr t"
proof -
  assume ok: "item_valid t"
  then have "map_res evidence_from_dict (map evidence_json (ti_evidence t)) = Inr (ti_evidence t)"
    by (intro map_res_inverse) (auto simp: item_valid_def list_all_iff evidence_roundtrip)
  then show ?thesis
    using ok by (simp add: item_from_dict_def TaskItem_to_dict_def json_reads item_valid_def TaskItem_ok_def Let_def
        del: bind_res_eq_Inr)
qed

lemma state_roundtrip: "state_valid s \<Longrightarrow> state_from_dict (TaskState_to_dict s) = Inr s"
proof -
  assume ok: "state_valid s"
  then have "map_res item_from_dict (map TaskItem_to_dict (ts_items s)) = Inr (ts_items s)"
    "map_res constraint_from_dict (map constraint_json (ts_constraints s)) = Inr (ts_constraints s)"
    by (intro map_res_inverse; auto simp: state_valid_def list_all_iff item_roundtrip constraint_roundtrip)+
  then show ?thesis
    using ok by (simp add: state_from_dict_def TaskState_to_dict_def json_reads state_valid_def scope_roundtrip
        checked_state_def TaskState_ok_def item_ids_def del: bind_res_eq_Inr)
qed


text \<open>A decision read back for a replay: itself without its evidence, marked as replayed.\<close>

lemma guard_roundtrip: "GuardSignal_ok g \<Longrightarrow> guard_from_dict (GuardSignal_to_dict g) = Inr g"
  by (simp add: guard_from_dict_def GuardSignal_to_dict_def json_reads GuardSignal_ok_def Let_def
      del: bind_res_eq_Inr)

lemma decision_replay:
  assumes ok: "TransitionDecision_ok d" "AuthorityScope_ok (td_scope d)" "list_all GuardSignal_ok (td_guards d)"
    and nonempty: "td_decided_by d \<noteq> []"
  shows "decision_from_dict (set_key ''replayed'' (JBool True) (TransitionDecision_to_dict d)) =
    Inr (d\<lparr>td_evidence := [], td_replayed := True\<rparr>)"
proof -
  have "map_res guard_from_dict (map GuardSignal_to_dict (td_guards d)) = Inr (td_guards d)"
    using ok(3) by (intro map_res_inverse) (auto simp: list_all_iff guard_roundtrip)
  moreover have "reason_codes_ok (td_reason_codes d)" using ok(1) by (simp add: TransitionDecision_ok_def)
  moreover have "jget_or j k as_str e = Inr (td_decided_by d)" if "jget j k = Some (JStr (td_decided_by d))" for j k e
    using that nonempty by (simp add: jget_or_def)
  ultimately show ?thesis
    using ok by (simp add: decision_from_dict_def TransitionDecision_to_dict_def json_reads scope_roundtrip
        TransitionDecision_ok_def Let_def del: bind_res_eq_Inr)
qed

section \<open>Operations keep stored snapshots valid\<close>

lemma new_item_valid: "item_valid (new_item p) \<longleftrightarrow> TaskItem_ok (new_item p)"
  by (simp add: item_valid_def new_item_def)

lemma apply_operation_items_valid:
  assumes "apply_operation p d = Inr d'" and "list_all item_valid (dr_items d)"
    and "list_all TaskConstraint_ok (dr_constraints d)"
  shows "list_all item_valid (dr_items d')" "list_all TaskConstraint_ok (dr_constraints d')"
proof -
  have repl: "list_all item_valid (replace_by ti_item_id k f (dr_items d))"
    if "\<forall>t\<in>set (dr_items d). ti_item_id t = k \<longrightarrow> TaskItem_ok (f t)" "\<And>t. ti_evidence (f t) = ti_evidence t" for k f
    using assms(2) that by (auto simp: list_all_iff item_valid_def set_replace_by)
  show "list_all item_valid (dr_items d')"
    using assms repl
    by (cases "op_kind p")
       (auto simp: apply_operation_defs set_item_status_def set_item_content_def set_item_blocker_def
          new_item_valid split: if_splits)
  show "list_all TaskConstraint_ok (dr_constraints d')"
    using assms
    by (cases "op_kind p")
       (auto simp: apply_operation_defs split: if_splits
          intro!: list_all_replace_by simp: satisfy_constraint_def TaskConstraint_ok_def)
qed


lemma apply_operations_valid:
  assumes "apply_operations s ps rv u pr = Inr t" and "state_valid s"
  shows "state_valid t"
proof -
  from assms(1) obtain d where d: "fold_res apply_operation ps (draft_of s) = Inr d"
    "t = finish_draft s rv u pr d" "TaskState_ok t" by (auto simp: apply_operations_Inr)
  let ?P = "\<lambda>d. list_all item_valid (dr_items d) \<and> list_all TaskConstraint_ok (dr_constraints d)"
  have "?P (draft_of s)" using assms(2) by (simp add: state_valid_def draft_of_def)
  with d(1) have "?P d" by (rule fold_res_invariant) (auto dest: apply_operation_items_valid)
  then show ?thesis using d(2,3) assms(2) by (simp add: state_valid_def)
qed

section \<open>Property of the codec\<close>

text \<open>
  [C20] Every snapshot whose parts pass their checks survives storage: reading its encoded form gives it back,
  and applying operations to it gives snapshots of the same kind.
\<close>

theorem snapshots_survive_storage:
  assumes "state_valid s"
  shows "state_from_dict (TaskState_to_dict s) = Inr s \<and>
    (apply_operations s ps rv u pr = Inr t \<longrightarrow> state_from_dict (TaskState_to_dict t) = Inr t)"
  using assms state_roundtrip apply_operations_valid by blast

lemma ex_state_valid: "state_valid ex_state"
  by code_simp

theorem snapshots_survive_storage_witness:
  "state_valid ex_state \<and> state_from_dict (TaskState_to_dict ex_state) = Inr ex_state"
  using snapshots_survive_storage [OF ex_state_valid] ex_state_valid by blast

end
