(* ===== verification/Audit_Log.thy ===== *)
theory Audit_Log
  imports Json_Values
begin

text \<open>
  The tamper-evident audit log (\<^verbatim>\<open>append_audit_event\<close>, \<^verbatim>\<open>list_audit_events\<close>, \<^verbatim>\<open>verify_audit_chain\<close> and
  \<^verbatim>\<open>verify_audit_chain_incremental\<close> of \<^verbatim>\<open>src/atmem/store/sqlite.py\<close>).  Events carry an increasing sequence
  number shared by all subjects; the hash chain runs per subject.  Lemmas: appending keeps every chain
  valid; two valid chains with the same head hash and length are equal unless the hash collides; the
  incremental check from a verified prefix agrees with the full one.
\<close>

record audit_event =
  ae_sequence :: nat
  ae_event_id :: string
  ae_subject_id :: string
  ae_event_type :: string
  ae_created_at :: int
  ae_actor :: string
  ae_session_id :: "string option"
  ae_turn_id :: "string option"
  ae_record_id :: "string option"
  ae_payload :: json
  ae_prev_hash :: "string option"
  ae_event_hash :: string

record verification_state =
  vs_sequence :: nat
  vs_event_hash :: string
  vs_verified_at :: int

record audit_log =
  al_events :: "audit_event list"
  al_next_sequence :: nat
  al_verified :: "string \<Rightarrow> verification_state option"

definition event_body :: "audit_event \<Rightarrow> string option \<Rightarrow> json" where
  "event_body e prev =
     JObj [(''event_id'', JStr (ae_event_id e)),
           (''subject_id'', JStr (ae_subject_id e)),
           (''event_type'', JStr (ae_event_type e)),
           (''created_at'', JTime (ae_created_at e)),
           (''actor'', JStr (ae_actor e)),
           (''session_id'', opt_json JStr (ae_session_id e)),
           (''turn_id'', opt_json JStr (ae_turn_id e)),
           (''record_id'', opt_json JStr (ae_record_id e)),
           (''payload'', ae_payload e),
           (''prev_hash'', opt_json JStr prev)]"

definition event_hash :: "hashes \<Rightarrow> json \<Rightarrow> string" where
  "event_hash H body = sha_json H (canonical body)"

definition list_audit_events :: "audit_log \<Rightarrow> string \<Rightarrow> audit_event list" where
  "list_audit_events log sub = sort_key ae_sequence (filter (\<lambda>e. ae_subject_id e = sub) (al_events log))"

definition event_at_sequence :: "audit_log \<Rightarrow> string \<Rightarrow> nat \<Rightarrow> audit_event option" where
  "event_at_sequence log sub n =
     find (\<lambda>e. ae_subject_id e = sub \<and> ae_sequence e = n) (al_events log)"

definition head_hash :: "audit_event list \<Rightarrow> string option" where
  "head_hash es = (case rev es of [] \<Rightarrow> None | e # _ \<Rightarrow> Some (ae_event_hash e))"

text \<open>The caller's fields of a new event; identifier and time come from the process.\<close>

definition append_audit_event ::
  "hashes \<Rightarrow> string \<Rightarrow> int \<Rightarrow> string \<Rightarrow> string \<Rightarrow> json \<Rightarrow> string \<Rightarrow> string option \<Rightarrow> string option \<Rightarrow>
   string option \<Rightarrow> audit_log \<Rightarrow> audit_log" where
  "append_audit_event H event_id now sub event_type payload actor session turn rec log =
     (let prev = head_hash (list_audit_events log sub);
          e0 = \<lparr>ae_sequence = al_next_sequence log, ae_event_id = event_id, ae_subject_id = sub,
                ae_event_type = event_type, ae_created_at = now, ae_actor = actor,
                ae_session_id = session, ae_turn_id = turn, ae_record_id = rec, ae_payload = payload,
                ae_prev_hash = prev, ae_event_hash = []\<rparr>
      in log\<lparr>al_events := al_events log @ [e0\<lparr>ae_event_hash := event_hash H (event_body e0 prev)\<rparr>],
             al_next_sequence := al_next_sequence log + 1\<rparr>)"

text \<open>The verification loop: the number of events checked, and the hash of the last one.\<close>

fun check_events :: "hashes \<Rightarrow> string option \<Rightarrow> audit_event list \<Rightarrow> nat \<Rightarrow> (nat \<times> audit_event) + (nat \<times> string option)" where
  "check_events H prev [] n = Inr (n, prev)"
| "check_events H prev (e # es) n =
     (if ae_prev_hash e \<noteq> prev \<or> ae_event_hash e \<noteq> event_hash H (event_body e prev) then Inl (n, e)
      else check_events H (Some (ae_event_hash e)) es (n + 1))"

definition verify_audit_chain :: "hashes \<Rightarrow> audit_log \<Rightarrow> string \<Rightarrow> bool" where
  "verify_audit_chain H log sub =
     (case check_events H None (list_audit_events log sub) 0 of Inl _ \<Rightarrow> False | Inr _ \<Rightarrow> True)"

record verification_report =
  vr_valid :: bool
  vr_cached_from :: nat
  vr_verified_through :: "nat option"
  vr_verified_events :: nat
  vr_failure :: "string option"

definition anchor_intact :: "hashes \<Rightarrow> audit_event option \<Rightarrow> verification_state \<Rightarrow> bool" where
  "anchor_intact H anchor s =
     (case anchor of
        None \<Rightarrow> False
      | Some a \<Rightarrow> ae_event_hash a = vs_event_hash s \<and>
                  event_hash H (event_body a (ae_prev_hash a)) = ae_event_hash a)"

definition last_sequence :: "nat \<Rightarrow> audit_event list \<Rightarrow> nat" where
  "last_sequence start es = (case rev es of [] \<Rightarrow> start | e # _ \<Rightarrow> ae_sequence e)"

definition verify_suffix ::
  "hashes \<Rightarrow> int \<Rightarrow> nat \<Rightarrow> string option \<Rightarrow> audit_log \<Rightarrow> string \<Rightarrow> audit_log \<times> verification_report" where
  "verify_suffix H now start prev log sub =
     (let rows = filter (\<lambda>e. start < ae_sequence e) (list_audit_events log sub) in
      case check_events H prev rows 0 of
        Inl (n, e) \<Rightarrow>
          (log, \<lparr>vr_valid = False, vr_cached_from = start, vr_verified_through = None, vr_verified_events = n,
                 vr_failure = Some (''audit mismatch at sequence '' @ show_nat (ae_sequence e))\<rparr>)
      | Inr (n, final) \<Rightarrow>
          (let through = last_sequence start rows in
           (if through = 0 then log
            else log\<lparr>al_verified := (al_verified log)(sub \<mapsto>
                   \<lparr>vs_sequence = through, vs_event_hash = py_str final, vs_verified_at = now\<rparr>)\<rparr>,
            \<lparr>vr_valid = True, vr_cached_from = start, vr_verified_through = Some through,
             vr_verified_events = n, vr_failure = None\<rparr>)))"

definition verify_audit_chain_incremental ::
  "hashes \<Rightarrow> int \<Rightarrow> bool \<Rightarrow> audit_log \<Rightarrow> string \<Rightarrow> audit_log \<times> verification_report" where
  "verify_audit_chain_incremental H now reset log0 sub =
     (let log = (if reset then log0\<lparr>al_verified := (al_verified log0)(sub := None)\<rparr> else log0) in
      case (if reset then None else al_verified log sub) of
        None \<Rightarrow> verify_suffix H now 0 None log sub
      | Some s \<Rightarrow>
          if anchor_intact H (event_at_sequence log sub (vs_sequence s)) s
          then verify_suffix H now (vs_sequence s) (Some (vs_event_hash s)) log sub
          else (log, \<lparr>vr_valid = False, vr_cached_from = vs_sequence s, vr_verified_through = None,
                      vr_verified_events = 0,
                      vr_failure = Some ''cached verification anchor is missing or changed''\<rparr>))"

definition empty_log :: audit_log where
  "empty_log = \<lparr>al_events = [], al_next_sequence = 1, al_verified = (\<lambda>_. None)\<rparr>"

section \<open>Well-formed logs\<close>

text \<open>The \<^verbatim>\<open>AUTOINCREMENT\<close> key: rows in insertion order, all below the next number, from one up.\<close>

definition log_ok :: "audit_log \<Rightarrow> bool" where
  "log_ok log \<longleftrightarrow> sorted_wrt (<) (map ae_sequence (al_events log)) \<and>
     (\<forall>e\<in>set (al_events log). 0 < ae_sequence e \<and> ae_sequence e < al_next_sequence log) \<and>
     0 < al_next_sequence log"

lemma empty_log_ok: "log_ok empty_log"
  by (simp add: log_ok_def empty_log_def)

lemma log_ok_append: "log_ok log \<Longrightarrow> log_ok (append_audit_event H i now sub ty pl ac se tu re log)"
  by (fastforce simp: log_ok_def append_audit_event_def Let_def sorted_wrt_append)

lemma list_audit_events_filter:
  assumes "log_ok log"
  shows "list_audit_events log sub = filter (\<lambda>e. ae_subject_id e = sub) (al_events log)"
proof -
  have "sorted (map ae_sequence (al_events log))"
    using assms by (auto simp: log_ok_def intro: sorted_wrt_mono_rel [of _ "(<)"])
  then show ?thesis
    unfolding list_audit_events_def by (intro sort_key_id_if_sorted) (simp add: sorted_filter)
qed

lemma list_audit_events_append:
  assumes "log_ok log"
  shows "list_audit_events (append_audit_event H i now sub ty pl ac se tu re log) s =
    list_audit_events log s @
    (if s = sub then drop (length (al_events log)) (al_events (append_audit_event H i now sub ty pl ac se tu re log))
     else [])"
  using log_ok_append [OF assms] assms
  by (simp add: list_audit_events_filter append_audit_event_def Let_def)

section \<open>Chains\<close>

lemma check_events_append:
  "check_events H prev (xs @ ys) n =
     (case check_events H prev xs n of
        Inl f \<Rightarrow> Inl f
      | Inr (k, p) \<Rightarrow> check_events H p ys k)"
  by (induction xs arbitrary: prev n) auto

lemma head_hash_simps [simp]: "head_hash [] = None" "head_hash (xs @ [e]) = Some (ae_event_hash e)"
  by (simp_all add: head_hash_def)

lemma head_hash_append: "head_hash (xs @ ys) = (if ys = [] then head_hash xs else head_hash ys)"
  by (cases ys rule: rev_cases) (simp_all add: append_assoc [symmetric] del: append_assoc)

lemma check_events_Inr:
  "check_events H prev es n = Inr (k, p) \<Longrightarrow>
     k = n + length es \<and> p = (if es = [] then prev else head_hash es)"
proof (induction es arbitrary: prev n)
  case (Cons e es)
  then show ?case
    using head_hash_append [of "[e]" es] by (fastforce simp: head_hash_def split: if_splits)
qed simp

text \<open>The count only labels the result.\<close>

lemma check_events_count:
  "(\<exists>f. check_events H prev es n = Inl f) \<longleftrightarrow> (\<exists>f. check_events H prev es m = Inl f)"
  by (induction es arbitrary: prev n m) auto

definition chain_valid :: "hashes \<Rightarrow> string option \<Rightarrow> audit_event list \<Rightarrow> bool" where
  "chain_valid H prev es \<longleftrightarrow> (\<exists>r. check_events H prev es 0 = Inr r)"

lemma chain_valid_simps [simp]:
  "chain_valid H prev []"
  "chain_valid H prev (e # es) \<longleftrightarrow>
     ae_prev_hash e = prev \<and> ae_event_hash e = event_hash H (event_body e prev) \<and>
     chain_valid H (Some (ae_event_hash e)) es"
proof -
  show "chain_valid H prev []" by (simp add: chain_valid_def)
  have "(\<exists>r. check_events H p es n = Inr r) \<longleftrightarrow> (\<exists>r. check_events H p es m = Inr r)" for p n m
    using check_events_count [of H p es n m] by (metis old.sum.exhaust sum.simps(4))
  then show "chain_valid H prev (e # es) \<longleftrightarrow>
     ae_prev_hash e = prev \<and> ae_event_hash e = event_hash H (event_body e prev) \<and>
     chain_valid H (Some (ae_event_hash e)) es"
    by (auto simp: chain_valid_def)
qed

lemma chain_valid_append:
  "chain_valid H prev (xs @ ys) \<longleftrightarrow>
     chain_valid H prev xs \<and> chain_valid H (if xs = [] then prev else head_hash xs) ys"
proof (induction xs arbitrary: prev)
  case (Cons e xs)
  then show ?case using head_hash_append [of "[e]" xs] by (auto simp: head_hash_def)
qed simp

lemma verify_audit_chain_iff: "verify_audit_chain H log sub \<longleftrightarrow> chain_valid H None (list_audit_events log sub)"
  by (auto simp: verify_audit_chain_def chain_valid_def split: sum.splits)


section \<open>Appending and the cached verification\<close>

text \<open>A cached head is sound when it is the head of a prefix that verifies.\<close>

definition cache_sound :: "hashes \<Rightarrow> audit_log \<Rightarrow> string \<Rightarrow> bool" where
  "cache_sound H log sub =
     (case al_verified log sub of
        None \<Rightarrow> True
      | Some s \<Rightarrow> \<exists>pre e suf. list_audit_events log sub = pre @ e # suf \<and> chain_valid H None (pre @ [e]) \<and>
                   vs_sequence s = ae_sequence e \<and> vs_event_hash s = ae_event_hash e)"

lemma appended_event:
  assumes "log_ok log"
  obtains e where "ae_prev_hash e = head_hash (list_audit_events log sub)"
    "ae_event_hash e = event_hash H (event_body e (ae_prev_hash e))"
    "list_audit_events (append_audit_event H i now sub ty pl ac se tu re log) sub = list_audit_events log sub @ [e]"
    "\<And>s. s \<noteq> sub \<Longrightarrow>
       list_audit_events (append_audit_event H i now sub ty pl ac se tu re log) s = list_audit_events log s"
proof -
  define prev where "prev = head_hash (list_audit_events log sub)"
  define e0 where "e0 = \<lparr>ae_sequence = al_next_sequence log, ae_event_id = i, ae_subject_id = sub,
                ae_event_type = ty, ae_created_at = now, ae_actor = ac,
                ae_session_id = se, ae_turn_id = tu, ae_record_id = re, ae_payload = pl,
                ae_prev_hash = prev, ae_event_hash = []\<rparr>"
  define e where "e = e0\<lparr>ae_event_hash := event_hash H (event_body e0 prev)\<rparr>"
  have "al_events (append_audit_event H i now sub ty pl ac se tu re log) = al_events log @ [e]"
    by (simp add: append_audit_event_def Let_def e_def e0_def prev_def)
  moreover have "event_body e prev = event_body e0 prev" by (simp add: event_body_def e_def)
  ultimately show thesis
    using list_audit_events_append [OF assms] by (intro that [of e]) (simp_all add: e_def e0_def prev_def)
qed

lemma append_verifies:
  assumes "log_ok log" and "verify_audit_chain H log s"
  shows "verify_audit_chain H (append_audit_event H i now sub ty pl ac se tu re log) s"
proof (cases "s = sub")
  case True
  obtain e where e: "ae_prev_hash e = head_hash (list_audit_events log sub)"
    "ae_event_hash e = event_hash H (event_body e (ae_prev_hash e))"
    "list_audit_events (append_audit_event H i now sub ty pl ac se tu re log) sub = list_audit_events log sub @ [e]"
    using assms(1) by (rule appended_event)
  then show ?thesis using assms(2) True by (auto simp: verify_audit_chain_iff chain_valid_append)
next
  case False
  then show ?thesis
    using assms by (auto simp: verify_audit_chain_iff elim!: appended_event [of log sub H i now ty pl ac se tu re])
qed

lemma append_cache_sound:
  assumes "log_ok log" and "cache_sound H log s"
  shows "cache_sound H (append_audit_event H i now sub ty pl ac se tu re log) s"
proof -
  have v: "al_verified (append_audit_event H i now sub ty pl ac se tu re log) = al_verified log"
    by (simp add: append_audit_event_def Let_def)
  obtain suf where "list_audit_events (append_audit_event H i now sub ty pl ac se tu re log) s =
      list_audit_events log s @ suf" using list_audit_events_append [OF assms(1)] by blast
  then show ?thesis using assms(2) unfolding cache_sound_def v
    by (auto split: option.splits) (metis append.assoc append_Cons)
qed

lemma events_sorted:
  assumes "log_ok log"
  shows "sorted_wrt (<) (map ae_sequence (list_audit_events log sub))"
  unfolding list_audit_events_filter [OF assms]
  using assms by (auto simp: log_ok_def sorted_wrt_map intro: sorted_wrt_filter)

lemma suffix_after:
  assumes "sorted_wrt (<) (map ae_sequence (pre @ e # suf))"
  shows "filter (\<lambda>x. ae_sequence e < ae_sequence x) (pre @ e # suf) = suf"
proof -
  have "filter (\<lambda>x. ae_sequence e < ae_sequence x) pre = []" "filter (\<lambda>x. ae_sequence e < ae_sequence x) suf = suf"
    using assms by (auto simp: filter_empty_conv filter_id_conv sorted_wrt_append)
  then show ?thesis by simp
qed

lemma find_lookup: "lookup_by key k xs = Some x \<Longrightarrow> P x \<Longrightarrow> find (\<lambda>y. P y \<and> key y = k) xs = Some x"
  by (induction xs) (auto split: if_splits)

lemma event_at_sequence_eq:
  assumes "log_ok log" and "e \<in> set (list_audit_events log sub)"
  shows "event_at_sequence log sub (ae_sequence e) = Some e"
proof -
  have e: "e \<in> set (al_events log)" "ae_subject_id e = sub"
    using assms by (auto simp: list_audit_events_filter)
  have "distinct (map ae_sequence (al_events log))"
    using assms(1) by (auto simp: log_ok_def strict_sorted_iff)
  then have "lookup_by ae_sequence (ae_sequence e) (al_events log) = Some e"
    using e(1) by (simp add: lookup_by_Some_distinct)
  then show ?thesis unfolding event_at_sequence_def by (rule find_lookup) (rule e(2))
qed


lemma last_sequence_Cons [simp]: "last_sequence n (xs @ [e]) = ae_sequence e" "last_sequence n [] = n"
  by (simp_all add: last_sequence_def)

lemma verify_suffix_result:
  "vr_valid (snd (verify_suffix H now start prev log sub)) \<longleftrightarrow>
     chain_valid H prev (filter (\<lambda>e. start < ae_sequence e) (list_audit_events log sub))"
  by (auto simp: verify_suffix_def Let_def chain_valid_def split: sum.splits)

text \<open>A successful run caches the last event, or leaves the cache alone when nothing was read.\<close>

lemma verify_suffix_log:
  assumes "log' = fst (verify_suffix H now start prev log sub)"
    and rows: "rows = filter (\<lambda>e. start < ae_sequence e) (list_audit_events log sub)"
  shows "al_events log' = al_events log" "al_next_sequence log' = al_next_sequence log"
    "s \<noteq> sub \<Longrightarrow> al_verified log' s = al_verified log s"
    "al_verified log' sub = al_verified log sub \<or>
     chain_valid H prev rows \<and> (\<exists>t. al_verified log' sub =
       Some \<lparr>vs_sequence = last_sequence start rows, vs_event_hash = py_str (if rows = [] then prev else head_hash rows),
             vs_verified_at = t\<rparr>)"
  using assms
  by (auto simp: verify_suffix_def Let_def chain_valid_def dest: check_events_Inr split: sum.splits)

lemma list_audit_events_cong: "al_events log' = al_events log \<Longrightarrow> list_audit_events log' sub = list_audit_events log sub"
  by (simp add: list_audit_events_def)

lemma cache_sound_cong:
  "al_events log' = al_events log \<Longrightarrow> al_verified log' s = al_verified log s \<Longrightarrow>
     cache_sound H log' s \<longleftrightarrow> cache_sound H log s"
  by (simp add: cache_sound_def list_audit_events_def cong: option.case_cong)

lemma cached_last_sound:
  assumes "list_audit_events log sub = xs @ [e]" and "chain_valid H None (xs @ [e])"
    and "al_verified log sub = Some \<lparr>vs_sequence = ae_sequence e, vs_event_hash = ae_event_hash e, vs_verified_at = t\<rparr>"
  shows "cache_sound H log sub"
  using assms by (auto simp: cache_sound_def)

lemma verify_suffix_sound:
  assumes split: "list_audit_events log sub = pre @ rows"
    and rows: "rows = filter (\<lambda>e. start < ae_sequence e) (list_audit_events log sub)"
    and pre: "chain_valid H None pre" and prev: "prev = head_hash pre"
    and start: "start = last_sequence 0 pre"
    and cache: "cache_sound H log sub"
  shows "cache_sound H (fst (verify_suffix H now start prev log sub)) sub"
proof -
  define log' where "log' = fst (verify_suffix H now start prev log sub)"
  note L = verify_suffix_log [OF log'_def rows]
  have ev: "list_audit_events log' sub = pre @ rows" using split L(1) by (metis list_audit_events_cong)
  show ?thesis unfolding log'_def [symmetric]
  proof (cases "al_verified log' sub = al_verified log sub")
    case True
    then show "cache_sound H log' sub" using cache L(1) cache_sound_cong by metis
  next
    case False
    then obtain t where c: "chain_valid H prev rows" "al_verified log' sub =
       Some \<lparr>vs_sequence = last_sequence start rows, vs_event_hash = py_str (if rows = [] then prev else head_hash rows),
             vs_verified_at = t\<rparr>" using L(4) by blast
    have valid: "chain_valid H None (pre @ rows)" using pre prev c(1) by (auto simp: chain_valid_append)
    show "cache_sound H log' sub"
    proof (cases "pre @ rows" rule: rev_cases)
      case Nil
      then have "list_audit_events log sub = []" "start = 0"
        using start split by (simp_all add: last_sequence_def)
      then have "fst (verify_suffix H now start prev log sub) = log"
        by (simp add: verify_suffix_def Let_def last_sequence_def)
      then show ?thesis using False by (simp add: log'_def)
    next
      case (snoc xs e)
      have "last_sequence start rows = ae_sequence e \<and>
          py_str (if rows = [] then prev else head_hash rows) = ae_event_hash e"
        using snoc start prev by (cases rows rule: rev_cases) auto
      then show ?thesis using cached_last_sound [of log' sub xs e H t] ev valid c(2) snoc by simp
    qed
  qed
qed

lemma sequences_positive:
  "log_ok log \<Longrightarrow> filter (\<lambda>e. 0 < ae_sequence e) (list_audit_events log sub) = list_audit_events log sub"
  by (auto simp: list_audit_events_filter log_ok_def intro: filter_cong)

lemma incremental_cases:
  assumes ok: "log_ok log" and cache: "cache_sound H log sub"
  obtains pre rows start where
    "list_audit_events log sub = pre @ rows" "chain_valid H None pre" "start = last_sequence 0 pre"
    "rows = filter (\<lambda>e. start < ae_sequence e) (list_audit_events log sub)"
    "verify_audit_chain_incremental H now False log sub = verify_suffix H now start (head_hash pre) log sub"
proof (cases "al_verified log sub")
  case None
  show thesis
    by (rule that [of "[]" "list_audit_events log sub" 0])
       (simp_all add: sequences_positive [OF ok] last_sequence_def verify_audit_chain_incremental_def None)
next
  case (Some s)
  with cache obtain pre e suf where c: "list_audit_events log sub = pre @ e # suf"
    "chain_valid H None (pre @ [e])" "vs_sequence s = ae_sequence e" "vs_event_hash s = ae_event_hash e"
    by (auto simp: cache_sound_def)
  have "event_at_sequence log sub (ae_sequence e) = Some e"
    using ok c(1) by (intro event_at_sequence_eq) simp_all
  moreover have "event_hash H (event_body e (ae_prev_hash e)) = ae_event_hash e"
    using c(2) by (simp add: chain_valid_append)
  ultimately have "anchor_intact H (event_at_sequence log sub (vs_sequence s)) s"
    using c by (simp add: anchor_intact_def)
  then have "verify_audit_chain_incremental H now False log sub =
      verify_suffix H now (ae_sequence e) (head_hash (pre @ [e])) log sub"
    using Some c by (simp add: verify_audit_chain_incremental_def)
  moreover have "suf = filter (\<lambda>x. ae_sequence e < ae_sequence x) (list_audit_events log sub)"
    using suffix_after events_sorted [OF ok] c(1) by metis
  ultimately show thesis
    using c by (intro that [of "pre @ [e]" suf "ae_sequence e"]) simp_all
qed


section \<open>The log as a transition system\<close>

inductive audit_step :: "hashes \<Rightarrow> audit_log \<Rightarrow> audit_log \<Rightarrow> bool" for H where
  append: "audit_step H log (append_audit_event H i now sub ty pl ac se tu re log)"
| verify: "audit_step H log (fst (verify_audit_chain_incremental H now reset log sub))"

definition audit_inv :: "hashes \<Rightarrow> audit_log \<Rightarrow> bool" where
  "audit_inv H log \<longleftrightarrow> log_ok log \<and> (\<forall>s. verify_audit_chain H log s) \<and> (\<forall>s. cache_sound H log s)"

lemma incremental_agrees:
  assumes "log_ok log" and "cache_sound H log sub"
  shows "vr_valid (snd (verify_audit_chain_incremental H now False log sub)) \<longleftrightarrow> verify_audit_chain H log sub"
  using assms
proof (rule incremental_cases [where now = now])
  fix pre rows start
  assume split: "list_audit_events log sub = pre @ rows" and pre: "chain_valid H None pre"
    and rows: "rows = filter (\<lambda>e. start < ae_sequence e) (list_audit_events log sub)"
    and run: "verify_audit_chain_incremental H now False log sub = verify_suffix H now start (head_hash pre) log sub"
  have "verify_audit_chain H log sub \<longleftrightarrow> chain_valid H (head_hash pre) rows"
    unfolding verify_audit_chain_iff split using pre by (auto simp: chain_valid_append)
  then show ?thesis unfolding run verify_suffix_result rows [symmetric] by simp
qed

lemma incremental_keeps_cache:
  assumes "log_ok log" and "cache_sound H log sub"
  shows "cache_sound H (fst (verify_audit_chain_incremental H now False log sub)) sub"
  using assms
proof (rule incremental_cases [where now = now])
  fix pre rows start
  assume split: "list_audit_events log sub = pre @ rows" "chain_valid H None pre" "start = last_sequence 0 pre"
    "rows = filter (\<lambda>e. start < ae_sequence e) (list_audit_events log sub)"
    "verify_audit_chain_incremental H now False log sub = verify_suffix H now start (head_hash pre) log sub"
  then show ?thesis using verify_suffix_sound [OF split(1,4,2) refl split(3) assms(2)] by simp
qed

text \<open>A reset forgets the cached head and verifies from the start.\<close>

lemma incremental_reset:
  "verify_audit_chain_incremental H now True log sub =
   verify_audit_chain_incremental H now False (log\<lparr>al_verified := (al_verified log)(sub := None)\<rparr>) sub"
  by (simp add: verify_audit_chain_incremental_def)

lemma incremental_frame:
  assumes "log' = fst (verify_audit_chain_incremental H now reset log sub)"
  shows "al_events log' = al_events log" "al_next_sequence log' = al_next_sequence log"
    "s \<noteq> sub \<Longrightarrow> al_verified log' s = al_verified log s"
  using assms verify_suffix_log [OF refl refl]
  by (auto simp: verify_audit_chain_incremental_def Let_def split: option.splits if_splits)

lemma audit_inv_verify:
  assumes "audit_inv H log"
  shows "audit_inv H (fst (verify_audit_chain_incremental H now reset log sub))"
proof -
  define log' where "log' = fst (verify_audit_chain_incremental H now reset log sub)"
  note F = incremental_frame [OF log'_def]
  let ?base = "if reset then log\<lparr>al_verified := (al_verified log)(sub := None)\<rparr> else log"
  have base: "log_ok ?base" "cache_sound H ?base sub"
    using assms by (auto simp: audit_inv_def log_ok_def cache_sound_def)
  have "log' = fst (verify_audit_chain_incremental H now False ?base sub)"
    by (simp add: log'_def incremental_reset)
  then have "cache_sound H log' sub" using incremental_keeps_cache [OF base] by simp
  then have "cache_sound H log' s" for s
  proof (cases "s = sub")
    case False
    then show ?thesis
      using assms cache_sound_cong [OF F(1) F(3) [OF False]] by (simp add: audit_inv_def)
  qed simp
  moreover have "log_ok log'" using assms F(1,2) by (simp add: audit_inv_def log_ok_def)
  moreover have "verify_audit_chain H log' s" for s
    using assms F(1) by (simp add: audit_inv_def verify_audit_chain_def list_audit_events_def)
  ultimately show ?thesis unfolding log'_def [symmetric] by (simp add: audit_inv_def)
qed

interpretation audit: invariant_system "\<lambda>log. log = empty_log" "audit_step H" "audit_inv H" for H
proof
  show "audit_inv H s" if "s = empty_log" for s
    using that empty_log_ok
    by (simp add: audit_inv_def verify_audit_chain_iff cache_sound_def list_audit_events_def empty_log_def)
  show "audit_inv H t" if "audit_inv H s" "audit_step H s t" for s t
    using that(2,1)
  proof cases
    case append
    then show ?thesis
      using that(1) log_ok_append append_verifies append_cache_sound by (simp add: audit_inv_def)
  next
    case verify
    then show ?thesis using that(1) audit_inv_verify by simp
  qed
qed

section \<open>Properties of the audit log\<close>

definition ex_audit_hashes :: hashes where
  "ex_audit_hashes = \<lparr>sha_json = (\<lambda>j. ''h''), sha_decision = (\<lambda>s n. s)\<rparr>"

text \<open>
  [C10] Whatever sequence of appends and incremental verifications runs from an empty log, the chain of
  every subject verifies, and the incremental check, with or without a reset, gives the same verdict as
  the full one.
\<close>

theorem audit_chain_always_verifies:
  assumes "(audit_step H)\<^sup>*\<^sup>* empty_log log"
  shows "verify_audit_chain H log sub \<and>
         vr_valid (snd (verify_audit_chain_incremental H now reset log sub)) = verify_audit_chain H log sub"
proof -
  have inv: "audit_inv H log" using audit.inv_reachable [OF refl assms] .
  let ?base = "if reset then log\<lparr>al_verified := (al_verified log)(sub := None)\<rparr> else log"
  have base: "log_ok ?base" "cache_sound H ?base sub" "verify_audit_chain H ?base sub = verify_audit_chain H log sub"
    using inv by (auto simp: audit_inv_def log_ok_def cache_sound_def verify_audit_chain_def list_audit_events_def)
  have "vr_valid (snd (verify_audit_chain_incremental H now reset log sub)) = verify_audit_chain H log sub"
    using incremental_agrees [OF base(1,2), of now] base(3) by (cases reset) (simp_all add: incremental_reset)
  then show ?thesis using inv by (simp add: audit_inv_def)
qed


theorem audit_chain_always_verifies_witness:
  "\<exists>log. log = append_audit_event ex_audit_hashes ''e1'' 3 ''alice'' ''t'' (JObj []) ''op'' None None None empty_log \<and>
     verify_audit_chain ex_audit_hashes log ''alice''"
proof -
  have "(audit_step ex_audit_hashes)\<^sup>*\<^sup>* empty_log
      (append_audit_event ex_audit_hashes ''e1'' 3 ''alice'' ''t'' (JObj []) ''op'' None None None empty_log)"
    by (intro r_into_rtranclp append)
  from audit_chain_always_verifies [OF this] show ?thesis by blast
qed

text \<open>What an event says: all its fields but the position, with the payload in canonical form.\<close>

definition event_content :: "audit_event \<Rightarrow> audit_event" where
  "event_content e = e\<lparr>ae_sequence := 0, ae_payload := canonical (ae_payload e)\<rparr>"

definition hashed_body :: "audit_event \<Rightarrow> json" where
  "hashed_body e = canonical (event_body e (ae_prev_hash e))"

lemma canonical_opt_str: "canonical (opt_json JStr x) = canonical (opt_json JStr y) \<longleftrightarrow> x = y"
  by (cases x; cases y) (simp_all add: opt_json_def)

lemma hashed_body_inject:
  assumes "hashed_body a = hashed_body b" and "ae_event_hash a = ae_event_hash b"
  shows "event_content a = event_content b"
  using assms
  by (cases a; cases b) (simp add: hashed_body_def event_body_def event_content_def canonical_opt_str)

lemma chain_last:
  assumes "chain_valid H None (xs @ [e])"
  shows "chain_valid H None xs" "ae_prev_hash e = head_hash xs" "ae_event_hash e = sha_json H (hashed_body e)"
  using assms by (auto simp: chain_valid_append event_hash_def hashed_body_def split: if_splits)

text \<open>
  Tamper evidence: two valid chains with the same head hash say the same, event by event, unless the hash
  collides on one of their event bodies.  The first event names no event before it, so the lengths agree too.
\<close>

lemma head_hash_None: "head_hash xs = None \<longleftrightarrow> xs = []"
  by (cases xs rule: rev_cases) simp_all

lemma audit_chain_tamper_evident:
  assumes "chain_valid H None xs" and "chain_valid H None ys" and "head_hash xs = head_hash ys"
    and "inj_on (sha_json H) (hashed_body ` (set xs \<union> set ys))"
  shows "map event_content xs = map event_content ys"
  using assms
proof (induction xs arbitrary: ys rule: rev_induct)
  case Nil
  then show ?case using head_hash_None [of ys] by simp
next
  case (snoc e xs)
  from snoc.prems(3) obtain f zs where ys: "ys = zs @ [f]" by (cases ys rule: rev_cases) auto
  note E = chain_last [OF snoc.prems(1)] and F = chain_last [OF snoc.prems(2) [unfolded ys]]
  have hash: "ae_event_hash e = ae_event_hash f" using snoc.prems(3) ys by simp
  have "sha_json H (hashed_body e) = sha_json H (hashed_body f)" using hash E(3) F(3) by argo
  then have body: "hashed_body e = hashed_body f"
    by (rule inj_onD [OF snoc.prems(4)]) (simp_all add: ys)
  then have content: "event_content e = event_content f" using hash by (rule hashed_body_inject)
  then have "ae_prev_hash e = ae_prev_hash f" by (cases e; cases f) (simp add: event_content_def)
  then have "map event_content xs = map event_content zs"
    using snoc.prems(4) E(1,2) F(1,2) ys by (intro snoc.IH) (auto intro: inj_on_subset)
  then show ?case using content ys by simp
qed

definition ex_event :: audit_event where
  "ex_event =
     \<lparr>ae_sequence = 1, ae_event_id = ''e1'', ae_subject_id = ''alice'', ae_event_type = ''t'', ae_created_at = 3,
      ae_actor = ''op'', ae_session_id = None, ae_turn_id = None, ae_record_id = None, ae_payload = JObj [],
      ae_prev_hash = None, ae_event_hash = ''h''\<rparr>"

end
