(* ===== verification/Trusted_Time.thy ===== *)
theory Trusted_Time
  imports Task_Prelude
begin

text \<open>
  Elapsed time (\<^verbatim>\<open>elapsed_ms\<close> of \<^verbatim>\<open>src/atmem/core/time.py\<close>).  Instants are microseconds of UTC, the
  resolution of \<^verbatim>\<open>datetime\<close>.  \<^verbatim>\<open>total_seconds()\<close> divides the microseconds by a million and the result is
  multiplied by a thousand, both in IEEE double precision: a significand of 53 bits, rounding half to
  even.  The operands are below \<open>2 ^ 53\<close> seconds, so no overflow and no subnormal number occurs, and a
  double is an integer significand over a power of two.
\<close>

definition round_half_even :: "nat \<Rightarrow> nat \<Rightarrow> nat" where
  "round_half_even n d =
     (let q = n div d; r = n mod d in
      if 2 * r < d \<or> (2 * r = d \<and> even q) then q else q + 1)"

text \<open>How often to double \<open>n\<close> until the quotient by \<open>d\<close> has 53 bits.\<close>

function scale :: "nat \<Rightarrow> nat \<Rightarrow> nat" where
  "scale n d = (if n = 0 \<or> d * 2 ^ 52 \<le> n then 0 else Suc (scale (2 * n) d))"
  by auto
termination
  by (relation "measure (\<lambda>(n, d). d * 2 ^ 52 - n)") auto

declare scale.simps [simp del]

text \<open>\<^verbatim>\<open>int(delta.total_seconds() * 1000)\<close> for a positive number of microseconds.\<close>

definition float_ms :: "nat \<Rightarrow> nat" where
  "float_ms us =
     (let s = scale us 1000000;
          m = round_half_even (us * 2 ^ s) 1000000;
          p = 1000 * m;
          t = (if p < 2 ^ 62 then 9 else 10);
          m' = round_half_even p (2 ^ t)
      in (m' * 2 ^ t) div 2 ^ s)"

definition elapsed_ms :: "int \<Rightarrow> int \<Rightarrow> int" where
  "elapsed_ms start end_at =
     (if end_at \<le> start then 0 else int (float_ms (nat (end_at - start))))"

section \<open>Rounding errors\<close>

lemma round_half_even_bounds:
  assumes "0 < d"
  shows "2 * (round_half_even n d * d) \<le> 2 * n + d" "2 * n \<le> 2 * (round_half_even n d * d) + d"
proof -
  define P where "P = n div d * d"
  have n: "n = P + n mod d" by (simp add: P_def)
  have r: "n mod d < d" using assms by simp
  consider "2 * (n mod d) \<le> d" "round_half_even n d * d = P"
    | "d \<le> 2 * (n mod d)" "round_half_even n d * d = P + d"
    unfolding round_half_even_def Let_def P_def by (cases "2 * (n mod d) < d"; cases "2 * (n mod d) = d \<and> even (n div d)") auto
  then show "2 * (round_half_even n d * d) \<le> 2 * n + d" "2 * n \<le> 2 * (round_half_even n d * d) + d"
    by (cases; use n r in linarith)+
qed

lemma scale_lower: "0 < n \<Longrightarrow> d * 2 ^ 52 \<le> n * 2 ^ scale n d"
proof (induction n d rule: scale.induct)
  case (1 n d)
  show ?case
  proof (cases "d * 2 ^ 52 \<le> n")
    case True
    then show ?thesis by (simp add: scale.simps)
  next
    case False
    then have "scale n d = Suc (scale (2 * n) d)" using 1(2) by (subst scale.simps) simp
    then show ?thesis using 1(1) [OF _ ] 1(2) False by (simp add: algebra_simps)
  qed
qed

lemma scale_eq:
  "0 < n \<Longrightarrow> d * 2 ^ 52 \<le> n * 2 ^ s \<Longrightarrow> s = 0 \<or> n * 2 ^ (s - 1) < d * 2 ^ 52 \<Longrightarrow> scale n d = s"
proof (induction s arbitrary: n)
  case 0
  then show ?case by (subst scale.simps) simp
next
  case (Suc s)
  have less: "n * 2 ^ s < d * 2 ^ 52" using Suc.prems(3) by simp
  have "n * 1 \<le> n * 2 ^ s" by (intro mult_le_mono) simp_all
  then have "\<not> d * 2 ^ 52 \<le> n" using less by linarith
  then have "scale n d = Suc (scale (2 * n) d)" using Suc.prems(1) by (subst scale.simps) simp
  moreover have "scale (2 * n) d = s"
  proof (rule Suc.IH)
    show "s = 0 \<or> 2 * n * 2 ^ (s - 1) < d * 2 ^ 52" using less by (cases s) (simp_all add: ac_simps)
  qed (use Suc.prems in \<open>simp_all add: ac_simps\<close>)
  ultimately show ?case by simp
qed

lemma float_ms_error:
  fixes us :: nat
  assumes "0 < us" and "us < 2 ^ 51"
  obtains R s :: nat where "float_ms us = R div 2 ^ s"
    "1000 * R < (us + 1) * 2 ^ s" "(us - 1) * 2 ^ s < 1000 * R"
proof -
  define s where "s = scale us 1000000"
  define m where "m = round_half_even (us * 2 ^ s) 1000000"
  define t :: nat where "t = (if 1000 * m < 2 ^ 62 then 9 else 10)"
  define R where "R = round_half_even (1000 * m) (2 ^ t) * 2 ^ t"
  have eq: "float_ms us = R div 2 ^ s"
    by (simp add: float_ms_def Let_def s_def m_def t_def R_def)
  have "1000000 * 2 ^ 52 \<le> us * 2 ^ s" using scale_lower [OF assms(1), of 1000000] by (simp add: s_def)
  also have "us * 2 ^ s < 2 ^ 51 * 2 ^ s" using assms(2) by simp
  finally have big: "2000000 < (2 :: nat) ^ s" by simp
  have m: "2 * (m * 1000000) \<le> 2 * (us * 2 ^ s) + 1000000" "2 * (us * 2 ^ s) \<le> 2 * (m * 1000000) + 1000000"
    using round_half_even_bounds [of 1000000 "us * 2 ^ s"] by (simp_all add: m_def)
  have "(2 :: nat) ^ t \<le> 1024" by (simp add: t_def)
  then have R: "2 * R \<le> 2 * (1000 * m) + 1024" "2 * (1000 * m) \<le> 2 * R + 1024"
    using round_half_even_bounds [of "2 ^ t" "1000 * m"] by (simp_all add: R_def)
  define Y where "Y = us * 2 ^ s"
  have "us * 2 ^ s = (us - 1) * 2 ^ s + 2 ^ s" using assms(1) by (cases us) simp_all
  then have "(us - 1) * 2 ^ s + 2 ^ s = Y" "(us + 1) * 2 ^ s = Y + 2 ^ s" by (simp_all add: Y_def)
  then have "1000 * R < (us + 1) * 2 ^ s" "(us - 1) * 2 ^ s < 1000 * R"
    using m R big unfolding Y_def [symmetric] by linarith+
  then show thesis by (rule that [OF eq])
qed

section \<open>Elapsed milliseconds are exact up to one\<close>

lemma div_bounds:
  fixes R q k :: nat
  assumes "q * k \<le> R" "R < (q + 1) * k"
  shows "R div k = q"
  using assms by (metis Suc_eq_plus1 div_nat_eqI mult.commute)

lemma float_ms_exact:
  assumes "0 < us" "us < 2 ^ 51" "us mod 1000 \<noteq> 0"
  shows "float_ms us = us div 1000"
proof -
  obtain R s where e: "float_ms us = R div 2 ^ s" "1000 * R < (us + 1) * 2 ^ s" "(us - 1) * 2 ^ s < 1000 * R"
    using assms(1,2) by (rule float_ms_error)
  have us: "us = 1000 * (us div 1000) + us mod 1000" by simp
  have bound: "a + 1 \<le> 1000 * (q + 1)" if "a = 1000 * q + r" "r < 1000" for a q r :: nat
    using that by simp
  have "us + 1 \<le> 1000 * (us div 1000 + 1)" by (rule bound [OF us]) simp
  then have "(us + 1) * 2 ^ s \<le> 1000 * ((us div 1000 + 1) * 2 ^ s)"
    by (metis mult.assoc mult_le_mono1)
  moreover have "1000 * (us div 1000) \<le> us - 1" using us assms(3) by linarith
  then have "1000 * (us div 1000 * 2 ^ s) \<le> (us - 1) * 2 ^ s"
    by (metis mult.assoc mult_le_mono1)
  ultimately have "us div 1000 * 2 ^ s \<le> R" "R < (us div 1000 + 1) * 2 ^ s" using e(2,3) by linarith+
  then show ?thesis using div_bounds e(1) by simp
qed

lemma float_ms_whole:
  assumes "0 < q" "1000 * q < 2 ^ 51"
  shows "float_ms (1000 * q) = q \<or> float_ms (1000 * q) = q - 1"
proof -
  obtain R s where e: "float_ms (1000 * q) = R div 2 ^ s" "1000 * R < (1000 * q + 1) * 2 ^ s"
    "(1000 * q - 1) * 2 ^ s < 1000 * R"
    using assms float_ms_error [of "1000 * q"] by auto
  have "(1000 * q + 1) * 2 ^ s \<le> 1000 * ((q + 1) * 2 ^ s)" by simp
  then have up: "R < (q + 1) * 2 ^ s" using e(2) by linarith
  have "1000 * ((q - 1) * 2 ^ s) \<le> (1000 * q - 1) * 2 ^ s"
    using assms(1) by (cases q) simp_all
  then have lo: "(q - 1) * 2 ^ s \<le> R" using e(3) by linarith
  show ?thesis
  proof (cases "q * 2 ^ s \<le> R")
    case True
    then show ?thesis using div_bounds up e(1) by simp
  next
    case False
    then show ?thesis using div_bounds [of "q - 1" "2 ^ s" R] lo assms(1) e(1) by simp
  qed
qed

text \<open>
  For spans below \<open>2 ^ 51\<close> microseconds (71 years) the elapsed milliseconds are never above the
  true count of whole milliseconds and at most one below it, exactly the true count when the span is not
  a whole number of milliseconds, and zero when the end is not after the start.
\<close>

theorem elapsed_ms_bounds:
  assumes "end_at - start < 2 ^ 51"
  shows "elapsed_ms start end_at \<le> max 0 ((end_at - start) div 1000) \<and>
    max 0 ((end_at - start) div 1000) - 1 \<le> elapsed_ms start end_at \<and>
    ((end_at - start) mod 1000 \<noteq> 0 \<longrightarrow> elapsed_ms start end_at = max 0 ((end_at - start) div 1000)) \<and>
    (end_at \<le> start \<longrightarrow> elapsed_ms start end_at = 0)"
proof (cases "end_at \<le> start")
  case True
  have "(end_at - start) div 1000 \<le> 0" using True by (intro div_nonpos_pos_le0) simp_all
  then show ?thesis using True by (simp add: elapsed_ms_def)
next
  case False
  define us where "us = nat (end_at - start)"
  have us: "0 < us" "us < 2 ^ 51" "end_at - start = int us"
    using False assms by (simp_all add: us_def nat_less_iff)
  have el: "elapsed_ms start end_at = int (float_ms us)" using False by (simp add: elapsed_ms_def us_def)
  have div: "(end_at - start) div 1000 = int (us div 1000)" "(end_at - start) mod 1000 = int (us mod 1000)"
    by (simp_all add: us(3) zdiv_int zmod_int)
  show ?thesis
  proof (cases "us mod 1000 = 0")
    case True
    then have "us = 1000 * (us div 1000)" by auto
    then have "float_ms us = us div 1000 \<or> float_ms us = us div 1000 - 1"
      using float_ms_whole [of "us div 1000"] us by auto
    then show ?thesis using el div True False by auto
  next
    case ne: False
    then show ?thesis using el div False float_ms_exact [OF us(1,2) ne] by simp
  qed
qed

theorem elapsed_ms_bounds_witness:
  "(1700000000001500 :: int) - 1700000000000000 < 2 ^ 51 \<and> elapsed_ms 1700000000000000 1700000000001500 = 1"
  using elapsed_ms_bounds [of 1700000000001500 1700000000000000] by simp

text \<open>
  A span of exactly 1.001 seconds is reported as 1000 milliseconds: the double nearest to 1.001 is
  below it and the product is truncated.
\<close>

theorem elapsed_ms_loses_one: "elapsed_ms 0 1001000 = 1000"
proof -
  have s: "scale 1001000 1000000 = 52" by (rule scale_eq) simp_all
  have m: "round_half_even (1001000 * 2 ^ 52) 1000000 = 4508103226997866" by (simp add: round_half_even_def)
  have m': "round_half_even 4508103226997866000 (2 ^ 9) = 8804889115230207" by (simp add: round_half_even_def)
  have "float_ms 1001000 = 1000" unfolding float_ms_def s m Let_def using m' by simp
  then show ?thesis by (simp add: elapsed_ms_def)
qed

end
