(* ===== verification/Task_Store.thy ===== *)
theory Task_Store
  imports Task_Governance Audit_Log Trusted_Time "HOL-Library.Product_Lexorder"
begin

text \<open>
  The task tables of the SQLite store (\<^verbatim>\<open>src/atmem/store/sqlite.py\<close>): one record per row, one list per
  table in insertion order, and one operation per store method.  The constraints of the schema are
  checked by the inserts: primary keys, unique indexes (one successor per parent revision, one
  idempotency key per task, one active binding per conversation), \<^verbatim>\<open>CHECK\<close>s and foreign keys, whose
  violation is \<open>IntegrityError\<close>.  A transaction runs its body on a copy and keeps the copy only when no
  exception escapes.  Row identifiers of \<^verbatim>\<open>_new_id\<close> come from a counter in place of \<^verbatim>\<open>uuid4\<close>.  JSON
  columns hold the value whose canonical text is stored.
\<close>

section \<open>Rows\<close>

record task_row =
  tr_task_id :: string
  tr_scope :: authority_scope
  tr_profile_id :: string
  tr_profile_version :: string
  tr_goal :: string
  tr_lifecycle :: task_lifecycle
  tr_head_revision :: int
  tr_policy_generation :: int
  tr_created_at :: timestamp
  tr_updated_at :: timestamp
  tr_last_progress_at :: timestamp
  tr_paused_at :: "timestamp option"
  tr_no_progress_paused_ms :: int
  tr_expiry_rule :: expiry_policy
  tr_clock_source :: string
  tr_terminal_reason :: "string option"
  tr_continues_task_id :: "string option"
  tr_idempotency_key :: string

record revision_row =
  rr_task_id :: string
  rr_revision :: int
  rr_parent_revision :: "int option"
  rr_state :: json
  rr_state_sha256 :: string
  rr_semantic_sha256 :: string
  rr_actor :: string
  rr_actor_role :: actor_role
  rr_reason_codes :: "string list"
  rr_evidence :: "json list"
  rr_created_at :: timestamp
  rr_is_progress :: bool

record provenance_row =
  pv_provenance_id :: string
  pv_task_id :: string
  pv_revision :: int
  pv_target_kind :: string
  pv_target_id :: string
  pv_actor :: string
  pv_actor_role :: actor_role
  pv_method :: string
  pv_assurance :: assurance
  pv_interpreter :: "string option"
  pv_evidence :: "json list"
  pv_observed_at :: timestamp
  pv_superseded_revision :: "int option"

record proposal_row =
  pp_proposal_id :: string
  pp_task_id :: string
  pp_scope :: authority_scope
  pp_idempotency_key :: string
  pp_payload_sha256 :: string
  pp_base_revision :: int
  pp_actor :: string
  pp_actor_role :: actor_role
  pp_proposal :: json
  pp_decision :: json
  pp_outcome :: step_outcome
  pp_resulting_revision :: "int option"
  pp_created_at :: timestamp

record step_row =
  sp_step_id :: string
  sp_task_id :: string
  sp_step_kind :: string
  sp_outcome :: step_outcome
  sp_proposal_id :: "string option"
  sp_base_revision :: int
  sp_resulting_revision :: "int option"
  sp_reason_codes :: "string list"
  sp_action_fingerprint :: "string option"
  sp_actor :: string
  sp_duration_ms :: int
  sp_recorded_at :: timestamp
  sp_sequence :: nat

record delivery_row =
  dl_delivery_id :: string
  dl_task_id :: string
  dl_revision :: int
  dl_scope :: authority_scope
  dl_disposition :: context_disposition
  dl_reason_codes :: "string list"
  dl_context_sha256 :: "string option"
  dl_cache_key :: "string option"
  dl_preparation_id :: "string option"
  dl_exposed :: bool
  dl_prepared_at :: timestamp
  dl_sequence :: nat

record profile_row =
  pl_version :: string
  pl_profile_id :: string
  pl_digest :: string
  pl_profile :: json
  pl_actor :: string
  pl_registered_at :: timestamp

record store =
  st_tasks :: "task_row list"
  st_revisions :: "revision_row list"
  st_provenance :: "provenance_row list"
  st_proposals :: "proposal_row list"
  st_steps :: "step_row list"
  st_deliveries :: "delivery_row list"
  st_bindings :: "session_binding list"
  st_profiles :: "profile_row list"
  st_audit :: audit_log
  st_next_id :: nat

definition empty_store :: store where
  "empty_store =
     \<lparr>st_tasks = [], st_revisions = [], st_provenance = [], st_proposals = [], st_steps = [],
      st_deliveries = [], st_bindings = [], st_profiles = [], st_audit = empty_log, st_next_id = 0\<rparr>"

type_synonym 'a outcome = "store \<times> (task_error + 'a)"

section \<open>Transactions and helpers\<close>

definition transaction :: "(store \<Rightarrow> task_error + store \<times> 'a) \<Rightarrow> store \<Rightarrow> 'a outcome" where
  "transaction body st =
     (case body st of
        Inl e \<Rightarrow> (st, Inl e)
      | Inr (st', x) \<Rightarrow> (st', Inr x))"

definition new_id :: "string \<Rightarrow> store \<Rightarrow> string" where
  "new_id pre st = pre @ ''_'' @ show_nat (st_next_id st)"

definition clamp :: "int \<Rightarrow> int \<Rightarrow> nat" where
  "clamp limit upper = nat (max 1 (min limit upper))"

definition has_task :: "store \<Rightarrow> string \<Rightarrow> bool" where
  "has_task st k \<longleftrightarrow> k \<in> tr_task_id ` set (st_tasks st)"

section \<open>Profiles\<close>

definition get_task_profile :: "store \<Rightarrow> string \<Rightarrow> profile_row option" where
  "get_task_profile st v = lookup_by pl_version v (st_profiles st)"

definition insert_task_profile :: "profile_row \<Rightarrow> store \<Rightarrow> task_error + store" where
  "insert_task_profile r st =
     (if get_task_profile st (pl_version r) \<noteq> None then Inl IntegrityError
      else Inr (st\<lparr>st_profiles := st_profiles st @ [r]\<rparr>))"

definition list_task_profiles :: "store \<Rightarrow> profile_row list" where
  "list_task_profiles st = sort_key pl_version (st_profiles st)"

section \<open>Tasks\<close>

definition insert_task :: "task_row \<Rightarrow> store \<Rightarrow> task_error + store" where
  "insert_task r st =
     (if has_task st (tr_task_id r) \<or>
         list_ex (\<lambda>t. tr_scope t = tr_scope r \<and> tr_idempotency_key t = tr_idempotency_key r) (st_tasks st) \<or>
         tr_head_revision r < 1
      then Inl IntegrityError
      else Inr (st\<lparr>st_tasks := st_tasks st @ [r]\<rparr>))"

definition get_task :: "store \<Rightarrow> authority_scope \<Rightarrow> string \<Rightarrow> task_row option" where
  "get_task st sc k = find (\<lambda>r. tr_task_id r = k \<and> tr_scope r = sc) (st_tasks st)"

definition find_task_by_idempotency_key :: "store \<Rightarrow> authority_scope \<Rightarrow> string \<Rightarrow> task_row option" where
  "find_task_by_idempotency_key st sc key =
     find (\<lambda>r. tr_scope r = sc \<and> tr_idempotency_key r = key) (st_tasks st)"

definition age_order :: "task_row \<Rightarrow> timestamp \<times> string" where
  "age_order r = (tr_created_at r, tr_task_id r)"

definition opt_matches :: "string option \<Rightarrow> string \<Rightarrow> bool" where
  "opt_matches want have_value = (case want of None \<Rightarrow> True | Some w \<Rightarrow> w = have_value)"

definition list_tasks ::
  "store \<Rightarrow> string option \<Rightarrow> string option \<Rightarrow> string option \<Rightarrow> task_lifecycle list \<Rightarrow>
   (timestamp \<times> string) option \<Rightarrow> int \<Rightarrow> task_row list" where
  "list_tasks st sub ag ws lifecycles cursor limit =
     take (clamp limit 500)
       (sort_key age_order
         (filter (\<lambda>r. opt_matches sub (sc_subject_id (tr_scope r)) \<and> opt_matches ag (sc_agent_id (tr_scope r)) \<and>
             opt_matches ws (sc_workspace_id (tr_scope r)) \<and>
             (lifecycles = [] \<or> tr_lifecycle r \<in> set lifecycles) \<and>
             (case cursor of None \<Rightarrow> True | Some c \<Rightarrow> c < age_order r)) (st_tasks st)))"

definition tasks_due_for_expiry_scan :: "store \<Rightarrow> int \<Rightarrow> task_row list" where
  "tasks_due_for_expiry_scan st limit =
     take (clamp limit 1000)
       (sort_key age_order (filter (\<lambda>r. tr_lifecycle r \<in> {OPEN, PAUSED}) (st_tasks st)))"

section \<open>Revisions and the head\<close>

definition insert_task_revision :: "revision_row \<Rightarrow> store \<Rightarrow> task_error + store" where
  "insert_task_revision r st =
     (if list_ex (\<lambda>x. rr_task_id x = rr_task_id r \<and> rr_revision x = rr_revision r) (st_revisions st) \<or>
         (rr_parent_revision r \<noteq> None \<and>
          list_ex (\<lambda>x. rr_task_id x = rr_task_id r \<and> rr_parent_revision x = rr_parent_revision r) (st_revisions st)) \<or>
         rr_revision r < 1 \<or> \<not> has_task st (rr_task_id r)
      then Inl IntegrityError
      else Inr (st\<lparr>st_revisions := st_revisions st @ [r]\<rparr>))"

definition task_revisions :: "store \<Rightarrow> string \<Rightarrow> revision_row list" where
  "task_revisions st k = filter (\<lambda>r. rr_task_id r = k) (st_revisions st)"

definition get_task_revision :: "store \<Rightarrow> string \<Rightarrow> int \<Rightarrow> revision_row option" where
  "get_task_revision st k n = find (\<lambda>r. rr_task_id r = k \<and> rr_revision r = n) (st_revisions st)"

definition list_task_revisions :: "store \<Rightarrow> string \<Rightarrow> int \<Rightarrow> revision_row list" where
  "list_task_revisions st k limit = take (clamp limit 1000) (sort_key rr_revision (task_revisions st k))"

record head_change =
  hc_new_head :: int
  hc_updated_at :: timestamp
  hc_last_progress_at :: "timestamp option"
  hc_lifecycle :: "task_lifecycle option"
  hc_terminal_reason :: "string option"
  hc_paused_at :: "timestamp option"
  hc_clear_paused_at :: bool
  hc_add_paused_ms :: int

definition or_keep :: "'a option \<Rightarrow> 'a \<Rightarrow> 'a" where
  "or_keep x d = (case x of None \<Rightarrow> d | Some v \<Rightarrow> v)"

definition change_head :: "head_change \<Rightarrow> task_row \<Rightarrow> task_row" where
  "change_head c r =
     r\<lparr>tr_head_revision := hc_new_head c,
       tr_updated_at := hc_updated_at c,
       tr_last_progress_at := or_keep (hc_last_progress_at c) (tr_last_progress_at r),
       tr_lifecycle := or_keep (hc_lifecycle c) (tr_lifecycle r),
       tr_terminal_reason := (case hc_terminal_reason c of None \<Rightarrow> tr_terminal_reason r | Some s \<Rightarrow> Some s),
       tr_paused_at := (if hc_clear_paused_at c then None
                        else case hc_paused_at c of None \<Rightarrow> tr_paused_at r | Some t \<Rightarrow> Some t),
       tr_no_progress_paused_ms := tr_no_progress_paused_ms r + hc_add_paused_ms c\<rparr>"

text \<open>The guarded \<^verbatim>\<open>UPDATE\<close>: the row moves only when its head is the expected one.\<close>

definition advance_task_head ::
  "string \<Rightarrow> int \<Rightarrow> head_change \<Rightarrow> store \<Rightarrow> task_error + bool \<times> store" where
  "advance_task_head k expected c st =
     (case lookup_by tr_task_id k (st_tasks st) of
        None \<Rightarrow> Inr (False, st)
      | Some r \<Rightarrow>
          if tr_head_revision r \<noteq> expected then Inr (False, st)
          else if hc_new_head c < 1 \<or> tr_no_progress_paused_ms r + hc_add_paused_ms c < 0 then Inl IntegrityError
          else Inr (True, st\<lparr>st_tasks := replace_by tr_task_id k (change_head c) (st_tasks st)\<rparr>))"

section \<open>Provenance, proposals, steps, deliveries\<close>

definition TARGET_KINDS :: "string list" where
  "TARGET_KINDS =
     [''task'', ''field'', ''item'', ''status'', ''constraint'', ''transition'', ''delivery'', ''lifecycle'']"

definition insert_task_provenance :: "provenance_row \<Rightarrow> store \<Rightarrow> task_error + store" where
  "insert_task_provenance r st =
     (if pv_target_kind r \<notin> set TARGET_KINDS \<or> \<not> has_task st (pv_task_id r) then Inl IntegrityError
      else Inr (st\<lparr>st_provenance := st_provenance st @ [r\<lparr>pv_provenance_id := new_id ''prov'' st\<rparr>],
                   st_next_id := st_next_id st + 1\<rparr>))"

definition list_task_provenance :: "store \<Rightarrow> string \<Rightarrow> string option \<Rightarrow> string option \<Rightarrow> provenance_row list" where
  "list_task_provenance st k kind target =
     sort_key (\<lambda>r. (pv_revision r, pv_target_kind r, pv_target_id r))
       (filter (\<lambda>r. pv_task_id r = k \<and> opt_matches kind (pv_target_kind r) \<and> opt_matches target (pv_target_id r))
          (st_provenance st))"

definition find_task_proposal :: "store \<Rightarrow> string \<Rightarrow> string \<Rightarrow> proposal_row option" where
  "find_task_proposal st k key = find (\<lambda>r. pp_task_id r = k \<and> pp_idempotency_key r = key) (st_proposals st)"

definition insert_task_proposal :: "proposal_row \<Rightarrow> store \<Rightarrow> task_error + store" where
  "insert_task_proposal r st =
     (if list_ex (\<lambda>x. pp_proposal_id x = pp_proposal_id r) (st_proposals st) \<or>
         find_task_proposal st (pp_task_id r) (pp_idempotency_key r) \<noteq> None
      then Inl IntegrityError
      else Inr (st\<lparr>st_proposals := st_proposals st @ [r]\<rparr>))"

definition list_task_proposals :: "store \<Rightarrow> string \<Rightarrow> int \<Rightarrow> proposal_row list" where
  "list_task_proposals st k limit =
     take (clamp limit 1000)
       (sort_key (\<lambda>r. (pp_created_at r, pp_proposal_id r)) (filter (\<lambda>r. pp_task_id r = k) (st_proposals st)))"

definition next_step_sequence :: "store \<Rightarrow> string \<Rightarrow> nat" where
  "next_step_sequence st k = fold max (map sp_sequence (filter (\<lambda>r. sp_task_id r = k) (st_steps st))) 0 + 1"

definition insert_task_step :: "step_row \<Rightarrow> store \<Rightarrow> task_error + store" where
  "insert_task_step r st =
     (if \<not> has_task st (sp_task_id r) then Inl IntegrityError
      else Inr (st\<lparr>st_steps := st_steps st @
                     [r\<lparr>sp_step_id := new_id ''step'' st, sp_duration_ms := max 0 (sp_duration_ms r),
                        sp_sequence := next_step_sequence st (sp_task_id r)\<rparr>],
                   st_next_id := st_next_id st + 1\<rparr>))"

definition list_task_steps :: "store \<Rightarrow> string \<Rightarrow> int \<Rightarrow> step_row list" where
  "list_task_steps st k limit =
     take (clamp limit 1000) (sort_key sp_sequence (filter (\<lambda>r. sp_task_id r = k) (st_steps st)))"

definition count_recent_equivalent_actions :: "store \<Rightarrow> string \<Rightarrow> string \<Rightarrow> timestamp \<Rightarrow> nat" where
  "count_recent_equivalent_actions st k fp since =
     length (filter (\<lambda>r. sp_task_id r = k \<and> sp_action_fingerprint r = Some fp \<and> since \<le> sp_recorded_at r)
               (st_steps st))"

definition next_delivery_sequence :: "store \<Rightarrow> string \<Rightarrow> nat" where
  "next_delivery_sequence st k =
     fold max (map dl_sequence (filter (\<lambda>r. dl_task_id r = k) (st_deliveries st))) 0 + 1"

definition insert_task_delivery :: "delivery_row \<Rightarrow> store \<Rightarrow> task_error + store \<times> string" where
  "insert_task_delivery r st =
     (if \<not> has_task st (dl_task_id r) \<or> list_ex (\<lambda>x. dl_delivery_id x = new_id ''del'' st) (st_deliveries st)
      then Inl IntegrityError
      else Inr (st\<lparr>st_deliveries := st_deliveries st @
                     [r\<lparr>dl_delivery_id := new_id ''del'' st, dl_exposed := False,
                        dl_sequence := next_delivery_sequence st (dl_task_id r)\<rparr>],
                   st_next_id := st_next_id st + 1\<rparr>, new_id ''del'' st))"

definition mark_task_delivery_exposed :: "string \<Rightarrow> store \<Rightarrow> store \<times> bool" where
  "mark_task_delivery_exposed k st =
     (st\<lparr>st_deliveries := map (\<lambda>r. if dl_delivery_id r = k \<and> \<not> dl_exposed r then r\<lparr>dl_exposed := True\<rparr> else r)
                            (st_deliveries st)\<rparr>,
      length (filter (\<lambda>r. dl_delivery_id r = k \<and> \<not> dl_exposed r) (st_deliveries st)) = 1)"

definition list_task_deliveries :: "store \<Rightarrow> string \<Rightarrow> int \<Rightarrow> delivery_row list" where
  "list_task_deliveries st k limit =
     take (clamp limit 1000) (sort_key dl_sequence (filter (\<lambda>r. dl_task_id r = k) (st_deliveries st)))"

text \<open>\<^verbatim>\<open>rebuild_task_pause_accounting\<close>: the loop over the revisions, with the open pause as its state.\<close>

definition revision_lifecycle :: "revision_row \<Rightarrow> string" where
  "revision_lifecycle r = (case jget (rr_state r) ''lifecycle'' of Some (JStr s) \<Rightarrow> s | _ \<Rightarrow> [])"

fun pause_loop :: "revision_row list \<Rightarrow> timestamp option \<Rightarrow> int \<Rightarrow> int" where
  "pause_loop [] since acc = acc"
| "pause_loop (r # rs) since acc =
     (if revision_lifecycle r = ''paused'' \<and> since = None then pause_loop rs (Some (rr_created_at r)) acc
      else case since of
          Some t \<Rightarrow> if revision_lifecycle r \<noteq> ''paused''
                    then pause_loop rs None (acc + elapsed_ms t (rr_created_at r))
                    else pause_loop rs since acc
        | None \<Rightarrow> pause_loop rs since acc)"

definition rebuild_task_pause_accounting :: "store \<Rightarrow> string \<Rightarrow> int" where
  "rebuild_task_pause_accounting st k = pause_loop (list_task_revisions st k 1000) None 0"

section \<open>Deleting\<close>

definition drop_task_rows :: "(string \<Rightarrow> bool) \<Rightarrow> store \<Rightarrow> store" where
  "drop_task_rows gone st =
     st\<lparr>st_deliveries := filter (\<lambda>r. \<not> gone (dl_task_id r)) (st_deliveries st),
        st_steps := filter (\<lambda>r. \<not> gone (sp_task_id r)) (st_steps st),
        st_proposals := filter (\<lambda>r. \<not> gone (pp_task_id r)) (st_proposals st),
        st_provenance := filter (\<lambda>r. \<not> gone (pv_task_id r)) (st_provenance st),
        st_bindings := filter (\<lambda>r. \<not> gone (sb_task_id r)) (st_bindings st),
        st_revisions := filter (\<lambda>r. \<not> gone (rr_task_id r)) (st_revisions st)\<rparr>"

definition removed_counts :: "string \<Rightarrow> store \<Rightarrow> (string \<times> nat) list" where
  "removed_counts k st =
     [(''governed_task_deliveries'', length (filter (\<lambda>r. dl_task_id r = k) (st_deliveries st))),
      (''governed_task_steps'', length (filter (\<lambda>r. sp_task_id r = k) (st_steps st))),
      (''governed_task_proposals'', length (filter (\<lambda>r. pp_task_id r = k) (st_proposals st))),
      (''governed_task_provenance'', length (filter (\<lambda>r. pv_task_id r = k) (st_provenance st))),
      (''governed_task_session_bindings'', length (filter (\<lambda>r. sb_task_id r = k) (st_bindings st))),
      (''governed_task_revisions'', length (filter (\<lambda>r. rr_task_id r = k) (st_revisions st))),
      (''governed_tasks'', length (filter (\<lambda>r. tr_task_id r = k) (st_tasks st)))]"

definition delete_task ::
  "authority_scope \<Rightarrow> string \<Rightarrow> store \<Rightarrow> store \<times> bool \<times> (string \<times> nat) list" where
  "delete_task sc k st =
     (case get_task st sc k of
        None \<Rightarrow> (st, False, [])
      | Some _ \<Rightarrow>
          (let st' = drop_task_rows (\<lambda>j. j = k) st
           in (st'\<lparr>st_tasks := filter (\<lambda>r. tr_task_id r \<noteq> k) (st_tasks st')\<rparr>, True, removed_counts k st)))"

definition delete_subject_tasks :: "string \<Rightarrow> store \<Rightarrow> store \<times> string list" where
  "delete_subject_tasks sub st =
     (let rows = filter (\<lambda>r. sc_subject_id (tr_scope r) = sub) (st_tasks st)
      in (fold (\<lambda>r s. fst (delete_task (tr_scope r) (tr_task_id r) s)) rows st, map tr_task_id rows))"

text \<open>The task part of \<^verbatim>\<open>reset_subject\<close>.\<close>

definition reset_subject_tasks :: "string \<Rightarrow> store \<Rightarrow> store" where
  "reset_subject_tasks sub st =
     (let ids = map tr_task_id (filter (\<lambda>r. sc_subject_id (tr_scope r) = sub) (st_tasks st));
          st1 = drop_task_rows (\<lambda>k. k \<in> set ids) st
      in st1\<lparr>st_bindings := filter (\<lambda>b. sc_subject_id (sb_scope b) \<noteq> sub) (st_bindings st1),
             st_tasks := filter (\<lambda>r. sc_subject_id (tr_scope r) \<noteq> sub) (st_tasks st1)\<rparr>)"

end
