(* ===== verification/Task_Profiles.thy ===== *)
theory Task_Profiles
  imports Task_Store Task_Samples
begin

text \<open>
  Task profiles (\<^verbatim>\<open>src/atmem/task_state/profiles.py\<close> and \<^verbatim>\<open>TaskProfile.from_dict\<close>): the built-in
  \<^verbatim>\<open>general-v1\<close>, parsing of a payload, the registry over the store, and the reachability loop that
  finds phases no transition leads to.  A payload field of a shape the contract does not document is
  refused as \<^verbatim>\<open>TypeError\<close>.
\<close>

section \<open>Parsing a profile\<close>

definition OperationKind_of :: "string \<Rightarrow> operation_kind option" where
  "OperationKind_of = enum_of operation_value all_operation_kinds"

fun as_edge :: "json \<Rightarrow> (string \<times> string) option" where
  "as_edge (JList (JStr a # JStr b # _)) = Some (a, b)"
| "as_edge _ = None"

definition as_edges :: "json \<Rightarrow> (string \<times> string) list option" where
  "as_edges v = (case as_list v of None \<Rightarrow> None | Some xs \<Rightarrow> all_some (map as_edge xs))"

definition keys_of :: "json \<Rightarrow> string list" where
  "keys_of j = (case j of JObj kvs \<Rightarrow> map fst kvs | _ \<Rightarrow> [])"

definition PROFILE_FIELDS :: "string list" where
  "PROFILE_FIELDS =
     [''profile_id'', ''version'', ''phases'', ''phase_transitions'', ''required_item_kinds'',
      ''optional_context_fields'', ''permitted_operations'', ''no_progress_action_threshold'', ''expiry'',
      ''allow_schema_extension_phases'', ''description'', ''binding_lifetime_ms'']"

definition as_operations :: "string list \<Rightarrow> py_error + operation_kind list" where
  "as_operations names =
     (case all_some (map OperationKind_of names) of None \<Rightarrow> Inl ValueError | Some ks \<Rightarrow> Inr ks)"

definition checked_profile :: "task_profile \<Rightarrow> py_error + task_profile" where
  "checked_profile p =
     (if ExpiryPolicy_ok (pf_expiry p) \<and> TaskProfile_ok p then Inr p else Inl ValueError)"

definition TaskProfile_from_dict :: "json \<Rightarrow> py_error + task_profile" where
  "TaskProfile_from_dict j =
     (if \<not> closed_ok (keys_of j) PROFILE_FIELDS then Inl ValueError else
      bind_res (jfield j ''profile_id'' as_str) (\<lambda>profile_id.
      bind_res (jfield j ''version'' as_str) (\<lambda>version.
      bind_res (jfield j ''phases'' as_strs) (\<lambda>phases.
      bind_res (jget_or j ''phase_transitions'' as_edges []) (\<lambda>edges.
      bind_res (jget_or j ''required_item_kinds'' as_strs []) (\<lambda>kinds.
      bind_res (jget_or j ''optional_context_fields'' as_strs []) (\<lambda>fields.
      bind_res (jget_or j ''permitted_operations'' as_strs (map operation_value all_operation_kinds)) (\<lambda>ops.
      bind_res (as_operations ops) (\<lambda>kinds'.
      bind_res (jdefault_num j ''no_progress_action_threshold'' 3) (\<lambda>threshold.
      bind_res (jget_or j ''expiry'' Some (JObj [])) (\<lambda>expiry.
      bind_res (jopt_num expiry ''max_absolute_age_ms'') (\<lambda>absolute.
      bind_res (jopt_num expiry ''max_no_progress_age_ms'') (\<lambda>no_progress.
      bind_res (jget_or j ''allow_schema_extension_phases'' as_strs []) (\<lambda>extension.
      bind_res (jget_or j ''description'' as_str []) (\<lambda>description.
      bind_res (jopt_num j ''binding_lifetime_ms'') (\<lambda>lifetime.
        checked_profile
          \<lparr>pf_profile_id = profile_id, pf_version = version, pf_phases = phases,
           pf_phase_transitions = edges, pf_required_item_kinds = kinds,
           pf_optional_context_fields = fields, pf_permitted_operations = kinds',
           pf_no_progress_action_threshold = threshold,
           pf_expiry = \<lparr>xp_max_absolute_age_ms = absolute, xp_max_no_progress_age_ms = no_progress\<rparr>,
           pf_allow_schema_extension_phases = extension, pf_description = description,
           pf_binding_lifetime_ms = lifetime\<rparr>))))))))))))))))"

section \<open>The built-in profile\<close>

definition GENERAL_V1 :: task_profile where
  "GENERAL_V1 =
     \<lparr>pf_profile_id = ''general'', pf_version = ''general-v1'',
      pf_phases = [''plan'', ''collect'', ''validate'', ''execute'', ''verify'', ''complete''],
      pf_phase_transitions =
        [(''plan'', ''collect''), (''plan'', ''execute''), (''collect'', ''validate''),
         (''collect'', ''collect''), (''validate'', ''collect''), (''validate'', ''execute''),
         (''execute'', ''verify''), (''execute'', ''execute''), (''verify'', ''execute''),
         (''verify'', ''complete'')],
      pf_required_item_kinds = [],
      pf_optional_context_fields =
        [''completed_sources'', ''sources_to_inspect'', ''item_content'', ''settled_items''],
      pf_permitted_operations = all_operation_kinds,
      pf_no_progress_action_threshold = 3,
      pf_expiry = \<lparr>xp_max_absolute_age_ms = None, xp_max_no_progress_age_ms = None\<rparr>,
      pf_allow_schema_extension_phases = [''plan'', ''collect''],
      pf_description = ''General agent workflow: plan the work, collect what it needs, validate that, execute, verify the result, then complete.'',
      pf_binding_lifetime_ms = Some (12 * 60 * 60 * 1000)\<rparr>"

definition BUILT_IN_PROFILES :: "(string \<times> task_profile) list" where
  "BUILT_IN_PROFILES = [(pf_version GENERAL_V1, GENERAL_V1)]"

section \<open>Reachable phases\<close>

definition reach_pass :: "(string \<times> string) list \<Rightarrow> string list \<Rightarrow> string list" where
  "reach_pass edges R =
     fold (\<lambda>(source, target) R. if source \<in> set R \<and> target \<notin> set R then R @ [target] else R) edges R"

lemma reach_pass_simps [simp]:
  "reach_pass [] R = R"
  "reach_pass ((a, b) # edges) R = reach_pass edges (if a \<in> set R \<and> b \<notin> set R then R @ [b] else R)"
  by (simp_all add: reach_pass_def)

lemma reach_pass_targets: "set (reach_pass edges R) \<subseteq> set R \<union> snd ` set edges"
proof (induction edges arbitrary: R)
  case (Cons e edges)
  obtain a b where e: "e = (a, b)" by (cases e)
  show ?case using Cons.IH [of R] Cons.IH [of "R @ [b]"] by (auto simp: e)
qed simp

lemma reach_pass_prefix: "\<exists>new. reach_pass edges R = R @ new \<and> set new \<inter> set R = {}"
proof (induction edges arbitrary: R)
  case (Cons e edges)
  obtain a b where e: "e = (a, b)" by (cases e)
  show ?case using Cons.IH [of R] Cons.IH [of "R @ [b]"] by (fastforce simp: e)
qed simp

text \<open>The \<^verbatim>\<open>while changed\<close> loop; \<^verbatim>\<open>changed\<close> is set exactly when a pass adds a phase.\<close>

function reach_loop :: "(string \<times> string) list \<Rightarrow> string list \<Rightarrow> string list" where
  "reach_loop edges R =
     (let R' = reach_pass edges R in if R' = R then R else reach_loop edges R')"
  by auto
termination
proof (relation "measure (\<lambda>(edges, R). card (snd ` set edges - set R))", goal_cases)
  case (2 edges R R')
  obtain new where new: "R' = R @ new" "set new \<inter> set R = {}"
    using reach_pass_prefix [of edges R] 2(1) by auto
  then obtain x where x: "x \<in> set new" using 2 by (cases new) auto
  have "x \<in> snd ` set edges" using reach_pass_targets [of edges R] new x 2(1) by auto
  then have "snd ` set edges - set R' \<subset> snd ` set edges - set R" using new x by auto
  then show ?case by (simp add: psubset_card_mono)
qed simp

declare reach_loop.simps [simp del]

definition unreachable_phases :: "task_profile \<Rightarrow> string list" where
  "unreachable_phases p =
     (let reachable = reach_loop (pf_phase_transitions p) [initial_phase p]
      in filter (\<lambda>ph. ph \<notin> set reachable) (pf_phases p))"


section \<open>The registry\<close>

definition registry_get :: "store \<Rightarrow> string \<Rightarrow> py_error + task_profile option" where
  "registry_get st v =
     (case map_of BUILT_IN_PROFILES v of
        Some p \<Rightarrow> Inr (Some p)
      | None \<Rightarrow>
          (case get_task_profile st v of
             None \<Rightarrow> Inr None
           | Some row \<Rightarrow> bind_res (TaskProfile_from_dict (pl_profile row)) (\<lambda>p. Inr (Some p))))"

definition registry_require :: "store \<Rightarrow> string \<Rightarrow> py_error + task_profile" where
  "registry_require st v =
     bind_res (registry_get st v) (\<lambda>r. case r of None \<Rightarrow> Inl ValueError | Some p \<Rightarrow> Inr p)"

definition list_profiles :: "store \<Rightarrow> py_error + task_profile list" where
  "list_profiles st =
     bind_res (map_res (\<lambda>row. TaskProfile_from_dict (pl_profile row)) (list_task_profiles st))
       (\<lambda>rows. Inr (sort_key pf_version (map snd BUILT_IN_PROFILES @ rows)))"

text \<open>The reasons carry the offending phases in the code; here the reason is the code's prefix.\<close>

definition validate_profile :: "json \<Rightarrow> task_profile option \<times> string list" where
  "validate_profile payload =
     (case TaskProfile_from_dict payload of
        Inl _ \<Rightarrow> (None, [''invalid_profile''])
      | Inr p \<Rightarrow>
          (Some p,
           (if map_of BUILT_IN_PROFILES (pf_version p) \<noteq> None then [''version_conflicts_with_built_in_profile''] else []) @
           (if pf_phase_transitions p = [] then [''profile_declares_no_transitions''] else []) @
           (if unreachable_phases p \<noteq> [] then [''unreachable_phases''] else [])))"

record profile_registration =
  pg_profile :: task_profile
  pg_digest :: string
  pg_dry_run :: bool
  pg_registered :: bool
  pg_reason_codes :: "string list"
  pg_conflict :: "string option"

definition registration :: "task_profile \<Rightarrow> string \<Rightarrow> bool \<Rightarrow> bool \<Rightarrow> string list \<Rightarrow> profile_registration" where
  "registration p digest dry_run registered reasons =
     \<lparr>pg_profile = p, pg_digest = digest, pg_dry_run = dry_run, pg_registered = registered,
      pg_reason_codes = reasons, pg_conflict = None\<rparr>"

definition register_profile ::
  "hashes \<Rightarrow> json \<Rightarrow> string \<Rightarrow> bool \<Rightarrow> timestamp \<Rightarrow> store \<Rightarrow> store \<times> (task_error + profile_registration)" where
  "register_profile H payload actor dry_run now st =
     (case validate_profile payload of
        (None, reasons) \<Rightarrow> (st, Inr (registration GENERAL_V1 [] dry_run False reasons))
      | (Some p, reasons) \<Rightarrow>
          (let digest = profile_digest H p in
           if reasons \<noteq> [] then (st, Inr (registration p digest dry_run False reasons))
           else (case get_task_profile st (pf_version p) of
               Some row \<Rightarrow>
                 if pl_digest row = digest
                 then (st, Inr (registration p digest dry_run False [''already_registered_identically'']))
                 else (st, Inr ((registration p digest dry_run False
                         [''version_already_registered_with_different_rules''])\<lparr>pg_conflict := Some (pl_digest row)\<rparr>))
             | None \<Rightarrow>
                 if dry_run then (st, Inr (registration p digest True False [''dry_run_validated'']))
                 else (case insert_task_profile
                           \<lparr>pl_version = pf_version p, pl_profile_id = pf_profile_id p, pl_digest = digest,
                            pl_profile = TaskProfile_to_dict p, pl_actor = actor, pl_registered_at = now\<rparr> st of
                         Inl e \<Rightarrow> (st, Inl e)
                       | Inr st' \<Rightarrow> (st', Inr (registration p digest False True [''profile_registered'']))))))"

section \<open>Reachability is exact\<close>

lemma reach_pass_sound: "set (reach_pass edges R) \<subseteq> (set edges \<union> E)\<^sup>* `` set R"
proof (induction edges arbitrary: R E)
  case (Cons e edges)
  obtain a b where e: "e = (a, b)" by (cases e)
  have IH: "set (reach_pass edges Q) \<subseteq> (set (e # edges) \<union> E)\<^sup>* `` set Q" for Q
    using Cons.IH [of Q "insert e E"] by simp
  show ?case
  proof (cases "a \<in> set R \<and> b \<notin> set R")
    case True
    have "(set (e # edges) \<union> E)\<^sup>* `` set (R @ [b]) \<subseteq> (set (e # edges) \<union> E)\<^sup>* `` set R"
      using True by (auto simp: e intro: converse_rtrancl_into_rtrancl)
    then show ?thesis using IH [of "R @ [b]"] True by (auto simp: e)
  next
    case False
    then show ?thesis using IH [of R] by (auto simp: e)
  qed
qed auto

lemma reach_pass_fixpoint:
  assumes "reach_pass edges R = R" and "(a, b) \<in> set edges" and "a \<in> set R"
  shows "b \<in> set R"
  using assms
proof (induction edges)
  case (Cons e edges)
  obtain c d where e: "e = (c, d)" by (cases e)
  have "\<not> (c \<in> set R \<and> d \<notin> set R)"
  proof
    assume c: "c \<in> set R \<and> d \<notin> set R"
    then have "reach_pass edges (R @ [d]) = R" using Cons.prems(1) by (simp add: e)
    then show False using reach_pass_prefix [of edges "R @ [d]"] by auto
  qed
  then show ?case using Cons by (auto simp: e)
qed simp

lemma reach_loop_exact: "set (reach_loop edges R) = (set edges)\<^sup>* `` set R"
proof (induction edges R rule: reach_loop.induct)
  case (1 edges R)
  show ?case
  proof (cases "reach_pass edges R = R")
    case True
    have "(x, y) \<in> (set edges)\<^sup>* \<Longrightarrow> x \<in> set R \<Longrightarrow> y \<in> set R" for x y
      by (induction rule: rtrancl_induct) (auto dest: reach_pass_fixpoint [OF True])
    then show ?thesis using True by (subst reach_loop.simps) auto
  next
    case False
    have closure: "(set edges)\<^sup>* `` ((set edges)\<^sup>* `` X) = (set edges)\<^sup>* `` X" for X
      by (simp flip: relcomp_Image)
    have "set (reach_pass edges R) \<subseteq> (set edges)\<^sup>* `` set R" using reach_pass_sound [of edges R "{}"] by simp
    moreover have "set R \<subseteq> set (reach_pass edges R)" using reach_pass_prefix [of edges R] by auto
    ultimately have "(set edges)\<^sup>* `` set (reach_pass edges R) = (set edges)\<^sup>* `` set R"
      using closure [of "set R"] Image_mono [OF subset_refl] by blast
    then show ?thesis using 1 [OF refl False] False by (subst reach_loop.simps) simp
  qed
qed

section \<open>Profiles survive storage\<close>

lemma OperationKind_inverse: "OperationKind_of (operation_value k) = Some k"
  by (cases k) (simp_all add: OperationKind_of_def enum_of_def all_operation_kinds_def)

lemma as_operations_inverse [simp]: "as_operations (map operation_value ks) = Inr ks"
  by (simp add: as_operations_def comp_def OperationKind_inverse)

lemma as_edges_inverse: "as_edges (JList (map (\<lambda>(a, b). strs_json [a, b]) es)) = Some es"
proof -
  have "map as_edge (map (\<lambda>(a, b). strs_json [a, b]) es) = map Some es"
    by (auto simp: strs_json_def)
  then show ?thesis
    unfolding as_edges_def as_list.simps option.case using all_some_map_Some [of "\<lambda>x. x" es] by (simp only: list.map_ident)
qed

lemma profile_strs_fields:
  "jget_or (TaskProfile_to_dict p) ''required_item_kinds'' as_strs [] = Inr (pf_required_item_kinds p)"
  "jget_or (TaskProfile_to_dict p) ''optional_context_fields'' as_strs [] = Inr (pf_optional_context_fields p)"
  "jget_or (TaskProfile_to_dict p) ''allow_schema_extension_phases'' as_strs [] = Inr (pf_allow_schema_extension_phases p)"
  "pf_permitted_operations p \<noteq> [] \<Longrightarrow> jget_or (TaskProfile_to_dict p) ''permitted_operations'' as_strs d =
      Inr (map operation_value (pf_permitted_operations p))"
  using jget_or_strs [of "TaskProfile_to_dict p" "''required_item_kinds''" "pf_required_item_kinds p"]
    jget_or_strs [of "TaskProfile_to_dict p" "''optional_context_fields''" "pf_optional_context_fields p"]
    jget_or_strs [of "TaskProfile_to_dict p" "''allow_schema_extension_phases''" "pf_allow_schema_extension_phases p"]
    jget_or_strs [of "TaskProfile_to_dict p" "''permitted_operations''" "map operation_value (pf_permitted_operations p)"]
  by (simp_all add: TaskProfile_to_dict_def)

lemma profile_plain_fields:
  "jfield (TaskProfile_to_dict p) ''profile_id'' as_str = Inr (pf_profile_id p)"
  "jfield (TaskProfile_to_dict p) ''version'' as_str = Inr (pf_version p)"
  "jfield (TaskProfile_to_dict p) ''phases'' as_strs = Inr (pf_phases p)"
  "jdefault_num (TaskProfile_to_dict p) ''no_progress_action_threshold'' 3 = Inr (pf_no_progress_action_threshold p)"
  "jget_or (TaskProfile_to_dict p) ''description'' as_str [] = Inr (pf_description p)"
  "jopt_num (TaskProfile_to_dict p) ''binding_lifetime_ms'' = Inr (pf_binding_lifetime_ms p)"
  "jget_or (TaskProfile_to_dict p) ''expiry'' Some (JObj []) =
     Inr (JObj [(''max_absolute_age_ms'', opt_json JNum (xp_max_absolute_age_ms (pf_expiry p))),
                (''max_no_progress_age_ms'', opt_json JNum (xp_max_no_progress_age_ms (pf_expiry p)))])"
  "jopt_num (JObj [(''max_absolute_age_ms'', opt_json JNum a), (''max_no_progress_age_ms'', opt_json JNum b)])
     ''max_absolute_age_ms'' = Inr a"
  "jopt_num (JObj [(''max_absolute_age_ms'', opt_json JNum a), (''max_no_progress_age_ms'', opt_json JNum b)])
     ''max_no_progress_age_ms'' = Inr b"
  by (simp_all add: TaskProfile_to_dict_def jfield_def jdefault_num_def jget_or_def jopt_num_def)

lemma profile_roundtrip:
  assumes ok: "TaskProfile_ok p" "ExpiryPolicy_ok (pf_expiry p)" and ops: "pf_permitted_operations p \<noteq> []"
  shows "TaskProfile_from_dict (TaskProfile_to_dict p) = Inr p"
proof -
  have "closed_ok (keys_of (TaskProfile_to_dict p)) PROFILE_FIELDS"
    by (auto simp: closed_ok_def keys_of_def TaskProfile_to_dict_def PROFILE_FIELDS_def)
  moreover have "jget_or (TaskProfile_to_dict p) ''phase_transitions'' as_edges [] = Inr (pf_phase_transitions p)"
    using as_edges_inverse [of "pf_phase_transitions p"]
    by (simp add: jget_or_def TaskProfile_to_dict_def)
  ultimately show ?thesis
    using ok ops
    by (simp add: TaskProfile_from_dict_def profile_strs_fields profile_plain_fields checked_profile_def
        ExpiryPolicy_ok_def TaskProfile_ok_def del: bind_res_eq_Inr)
qed

lemma from_dict_ok:
  assumes "TaskProfile_from_dict j = Inr p"
  shows "TaskProfile_ok p" "ExpiryPolicy_ok (pf_expiry p)"
  using assms by (auto simp: TaskProfile_from_dict_def checked_profile_def split: if_splits)


lemma from_dict_operations:
  assumes "TaskProfile_from_dict j = Inr p"
  obtains names where "jget_or j ''permitted_operations'' as_strs (map operation_value all_operation_kinds) = Inr names"
    "as_operations names = Inr (pf_permitted_operations p)"
  using assms by (auto simp: TaskProfile_from_dict_def checked_profile_def split: if_splits)

lemma from_dict_operations_nonempty:
  assumes "TaskProfile_from_dict j = Inr p"
  shows "pf_permitted_operations p \<noteq> []"
proof -
  obtain names where n: "jget_or j ''permitted_operations'' as_strs (map operation_value all_operation_kinds) = Inr names"
    "as_operations names = Inr (pf_permitted_operations p)" using assms by (rule from_dict_operations)
  have "names \<noteq> []"
    using n(1)
    by (auto simp: jget_or_def as_strs_def all_operation_kinds_def split: option.splits if_splits
        elim!: as_list.elims dest!: all_some_length)
  then show ?thesis using n(2) by (auto simp: as_operations_def dest!: all_some_length split: option.splits)
qed

lemma register_cases:
  assumes "register_profile H payload actor dry_run now st = (st', r)"
  obtains "st' = st"
  | p where "TaskProfile_from_dict payload = Inr p" "map_of BUILT_IN_PROFILES (pf_version p) = None"
      "get_task_profile st (pf_version p) = None" "pf_phase_transitions p \<noteq> []" "unreachable_phases p = []"
      "r = Inr (registration p (profile_digest H p) False True [''profile_registered''])"
      "st' = st\<lparr>st_profiles := st_profiles st @
         [\<lparr>pl_version = pf_version p, pl_profile_id = pf_profile_id p, pl_digest = profile_digest H p,
           pl_profile = TaskProfile_to_dict p, pl_actor = actor, pl_registered_at = now\<rparr>]\<rparr>"
  using assms
  by (auto simp: register_profile_def validate_profile_def insert_task_profile_def Let_def
      split: sum.splits prod.splits if_splits option.splits)

section \<open>Properties of the registry\<close>

text \<open>
  The loop over the declared transitions terminates and finds exactly the phases that no sequence of
  transitions reaches from the initial phase.
\<close>

theorem unreachable_phases_exact:
  "set (unreachable_phases p) =
     {ph \<in> set (pf_phases p). (initial_phase p, ph) \<notin> (set (pf_phase_transitions p))\<^sup>*}"
  by (auto simp: unreachable_phases_def Let_def reach_loop_exact)

text \<open>
  A newly registered profile is served back with exactly its rules, and every phase it declares is
  reachable.
\<close>

theorem registered_profile_is_served:
  assumes "register_profile H payload actor dry_run now st = (st', Inr g)" and "pg_registered g"
  shows "TaskProfile_from_dict payload = Inr (pg_profile g) \<and>
         registry_require st' (pf_version (pg_profile g)) = Inr (pg_profile g) \<and>
         (\<forall>ph\<in>set (pf_phases (pg_profile g)).
            (initial_phase (pg_profile g), ph) \<in> (set (pf_phase_transitions (pg_profile g)))\<^sup>*)"
proof -
  have "\<exists>p. TaskProfile_from_dict payload = Inr p \<and> map_of BUILT_IN_PROFILES (pf_version p) = None \<and>
      get_task_profile st (pf_version p) = None \<and> unreachable_phases p = [] \<and> pg_profile g = p \<and>
      st' = st\<lparr>st_profiles := st_profiles st @
         [\<lparr>pl_version = pf_version p, pl_profile_id = pf_profile_id p, pl_digest = profile_digest H p,
           pl_profile = TaskProfile_to_dict p, pl_actor = actor, pl_registered_at = now\<rparr>]\<rparr>"
    using assms
    by (auto simp: register_profile_def validate_profile_def insert_task_profile_def registration_def Let_def
        split: sum.splits prod.splits if_splits option.splits)
  then obtain p where p: "TaskProfile_from_dict payload = Inr p" "map_of BUILT_IN_PROFILES (pf_version p) = None"
      "get_task_profile st (pf_version p) = None" "unreachable_phases p = []" "pg_profile g = p"
      "st' = st\<lparr>st_profiles := st_profiles st @
         [\<lparr>pl_version = pf_version p, pl_profile_id = pf_profile_id p, pl_digest = profile_digest H p,
           pl_profile = TaskProfile_to_dict p, pl_actor = actor, pl_registered_at = now\<rparr>]\<rparr>" by blast
  have "TaskProfile_from_dict (TaskProfile_to_dict p) = Inr p"
    using profile_roundtrip from_dict_ok [OF p(1)] from_dict_operations_nonempty [OF p(1)] by blast
  then have "registry_require st' (pf_version p) = Inr p"
    using p(2,3,6) by (simp add: registry_require_def registry_get_def get_task_profile_def lookup_by_snoc)
  moreover have "(initial_phase p, ph) \<in> (set (pf_phase_transitions p))\<^sup>*" if "ph \<in> set (pf_phases p)" for ph
    using p(4) that by (auto simp: unreachable_phases_def Let_def reach_loop_exact filter_empty_conv)
  ultimately show ?thesis using p(1,5) by blast
qed

definition ex_custom_profile :: json where
  "ex_custom_profile =
     JObj [(''profile_id'', JStr ''demo''), (''version'', JStr ''demo-v1''),
           (''phases'', strs_json [''plan'', ''done'']),
           (''phase_transitions'', JList [strs_json [''plan'', ''done'']])]"

theorem registered_profile_is_served_witness:
  "\<exists>g st'. register_profile ex_hashes ex_custom_profile ''op'' False 5 empty_store = (st', Inr g) \<and>
     pg_registered g \<and> registry_require st' (pf_version (pg_profile g)) = Inr (pg_profile g)"
proof -
  let ?r = "register_profile ex_hashes ex_custom_profile ''op'' False 5 empty_store"
  have "(case snd ?r of Inr g \<Rightarrow> pg_registered g | Inl _ \<Rightarrow> False)" by code_simp
  then obtain g where g: "snd ?r = Inr g" "pg_registered g" by (cases "snd ?r") auto
  then have "?r = (fst ?r, Inr g)" by (metis prod.collapse)
  with registered_profile_is_served [OF this g(2)] g(2) show ?thesis by blast
qed

text \<open>
  Registration never changes what an already known version means: every version that resolves
  before resolves to the same profile afterwards, whatever is registered.
\<close>

theorem registered_versions_are_immutable:
  assumes "register_profile H payload actor dry_run now st = (st', r)" and "registry_get st v = Inr (Some q)"
  shows "registry_get st' v = Inr (Some q)"
  using assms(1)
proof (cases rule: register_cases)
  case 1
  then show ?thesis using assms(2) by simp
next
  case (2 p)
  have "get_task_profile st' v = get_task_profile st v \<or> (v = pf_version p \<and> get_task_profile st v = None)"
    using 2(7) by (auto simp: get_task_profile_def lookup_by_append split: option.splits)
  then show ?thesis using assms(2) 2(2) by (auto simp: registry_get_def split: option.splits)
qed

theorem registered_versions_are_immutable_witness:
  "registry_get (fst (register_profile ex_hashes ex_custom_profile ''op'' False 5 empty_store)) ''general-v1''
     = Inr (Some GENERAL_V1)"
proof -
  have "registry_get empty_store ''general-v1'' = Inr (Some GENERAL_V1)"
    by (simp add: registry_get_def BUILT_IN_PROFILES_def GENERAL_V1_def)
  then show ?thesis by (rule registered_versions_are_immutable [OF prod.collapse [symmetric]])
qed

text \<open>
  A payload whose \<^verbatim>\<open>permitted_operations\<close> is the empty list permits every operation: the empty list is
  falsy, so the default is taken.
\<close>

theorem empty_permission_list_permits_all:
  assumes "TaskProfile_from_dict j = Inr p" and "jget j ''permitted_operations'' = Some (JList [])"
  shows "pf_permitted_operations p = all_operation_kinds"
  using assms(1)
proof (rule from_dict_operations)
  fix names
  assume "jget_or j ''permitted_operations'' as_strs (map operation_value all_operation_kinds) = Inr names"
    "as_operations names = Inr (pf_permitted_operations p)"
  then show ?thesis using assms(2) as_operations_inverse [of all_operation_kinds] by (simp add: jget_or_def)
qed

theorem empty_permission_list_permits_all_witness:
  "\<exists>p. TaskProfile_from_dict
      (JObj [(''profile_id'', JStr ''demo''), (''version'', JStr ''demo-v1''), (''phases'', strs_json [''plan'']),
             (''permitted_operations'', JList [])]) = Inr p \<and> pf_permitted_operations p = all_operation_kinds"
proof -
  let ?j = "JObj [(''profile_id'', JStr ''demo''), (''version'', JStr ''demo-v1''), (''phases'', strs_json [''plan'']),
             (''permitted_operations'', JList [])]"
  have "(case TaskProfile_from_dict ?j of Inr _ \<Rightarrow> True | Inl _ \<Rightarrow> False)" by code_simp
  then obtain p where p: "TaskProfile_from_dict ?j = Inr p" by (cases "TaskProfile_from_dict ?j") auto
  with empty_permission_list_permits_all [OF p] show ?thesis by simp
qed

end
