(* ===== verification/Task_Service.thy ===== *)
theory Task_Service
  imports Task_Policy Task_Codec Task_Profiles
begin

text \<open>
  The committing authority (\<^verbatim>\<open>src/atmem/task_state/service.py\<close>): start, submit, lifecycle changes,
  corrections, expiry and deletion over the store.  An operation returns the store it leaves and a result
  or an exception; what was committed before the exception stays.  The readings of the trusted clock during
  one call, in program order, are the values \<open>clk 0\<close>, \<open>clk 1\<close>, and so on.  \<open>submit\<close> reads on one store and
  commits on another, because another process may write between the two; \<open>submit\<close> without interference
  passes the same store.
\<close>

type_synonym clock = "nat \<Rightarrow> timestamp"

record task_view =
  tv_task :: task_row
  tv_state :: task_state
  tv_profile :: task_profile
  tv_summary :: task_summary

definition lift_py :: "py_error + 'a \<Rightarrow> task_error + 'a" where
  "lift_py r = (case r of Inl e \<Rightarrow> Inl (ContractError e) | Inr x \<Rightarrow> Inr x)"

section \<open>Reading\<close>

definition require_task :: "store \<Rightarrow> authority_scope \<Rightarrow> string \<Rightarrow> task_error + task_row" where
  "require_task st sc k =
     (case get_task st sc k of None \<Rightarrow> Inl (TaskStateError ''task_not_eligible'') | Some r \<Rightarrow> Inr r)"

definition view_of :: "store \<Rightarrow> task_row \<Rightarrow> task_error + task_view" where
  "view_of st r =
     (case get_task_revision st (tr_task_id r) (tr_head_revision r) of
        None \<Rightarrow> Inl AssertionError
      | Some v \<Rightarrow>
          bind_res (lift_py (state_from_dict (rr_state v))) (\<lambda>s.
          bind_res (lift_py (registry_require st (tr_profile_version r))) (\<lambda>p.
            Inr \<lparr>tv_task = r, tv_state = s, tv_profile = p, tv_summary = summarize s p\<rparr>)))"

section \<open>Writing revisions and provenance\<close>

definition write_revision ::
  "hashes \<Rightarrow> task_state \<Rightarrow> string \<Rightarrow> actor_role \<Rightarrow> string list \<Rightarrow> json list \<Rightarrow> timestamp \<Rightarrow> bool \<Rightarrow> store \<Rightarrow>
   task_error + store" where
  "write_revision H s actor role reasons evidence at progress =
     insert_task_revision
       \<lparr>rr_task_id = ts_task_id s, rr_revision = ts_revision s, rr_parent_revision = ts_parent_revision s,
        rr_state = TaskState_to_dict s, rr_state_sha256 = state_digest H s,
        rr_semantic_sha256 = semantic_digest H s, rr_actor = actor, rr_actor_role = role,
        rr_reason_codes = reasons, rr_evidence = evidence, rr_created_at = at, rr_is_progress = progress\<rparr>"

definition EvidenceRef_to_dict :: "evidence_ref \<Rightarrow> json" where
  "EvidenceRef_to_dict e =
     JObj [(''kind'', JStr (er_kind e)), (''reference_id'', JStr (er_reference_id e)),
           (''sha256'', opt_json JStr (er_sha256 e)), (''format'', JStr ''atmem-task-evidence-ref-v1'')]"

text \<open>A provenance row of one target; the identifier is filled by the store.\<close>

definition provenance ::
  "string \<Rightarrow> int \<Rightarrow> string \<Rightarrow> string \<Rightarrow> string \<Rightarrow> actor_role \<Rightarrow> string \<Rightarrow> assurance \<Rightarrow> timestamp \<Rightarrow> provenance_row" where
  "provenance k rv kind target actor role how_made assur at =
     \<lparr>pv_provenance_id = [], pv_task_id = k, pv_revision = rv, pv_target_kind = kind, pv_target_id = target,
      pv_actor = actor, pv_actor_role = role, pv_method = how_made, pv_assurance = assur,
      pv_interpreter = None, pv_evidence = [], pv_observed_at = at, pv_superseded_revision = None\<rparr>"

definition insert_all_provenance :: "provenance_row list \<Rightarrow> store \<Rightarrow> task_error + store" where
  "insert_all_provenance rows = fold_res insert_task_provenance rows"

definition transition_provenance ::
  "task_state_proposal \<Rightarrow> int \<Rightarrow> task_state \<Rightarrow> task_state \<Rightarrow> timestamp \<Rightarrow> provenance_row list" where
  "transition_provenance prop rv previous current at =
     (let evidence = map EvidenceRef_to_dict (pr_evidence prop);
          row = (\<lambda>kind target assur. (provenance (pr_task_id prop) rv kind target (pr_actor prop)
                   (pr_actor_role prop) ''typed_delta'' assur at)\<lparr>pv_evidence := evidence\<rparr>)
      in [(row ''transition'' (pr_proposal_id prop) (pr_assurance prop))
            \<lparr>pv_interpreter := pr_interpreter prop, pv_superseded_revision := Some (ts_revision previous)\<rparr>] @
         (if ts_phase current \<noteq> ts_phase previous
          then [(row ''field'' ''phase'' (pr_assurance prop))
                  \<lparr>pv_superseded_revision := Some (ts_revision previous)\<rparr>] else []) @
         map (\<lambda>t. (row ''status'' (ti_item_id t)
                     (if assurance_rank (pr_assurance prop) \<le> assurance_rank (ti_assurance t)
                      then ti_assurance t else pr_assurance prop))
                    \<lparr>pv_interpreter := pr_interpreter prop,
                     pv_superseded_revision :=
                       (if state_item previous (ti_item_id t) = None then None else Some (ts_revision previous))\<rparr>)
           (filter (\<lambda>t. case state_item previous (ti_item_id t) of
                          None \<Rightarrow> True | Some b \<Rightarrow> ti_status b \<noteq> ti_status t) (ts_items current)) @
         map (\<lambda>c. row ''constraint'' (tc_constraint_id c) (pr_assurance prop))
           (filter (\<lambda>c. case state_constraint previous (tc_constraint_id c) of
                          None \<Rightarrow> True | Some b \<Rightarrow> tc_satisfied b \<noteq> tc_satisfied c) (ts_constraints current)))"

definition step ::
  "string \<Rightarrow> string \<Rightarrow> step_outcome \<Rightarrow> int \<Rightarrow> int option \<Rightarrow> string list \<Rightarrow> string \<Rightarrow> timestamp \<Rightarrow> step_row" where
  "step k kind oc base resulting reasons actor at =
     \<lparr>sp_step_id = [], sp_task_id = k, sp_step_kind = kind, sp_outcome = oc, sp_proposal_id = None,
      sp_base_revision = base, sp_resulting_revision = resulting, sp_reason_codes = reasons,
      sp_action_fingerprint = None, sp_actor = actor, sp_duration_ms = 0, sp_recorded_at = at, sp_sequence = 0\<rparr>"

section \<open>Starting a task\<close>

fun start_constraints :: "nat \<Rightarrow> string list \<Rightarrow> task_constraint list" where
  "start_constraints n [] = []"
| "start_constraints n (text # texts) =
     \<lparr>tc_constraint_id = ''constraint-'' @ show_nat (n + 1), tc_text = text, tc_satisfied = False,
      tc_required_for_completion = True\<rparr> # start_constraints (n + 1) texts"

definition start_state :: "task_start_request \<Rightarrow> task_profile \<Rightarrow> task_item list \<Rightarrow> timestamp \<Rightarrow> task_state" where
  "start_state req p items now =
     \<lparr>ts_task_id = sr_task_id req, ts_scope = sr_scope req, ts_revision = 1, ts_lifecycle = OPEN,
      ts_phase = initial_phase p, ts_goal = sr_goal req, ts_profile_id = pf_profile_id p,
      ts_profile_version = pf_version p, ts_items = items,
      ts_constraints = start_constraints 0 (sr_constraints req),
      ts_sources_to_inspect = sr_sources_to_inspect req, ts_completed_sources = [], ts_schema_locked = False,
      ts_created_at = now, ts_updated_at = now, ts_last_progress_at = now, ts_parent_revision = None,
      ts_policy_generation = 1\<rparr>"

definition start_row :: "task_start_request \<Rightarrow> task_profile \<Rightarrow> string \<Rightarrow> timestamp \<Rightarrow> task_row" where
  "start_row req p source now =
     \<lparr>tr_task_id = sr_task_id req, tr_scope = sr_scope req, tr_profile_id = pf_profile_id p,
      tr_profile_version = pf_version p, tr_goal = sr_goal req, tr_lifecycle = OPEN, tr_head_revision = 1,
      tr_policy_generation = 1, tr_created_at = now, tr_updated_at = now, tr_last_progress_at = now,
      tr_paused_at = None, tr_no_progress_paused_ms = 0, tr_expiry_rule = pf_expiry p,
      tr_clock_source = source, tr_terminal_reason = None, tr_continues_task_id = sr_continues_task_id req,
      tr_idempotency_key = sr_idempotency_key req\<rparr>"

definition start_body ::
  "hashes \<Rightarrow> task_start_request \<Rightarrow> task_profile \<Rightarrow> task_item list \<Rightarrow> string \<Rightarrow> timestamp \<Rightarrow> store \<Rightarrow>
   task_error + store \<times> task_row" where
  "start_body H req p items source now st =
     (let s = start_state req p items now;
          row = start_row req p source now;
          evidence = map EvidenceRef_to_dict (sr_evidence req);
          k = sr_task_id req in
      bind_res (insert_task row st) (\<lambda>st.
      bind_res (write_revision H s (sr_actor req) (sr_actor_role req) [''lifecycle_change_accepted''] evidence now False st) (\<lambda>st.
      bind_res (insert_task_provenance
        ((provenance k 1 ''task'' k (sr_actor req) (sr_actor_role req) ''task_start'' OPERATOR_CONFIRMED now)
           \<lparr>pv_evidence := evidence\<rparr>) st) (\<lambda>st.
      bind_res (insert_all_provenance
        (map (\<lambda>t. provenance k 1 ''item'' (ti_item_id t) (sr_actor req) (sr_actor_role req) ''task_start''
                    (ti_assurance t) now) items) st) (\<lambda>st.
      bind_res (insert_task_step
        (step k ''task_start'' ACCEPTED 1 (Some 1) [''lifecycle_change_accepted''] (sr_actor req) now) st) (\<lambda>st.
        Inr (st, row)))))))"

definition start ::
  "hashes \<Rightarrow> clock \<Rightarrow> string \<Rightarrow> task_start_request \<Rightarrow> task_item list \<Rightarrow> store \<Rightarrow> task_view outcome" where
  "start H clk source req items st =
     (case require (sr_actor_role req) ''change_lifecycle'' of
        Inl e \<Rightarrow> (st, Inl e)
      | Inr _ \<Rightarrow>
          (case find_task_by_idempotency_key st (sr_scope req) (sr_idempotency_key req) of
             Some row \<Rightarrow> (st, view_of st row)
           | None \<Rightarrow>
               (case registry_get st (sr_profile_version req) of
                  Inl e \<Rightarrow> (st, Inl (ContractError e))
                | Inr None \<Rightarrow> (st, Inl (TaskStateError ''task_not_eligible''))
                | Inr (Some p) \<Rightarrow>
                    if \<not> TaskState_ok (start_state req p items (clk 0)) \<or>
                       \<not> list_all TaskConstraint_ok (start_constraints 0 (sr_constraints req))
                    then (st, Inl (ContractError ValueError))
                    else (case transaction (start_body H req p items source (clk 0)) st of
                            (st', Inl e) \<Rightarrow> (st', Inl e)
                          | (st', Inr row) \<Rightarrow> (st', view_of st' row)))))"

section \<open>Expiry and lifecycle\<close>

record expiry_report =
  xr_absolute_age_ms :: int
  xr_no_progress_age_ms :: int
  xr_paused_ms :: int
  xr_due_reason :: "string option"

definition reached :: "int option \<Rightarrow> int \<Rightarrow> bool" where
  "reached limit v = (case limit of None \<Rightarrow> False | Some m \<Rightarrow> m \<le> v)"

definition expiry_status :: "task_row \<Rightarrow> timestamp \<Rightarrow> expiry_report" where
  "expiry_status r now =
     (let absolute = elapsed_ms (tr_created_at r) now;
          paused = tr_no_progress_paused_ms r +
                   (case tr_paused_at r of None \<Rightarrow> 0 | Some t \<Rightarrow> elapsed_ms t now);
          no_progress = max 0 (elapsed_ms (tr_last_progress_at r) now - paused)
      in \<lparr>xr_absolute_age_ms = absolute, xr_no_progress_age_ms = no_progress, xr_paused_ms = paused,
          xr_due_reason =
            (if reached (xp_max_absolute_age_ms (tr_expiry_rule r)) absolute then Some ''expired_absolute_age''
             else if reached (xp_max_no_progress_age_ms (tr_expiry_rule r)) no_progress then Some ''expired_no_progress''
             else None)\<rparr>)"

definition lifecycle_state :: "task_state \<Rightarrow> task_lifecycle \<Rightarrow> timestamp \<Rightarrow> task_state" where
  "lifecycle_state s target now =
     s\<lparr>ts_revision := ts_revision s + 1, ts_parent_revision := Some (ts_revision s), ts_lifecycle := target,
       ts_updated_at := now\<rparr>"

definition rule_evidence :: "string option \<Rightarrow> json list" where
  "rule_evidence rule =
     (if truthy rule then [JObj [(''kind'', JStr ''policy_rule''), (''reference_id'', JStr (py_str rule))]] else [])"

definition lifecycle_change ::
  "task_row \<Rightarrow> task_state \<Rightarrow> task_lifecycle \<Rightarrow> string \<Rightarrow> timestamp \<Rightarrow> head_change" where
  "lifecycle_change r s target reason now =
     \<lparr>hc_new_head = ts_revision s + 1, hc_updated_at = now, hc_last_progress_at = None,
      hc_lifecycle = Some target, hc_terminal_reason = (if lifecycle_terminal target then Some reason else None),
      hc_paused_at = (if target = PAUSED then Some now else None),
      hc_clear_paused_at = (target \<noteq> PAUSED \<and> tr_paused_at r \<noteq> None),
      hc_add_paused_ms =
        (if target = PAUSED then 0 else case tr_paused_at r of None \<Rightarrow> 0 | Some t \<Rightarrow> elapsed_ms t now)\<rparr>"

text \<open>The transaction of \<^verbatim>\<open>_lifecycle\<close>, for the row and snapshot read before it.\<close>

definition lifecycle_body ::
  "hashes \<Rightarrow> task_row \<Rightarrow> task_state \<Rightarrow> task_lifecycle \<Rightarrow> string \<Rightarrow> actor_role \<Rightarrow> string \<Rightarrow> string option \<Rightarrow> timestamp \<Rightarrow>
   store \<Rightarrow> task_error + store \<times> unit" where
  "lifecycle_body H r s target actor role reason rule now st =
     (let n = lifecycle_state s target now; k = tr_task_id r in
      bind_res (write_revision H n actor role [''lifecycle_change_accepted''] (rule_evidence rule) now False st) (\<lambda>st.
      bind_res (advance_task_head k (ts_revision s) (lifecycle_change r s target reason now) st) (\<lambda>(advanced, st).
      if \<not> advanced then Inl (TaskStateError ''stale_base_revision'')
      else
      bind_res (insert_task_provenance
        ((provenance k (ts_revision n) ''lifecycle'' (lifecycle_value target) actor role
            (''lifecycle_'' @ lifecycle_value target)
            (if target = EXPIRED then RULE_EXTRACTED else OPERATOR_CONFIRMED) now)
           \<lparr>pv_evidence := rule_evidence rule\<rparr>) st) (\<lambda>st.
      bind_res (insert_task_step
        (step k (''lifecycle_'' @ lifecycle_value target) ACCEPTED (ts_revision s) (Some (ts_revision n))
           [''lifecycle_change_accepted''] actor now) st) (\<lambda>st.
        Inr (st, ()))))))"

text \<open>\<^verbatim>\<open>_lifecycle\<close> from the check of the current lifecycle on.\<close>

definition lifecycle_core ::
  "hashes \<Rightarrow> timestamp \<Rightarrow> authority_scope \<Rightarrow> task_row \<Rightarrow> task_lifecycle \<Rightarrow> string \<Rightarrow> actor_role \<Rightarrow> string \<Rightarrow>
   string option \<Rightarrow> store \<Rightarrow> task_view outcome" where
  "lifecycle_core H now sc r target actor role reason rule st =
     (if lifecycle_terminal (tr_lifecycle r) then (st, Inl (TaskStateError ''task_is_terminal''))
      else if tr_lifecycle r = target then (st, view_of st r)
      else
        (case view_of st r of
           Inl e \<Rightarrow> (st, Inl e)
         | Inr v \<Rightarrow>
             if \<not> TaskState_ok (lifecycle_state (tv_state v) target now) then (st, Inl (ContractError ValueError))
             else
             (case transaction (lifecycle_body H r (tv_state v) target actor role reason rule now) st of
                (st', Inl e) \<Rightarrow> (st', Inl e)
              | (st', Inr _) \<Rightarrow> (st', bind_res (require_task st' sc (tr_task_id r)) (view_of st')))))"

text \<open>\<^verbatim>\<open>_lifecycle\<close> with target \<^verbatim>\<open>EXPIRED\<close>, which does not look at expiry again.\<close>

definition lifecycle_expire ::
  "hashes \<Rightarrow> timestamp \<Rightarrow> authority_scope \<Rightarrow> string \<Rightarrow> string \<Rightarrow> actor_role \<Rightarrow> string \<Rightarrow> string option \<Rightarrow> store \<Rightarrow>
   task_view outcome" where
  "lifecycle_expire H now sc k actor role reason rule st =
     (case require role ''expire_task'' of
        Inl e \<Rightarrow> (st, Inl e)
      | Inr _ \<Rightarrow>
          (case require_task st sc k of
             Inl e \<Rightarrow> (st, Inl e)
           | Inr r \<Rightarrow> lifecycle_core H now sc r EXPIRED actor role reason rule st))"

definition expire_if_due :: "hashes \<Rightarrow> clock \<Rightarrow> authority_scope \<Rightarrow> task_row \<Rightarrow> store \<Rightarrow> task_row option outcome" where
  "expire_if_due H clk sc r st =
     (case xr_due_reason (expiry_status r (clk 0)) of
        None \<Rightarrow> (st, Inr None)
      | Some why \<Rightarrow>
          (case lifecycle_expire H (clk 1) sc (tr_task_id r) ''atmem-policy-evaluator'' POLICY_EVALUATOR why (Some why) st of
             (st', Inr _) \<Rightarrow> (st', Inr (get_task st' sc (tr_task_id r)))
           | (st', Inl (TaskStateError c)) \<Rightarrow>
               if c \<in> {''task_is_terminal'', ''stale_base_revision''}
               then (st', Inr (get_task st' sc (tr_task_id r))) else (st', Inl (TaskStateError c))
           | (st', Inl e) \<Rightarrow> (st', Inl e)))"

text \<open>\<^verbatim>\<open>self._expire_if_due(scope, row) or row\<close>, for a row that is not terminal.\<close>

definition refresh :: "hashes \<Rightarrow> clock \<Rightarrow> authority_scope \<Rightarrow> task_row \<Rightarrow> store \<Rightarrow> task_row outcome" where
  "refresh H clk sc r st =
     (if lifecycle_terminal (tr_lifecycle r) then (st, Inr r)
      else (case expire_if_due H clk sc r st of
              (st', Inl e) \<Rightarrow> (st', Inl e)
            | (st', Inr None) \<Rightarrow> (st', Inr r)
            | (st', Inr (Some r')) \<Rightarrow> (st', Inr r')))"

definition lifecycle ::
  "hashes \<Rightarrow> clock \<Rightarrow> authority_scope \<Rightarrow> string \<Rightarrow> task_lifecycle \<Rightarrow> string \<Rightarrow> actor_role \<Rightarrow> string \<Rightarrow> store \<Rightarrow>
   task_view outcome" where
  "lifecycle H clk sc k target actor role reason st =
     (if target = EXPIRED then lifecycle_expire H (clk 2) sc k actor role reason None st
      else case require role ''change_lifecycle'' of
        Inl e \<Rightarrow> (st, Inl e)
      | Inr _ \<Rightarrow>
          (case require_task st sc k of
             Inl e \<Rightarrow> (st, Inl e)
           | Inr r \<Rightarrow>
               (case refresh H clk sc r st of
                  (st', Inl e) \<Rightarrow> (st', Inl e)
                | (st', Inr r') \<Rightarrow> lifecycle_core H (clk 2) sc r' target actor role reason None st')))"

definition pause ::
  "hashes \<Rightarrow> clock \<Rightarrow> authority_scope \<Rightarrow> string \<Rightarrow> string \<Rightarrow> actor_role \<Rightarrow> string \<Rightarrow> store \<Rightarrow> task_view outcome" where
  "pause H clk sc k actor role reason = lifecycle H clk sc k PAUSED actor role reason"

definition resume ::
  "hashes \<Rightarrow> clock \<Rightarrow> authority_scope \<Rightarrow> string \<Rightarrow> string \<Rightarrow> actor_role \<Rightarrow> string \<Rightarrow> store \<Rightarrow> task_view outcome" where
  "resume H clk sc k actor role reason = lifecycle H clk sc k OPEN actor role reason"

definition complete ::
  "hashes \<Rightarrow> clock \<Rightarrow> authority_scope \<Rightarrow> string \<Rightarrow> string \<Rightarrow> actor_role \<Rightarrow> string \<Rightarrow> store \<Rightarrow> task_view outcome" where
  "complete H clk sc k actor role reason st =
     (case bind_res (require_task st sc k) (view_of st) of
        Inl e \<Rightarrow> (st, Inl e)
      | Inr v \<Rightarrow>
          (case evaluate_completion (tv_state v) (tv_profile v) of
             (True, _) \<Rightarrow> lifecycle H clk sc k COMPLETED_L actor role reason st
           | (False, reasons, Some g) \<Rightarrow>
               (st, Inl (TaskCompletionDenied (case reasons of [] \<Rightarrow> [] | c # _ \<Rightarrow> c) g))
           | (False, _, None) \<Rightarrow> (st, Inl AssertionError)))"

definition cancel ::
  "hashes \<Rightarrow> clock \<Rightarrow> authority_scope \<Rightarrow> string \<Rightarrow> string \<Rightarrow> actor_role \<Rightarrow> string \<Rightarrow> store \<Rightarrow> task_view outcome" where
  "cancel H clk sc k actor role reason st =
     (if py_strip reason = [] then (st, Inl (TaskStateError ''reason_required''))
      else lifecycle H clk sc k CANCELLED actor role reason st)"

definition get_view ::
  "hashes \<Rightarrow> clock \<Rightarrow> authority_scope \<Rightarrow> string \<Rightarrow> bool \<Rightarrow> store \<Rightarrow> task_view outcome" where
  "get_view H clk sc k evaluate_exp st =
     (case require_task st sc k of
        Inl e \<Rightarrow> (st, Inl e)
      | Inr r \<Rightarrow>
          if evaluate_exp
          then (case refresh H clk sc r st of
                  (st', Inl e) \<Rightarrow> (st', Inl e)
                | (st', Inr r') \<Rightarrow> (st', view_of st' r'))
          else (st, view_of st r))"

definition evaluate_expiry ::
  "hashes \<Rightarrow> clock \<Rightarrow> authority_scope \<Rightarrow> string \<Rightarrow> store \<Rightarrow> task_row option outcome" where
  "evaluate_expiry H clk sc k st =
     (case get_task st sc k of None \<Rightarrow> (st, Inr None) | Some r \<Rightarrow> expire_if_due H clk sc r st)"

fun scan_rows :: "hashes \<Rightarrow> (nat \<Rightarrow> clock) \<Rightarrow> nat \<Rightarrow> task_row list \<Rightarrow> store \<Rightarrow> string list outcome" where
  "scan_rows H clks i [] st = (st, Inr [])"
| "scan_rows H clks i (r # rs) st =
     (case expire_if_due H (clks i) (tr_scope r) r st of
        (st', Inl e) \<Rightarrow> (st', Inl e)
      | (st', Inr x) \<Rightarrow>
          (case scan_rows H clks (i + 1) rs st' of
             (st'', Inl e) \<Rightarrow> (st'', Inl e)
           | (st'', Inr ks) \<Rightarrow> (st'', Inr (if x = None then ks else tr_task_id r # ks))))"

definition scan_for_expiry :: "hashes \<Rightarrow> (nat \<Rightarrow> clock) \<Rightarrow> int \<Rightarrow> store \<Rightarrow> string list outcome" where
  "scan_for_expiry H clks limit st = scan_rows H clks 0 (tasks_due_for_expiry_scan st limit) st"

section \<open>Submitting a proposal\<close>

datatype prepared =
    Replayed transition_decision
  | Ready task_view policy_decision

text \<open>The part of \<^verbatim>\<open>submit\<close> before the commit; it may expire the task, and returns the store it leaves.\<close>

definition submit_prepare ::
  "hashes \<Rightarrow> clock \<Rightarrow> task_state_proposal \<Rightarrow> bool \<Rightarrow> store \<Rightarrow> prepared outcome" where
  "submit_prepare H clk prop allow_privileged st =
     (case get_task st (pr_scope prop) (pr_task_id prop) of
        None \<Rightarrow> (st, Inl (TaskStateError ''task_not_eligible''))
      | Some row \<Rightarrow>
          (case find_task_proposal st (pr_task_id prop) (pr_idempotency_key prop) of
             Some old \<Rightarrow>
               if pp_payload_sha256 old \<noteq> payload_digest H prop
               then (st, Inl (TaskStateError ''task_not_eligible''))
               else (st, bind_res (lift_py (decision_from_dict (set_key ''replayed'' (JBool True) (pp_decision old))))
                           (\<lambda>d. Inr (Replayed d)))
           | None \<Rightarrow>
               (case refresh H (\<lambda>i. clk (i + 1)) (pr_scope prop) row st of
                  (st', Inl e) \<Rightarrow> (st', Inl e)
                | (st', Inr row') \<Rightarrow>
                    (st', bind_res (view_of st' row') (\<lambda>v.
                      bind_res (lift_py (evaluate H (tv_state v) (tv_profile v) prop (clk 3) None allow_privileged))
                        (\<lambda>d. Inr (Ready v d)))))))"

definition conflict_decision :: policy_decision where
  "conflict_decision = plain_decision CONFLICT ''concurrent_successor_committed'' ASSERTED"

definition commit_change :: "policy_decision \<Rightarrow> task_state \<Rightarrow> timestamp \<Rightarrow> head_change" where
  "commit_change d n now =
     \<lparr>hc_new_head = ts_revision n, hc_updated_at = now,
      hc_last_progress_at = (if pd_is_progress d then Some now else None), hc_lifecycle = None,
      hc_terminal_reason = None, hc_paused_at = None, hc_clear_paused_at = False, hc_add_paused_ms = 0\<rparr>"

text \<open>The revision and the guarded head move; an \<^verbatim>\<open>IntegrityError\<close> of either counts as not advanced.\<close>

definition try_advance ::
  "hashes \<Rightarrow> task_state_proposal \<Rightarrow> task_state \<Rightarrow> policy_decision \<Rightarrow> task_state \<Rightarrow> timestamp \<Rightarrow> store \<Rightarrow>
   task_error + bool \<times> store" where
  "try_advance H prop s d n now st =
     (case write_revision H n (pr_actor prop) (pr_actor_role prop) (pd_reason_codes d)
             (map EvidenceRef_to_dict (pr_evidence prop)) now (pd_is_progress d) st of
        Inl IntegrityError \<Rightarrow> Inr (False, st)
      | Inl e \<Rightarrow> Inl e
      | Inr st1 \<Rightarrow>
          (case advance_task_head (pr_task_id prop) (ts_revision s) (commit_change d n now) st1 of
             Inl IntegrityError \<Rightarrow> Inr (False, st1)
           | r \<Rightarrow> r))"

text \<open>The transition part of the commit: what is decided in the end and the resulting revision.\<close>

definition commit_transition ::
  "hashes \<Rightarrow> task_state_proposal \<Rightarrow> task_state \<Rightarrow> policy_decision \<Rightarrow> timestamp \<Rightarrow> store \<Rightarrow>
   task_error + store \<times> policy_decision \<times> int option" where
  "commit_transition H prop s d now st =
     (if accepted d then
        (case pd_next_state d of
           None \<Rightarrow> Inl AssertionError
         | Some n \<Rightarrow>
             bind_res (try_advance H prop s d n now st) (\<lambda>(advanced, st1).
               if \<not> advanced then Inr (st1, conflict_decision, None)
               else bind_res (insert_all_provenance (transition_provenance prop (ts_revision n) s n now) st1)
                      (\<lambda>st2. Inr (st2, d, Some (ts_revision n)))))
      else Inr (st, d, if pd_outcome d = NO_CHANGE then Some (ts_revision s) else None))"

definition typed_decision ::
  "hashes \<Rightarrow> task_state_proposal \<Rightarrow> policy_decision \<Rightarrow> int option \<Rightarrow> timestamp \<Rightarrow> transition_decision" where
  "typed_decision H prop d resulting now =
     \<lparr>td_decision_id = ''decision_'' @ take 32 (sha_decision H (pr_proposal_id prop) now),
      td_proposal_id = pr_proposal_id prop, td_task_id = pr_task_id prop, td_scope = pr_scope prop,
      td_outcome = pd_outcome d, td_reason_codes = pd_reason_codes d, td_base_revision = pr_base_revision prop,
      td_resulting_revision = resulting, td_decided_at = now, td_decided_by = ''atmem-authority'',
      td_assurance = pd_effective_assurance d, td_evidence = pr_evidence prop, td_guards = pd_guards d,
      td_replayed = False\<rparr>"

definition record_proposal ::
  "hashes \<Rightarrow> task_state_proposal \<Rightarrow> transition_decision \<Rightarrow> timestamp \<Rightarrow> store \<Rightarrow> task_error + store" where
  "record_proposal H prop typed now =
     insert_task_proposal
       \<lparr>pp_proposal_id = pr_proposal_id prop, pp_task_id = pr_task_id prop, pp_scope = pr_scope prop,
        pp_idempotency_key = pr_idempotency_key prop, pp_payload_sha256 = payload_digest H prop,
        pp_base_revision = pr_base_revision prop, pp_actor = pr_actor prop, pp_actor_role = pr_actor_role prop,
        pp_proposal = TaskStateProposal_to_dict prop, pp_decision = TransitionDecision_to_dict typed,
        pp_outcome = td_outcome typed, pp_resulting_revision = td_resulting_revision typed, pp_created_at = now\<rparr>"

definition commit_body ::
  "hashes \<Rightarrow> task_state_proposal \<Rightarrow> task_state \<Rightarrow> policy_decision \<Rightarrow> timestamp \<Rightarrow> timestamp \<Rightarrow> string \<Rightarrow> store \<Rightarrow>
   task_error + store \<times> transition_decision" where
  "commit_body H prop s d started now step_kind st =
     bind_res (commit_transition H prop s d now st) (\<lambda>(st1, d', resulting).
       let typed = typed_decision H prop d' resulting now in
       if \<not> TransitionDecision_ok typed then Inl (ContractError ValueError)
       else
         bind_res (case record_proposal H prop typed now st1 of
                     Inl IntegrityError \<Rightarrow> Inl (TaskStateError ''task_not_eligible'')
                   | r \<Rightarrow> r) (\<lambda>st2.
         bind_res (insert_task_step
           ((step (pr_task_id prop) step_kind (pd_outcome d') (pr_base_revision prop) resulting
               (pd_reason_codes d') (pr_actor prop) now)
              \<lparr>sp_proposal_id := Some (pr_proposal_id prop), sp_action_fingerprint := pr_action_fingerprint prop,
               sp_duration_ms := elapsed_ms started now\<rparr>) st2) (\<lambda>st3.
           Inr (st3, typed))))"

definition commit ::
  "hashes \<Rightarrow> task_state_proposal \<Rightarrow> task_state \<Rightarrow> policy_decision \<Rightarrow> timestamp \<Rightarrow> timestamp \<Rightarrow> string \<Rightarrow> store \<Rightarrow>
   transition_decision outcome" where
  "commit H prop s d started now step_kind = transaction (commit_body H prop s d started now step_kind)"

definition submit ::
  "hashes \<Rightarrow> clock \<Rightarrow> task_state_proposal \<Rightarrow> bool \<Rightarrow> string \<Rightarrow> store \<Rightarrow> transition_decision outcome" where
  "submit H clk prop allow_privileged step_kind st =
     (case submit_prepare H clk prop allow_privileged st of
        (st', Inl e) \<Rightarrow> (st', Inl e)
      | (st', Inr (Replayed d)) \<Rightarrow> (st', Inr d)
      | (st', Inr (Ready v d)) \<Rightarrow> commit H prop (tv_state v) d (clk 0) (clk 4) step_kind st')"

definition correct ::
  "hashes \<Rightarrow> clock \<Rightarrow> task_state_proposal \<Rightarrow> string \<Rightarrow> store \<Rightarrow> transition_decision outcome" where
  "correct H clk prop reason st =
     (case require (pr_actor_role prop) ''correct_state'' of
        Inl e \<Rightarrow> (st, Inl e)
      | Inr _ \<Rightarrow>
          if py_strip reason = [] then (st, Inl (TaskStateError ''reason_required''))
          else submit H clk (prop\<lparr>pr_reason := Some reason\<rparr>) True ''operator_correction'' st)"

section \<open>Forgetting\<close>

record deletion_receipt =
  de_task_id :: string
  de_deleted :: bool
  de_removed :: "(string \<times> nat) list"
  de_revisions_removed :: nat

definition forget ::
  "authority_scope \<Rightarrow> string \<Rightarrow> actor_role \<Rightarrow> store \<Rightarrow> deletion_receipt outcome" where
  "forget sc k role st =
     (case require role ''delete_state'' of
        Inl e \<Rightarrow> (st, Inl e)
      | Inr _ \<Rightarrow>
          (case require_task st sc k of
             Inl e \<Rightarrow> (st, Inl e)
           | Inr _ \<Rightarrow>
               (case delete_task sc k st of
                  (st', deleted, removed) \<Rightarrow>
                    (st', Inr \<lparr>de_task_id = k, de_deleted = deleted, de_removed = removed,
                               de_revisions_removed = length (list_task_revisions st k 200)\<rparr>))))"

end
