(* ===== verification/Service_Invariant.thy ===== *)
theory Service_Invariant
  imports Task_Service
begin

text \<open>
  What each write of the service changes, the invariant of the store (every task has an unbroken chain of
  valid, correctly digested snapshots ending at its head, and rows of the ledgers belong to a task), and
  that every operation of the service keeps it, whatever roles, clocks and interleavings of commits occur.
\<close>

section \<open>What the writes change\<close>

lemma has_task_cong: "st_tasks st' = st_tasks st \<Longrightarrow> has_task st' k \<longleftrightarrow> has_task st k"
  by (simp add: has_task_def)

lemma insert_task_step_Inr:
  "insert_task_step r st = Inr st' \<Longrightarrow>
     has_task st (sp_task_id r) \<and> (\<exists>x. sp_task_id x = sp_task_id r \<and> sp_outcome x = sp_outcome r \<and>
       sp_proposal_id x = sp_proposal_id r \<and> sp_base_revision x = sp_base_revision r \<and>
       sp_resulting_revision x = sp_resulting_revision r \<and>
       st' = st\<lparr>st_steps := st_steps st @ [x], st_next_id := st_next_id st + 1\<rparr>)"
  by (auto simp: insert_task_step_def split: if_splits
      intro!: exI [of _ "r\<lparr>sp_step_id := new_id ''step'' st, sp_duration_ms := max 0 (sp_duration_ms r),
                        sp_sequence := next_step_sequence st (sp_task_id r)\<rparr>"])

lemma insert_task_provenance_Inr:
  "insert_task_provenance r st = Inr st' \<Longrightarrow>
     has_task st (pv_task_id r) \<and> (\<exists>x. pv_task_id x = pv_task_id r \<and>
       st' = st\<lparr>st_provenance := st_provenance st @ [x], st_next_id := st_next_id st + 1\<rparr>)"
  by (auto simp: insert_task_provenance_def split: if_splits
      intro!: exI [of _ "r\<lparr>pv_provenance_id := new_id ''prov'' st\<rparr>"])

lemma insert_all_provenance_Inr:
  assumes "insert_all_provenance rows st = Inr st'"
  shows "\<exists>xs n. map pv_task_id xs = map pv_task_id rows \<and> (\<forall>r\<in>set rows. has_task st (pv_task_id r)) \<and>
     st' = st\<lparr>st_provenance := st_provenance st @ xs, st_next_id := n\<rparr>"
  using assms unfolding insert_all_provenance_def
proof (induction rows arbitrary: st)
  case Nil
  then show ?case by (intro exI [of _ "[]"] exI [of _ "st_next_id st"]) simp
next
  case (Cons r rows)
  from Cons.prems obtain u where u: "insert_task_provenance r st = Inr u"
    and rest: "fold_res insert_task_provenance rows u = Inr st'" by auto
  from insert_task_provenance_Inr [OF u] obtain x where x: "has_task st (pv_task_id r)" "pv_task_id x = pv_task_id r"
    "u = st\<lparr>st_provenance := st_provenance st @ [x], st_next_id := st_next_id st + 1\<rparr>" by blast
  from Cons.IH [OF rest] obtain xs n where "map pv_task_id xs = map pv_task_id rows"
    "\<forall>r\<in>set rows. has_task u (pv_task_id r)" "st' = u\<lparr>st_provenance := st_provenance u @ xs, st_next_id := n\<rparr>" by blast
  with x show ?case
    by (intro exI [of _ "x # xs"] exI [of _ n]) (auto simp: has_task_def)
qed

lemma insert_task_revision_Inr:
  "insert_task_revision r st = Inr st' \<longleftrightarrow>
     \<not> (\<exists>x\<in>set (st_revisions st). rr_task_id x = rr_task_id r \<and> rr_revision x = rr_revision r) \<and>
     (rr_parent_revision r = None \<or>
      \<not> (\<exists>x\<in>set (st_revisions st). rr_task_id x = rr_task_id r \<and> rr_parent_revision x = rr_parent_revision r)) \<and>
     1 \<le> rr_revision r \<and> has_task st (rr_task_id r) \<and> st' = st\<lparr>st_revisions := st_revisions st @ [r]\<rparr>"
  by (auto simp: insert_task_revision_def list_ex_iff)

lemma insert_task_revision_Inl: "insert_task_revision r st = Inl e \<Longrightarrow> e = IntegrityError"
  by (auto simp: insert_task_revision_def split: if_splits)

interpretation head_upd: key_update tr_task_id "change_head c" for c
  by unfold_locales (simp add: change_head_def)

lemma advance_task_head_True:
  "advance_task_head k b c st = Inr (True, st') \<longleftrightarrow>
     (\<exists>r. lookup_by tr_task_id k (st_tasks st) = Some r \<and> tr_head_revision r = b \<and> 1 \<le> hc_new_head c \<and>
          0 \<le> tr_no_progress_paused_ms r + hc_add_paused_ms c \<and>
          st' = st\<lparr>st_tasks := replace_by tr_task_id k (change_head c) (st_tasks st)\<rparr>)"
  by (auto simp: advance_task_head_def not_le split: option.splits)

lemma advance_task_head_False: "advance_task_head k b c st = Inr (False, st') \<Longrightarrow> st' = st"
  by (auto simp: advance_task_head_def split: option.splits if_splits)

lemma has_task_replace [simp]:
  "has_task (st\<lparr>st_tasks := replace_by tr_task_id k (change_head c) (st_tasks st)\<rparr>) j \<longleftrightarrow> has_task st j"
  by (simp add: has_task_def head_upd.key_image_replace)

section \<open>The invariant of the store\<close>

text \<open>The revisions of a task: numbered from one, each the child of the one before.\<close>

definition numbered :: "revision_row list \<Rightarrow> bool" where
  "numbered rs \<longleftrightarrow>
     map rr_revision rs = map (\<lambda>i. int i + 1) [0..<length rs] \<and>
     map rr_parent_revision rs = map (\<lambda>i. if i = 0 then None else Some (int i)) [0..<length rs]"

text \<open>A stored revision is the faithful encoding of a valid snapshot of its task, with its digests.\<close>

definition snapshot_ok :: "hashes \<Rightarrow> task_row \<Rightarrow> revision_row \<Rightarrow> task_state \<Rightarrow> bool" where
  "snapshot_ok H r v s \<longleftrightarrow>
     rr_state v = TaskState_to_dict s \<and> state_valid s \<and> ts_task_id s = tr_task_id r \<and> ts_scope s = tr_scope r \<and>
     ts_profile_version s = tr_profile_version r \<and> ts_revision s = rr_revision v \<and>
     ts_parent_revision s = rr_parent_revision v \<and>
     rr_state_sha256 v = state_digest H s \<and> rr_semantic_sha256 v = semantic_digest H s"

definition history_ok :: "hashes \<Rightarrow> task_row \<Rightarrow> revision_row list \<Rightarrow> bool" where
  "history_ok H r rs \<longleftrightarrow>
     rs \<noteq> [] \<and> numbered rs \<and> tr_head_revision r = int (length rs) \<and>
     (\<forall>v\<in>set (butlast rs). \<exists>s. snapshot_ok H r v s \<and> \<not> lifecycle_terminal (ts_lifecycle s)) \<and>
     (\<exists>s. snapshot_ok H r (last rs) s \<and> ts_lifecycle s = tr_lifecycle r)"

definition row_fields_ok :: "task_row \<Rightarrow> bool" where
  "row_fields_ok r \<longleftrightarrow>
     (tr_paused_at r \<noteq> None \<longleftrightarrow> tr_lifecycle r = PAUSED) \<and>
     (tr_terminal_reason r \<noteq> None \<longleftrightarrow> lifecycle_terminal (tr_lifecycle r)) \<and>
     0 \<le> tr_no_progress_paused_ms r"

text \<open>The pause accounting of a row agrees with a pass over its revisions.\<close>

definition pause_next :: "revision_row \<Rightarrow> timestamp option \<times> int \<Rightarrow> timestamp option \<times> int" where
  "pause_next v p =
     (case p of
        (None, acc) \<Rightarrow> (if revision_lifecycle v = ''paused'' then Some (rr_created_at v) else None, acc)
      | (Some t, acc) \<Rightarrow>
          if revision_lifecycle v = ''paused'' then (Some t, acc) else (None, acc + elapsed_ms t (rr_created_at v)))"

lemma pause_loop_fold: "pause_loop rs since acc = snd (fold pause_next rs (since, acc))"
  by (induction rs arbitrary: since acc) (auto simp: pause_next_def split: option.splits)

definition pause_of :: "task_row \<Rightarrow> timestamp option \<times> int" where
  "pause_of r = (tr_paused_at r, tr_no_progress_paused_ms r)"

definition row_ok :: "hashes \<Rightarrow> store \<Rightarrow> task_row \<Rightarrow> bool" where
  "row_ok H st r \<longleftrightarrow>
     history_ok H r (task_revisions st (tr_task_id r)) \<and> row_fields_ok r \<and>
     fold pause_next (task_revisions st (tr_task_id r)) (None, 0) = pause_of r \<and>
     (\<exists>p. registry_require st (tr_profile_version r) = Inr p)"

definition refs_ok :: "store \<Rightarrow> bool" where
  "refs_ok st \<longleftrightarrow>
     (\<forall>v\<in>set (st_revisions st). has_task st (rr_task_id v)) \<and>
     (\<forall>v\<in>set (st_provenance st). has_task st (pv_task_id v)) \<and>
     (\<forall>v\<in>set (st_proposals st). has_task st (pp_task_id v)) \<and>
     (\<forall>v\<in>set (st_steps st). has_task st (sp_task_id v)) \<and>
     (\<forall>v\<in>set (st_deliveries st). has_task st (dl_task_id v))"

text \<open>A registered profile is readable under the version it is stored by.\<close>

definition profiles_ok :: "profile_row list \<Rightarrow> bool" where
  "profiles_ok qs \<longleftrightarrow> (\<forall>q\<in>set qs. \<exists>p. TaskProfile_from_dict (pl_profile q) = Inr p \<and> pf_version p = pl_version q)"

definition store_ok :: "hashes \<Rightarrow> store \<Rightarrow> bool" where
  "store_ok H st \<longleftrightarrow>
     distinct (map tr_task_id (st_tasks st)) \<and> (\<forall>r\<in>set (st_tasks st). row_ok H st r) \<and> refs_ok st \<and>
     profiles_ok (st_profiles st)"

lemma empty_store_ok: "store_ok H empty_store"
  by (simp add: store_ok_def refs_ok_def profiles_ok_def empty_store_def)

lemma numbered_snoc:
  "numbered (rs @ [v]) \<longleftrightarrow>
     numbered rs \<and> rr_revision v = int (length rs) + 1 \<and>
     rr_parent_revision v = (if rs = [] then None else Some (int (length rs)))"
  by (auto simp: numbered_def)

lemma numbered_nth:
  assumes "numbered rs" "i < length rs"
  shows "rr_revision (rs ! i) = int i + 1" "rr_parent_revision (rs ! i) = (if i = 0 then None else Some (int i))"
  using assms nth_map [of i rs rr_revision] nth_map [of i rs rr_parent_revision]
  by (auto simp: numbered_def)

lemma numbered_revision_bounds:
  assumes "numbered rs" "v \<in> set rs"
  shows "1 \<le> rr_revision v \<and> rr_revision v \<le> int (length rs)"
proof -
  obtain i where "i < length rs" "v = rs ! i" using assms(2) by (auto simp: in_set_conv_nth)
  then show ?thesis using numbered_nth(1) [OF assms(1)] by simp
qed

lemma numbered_has:
  assumes "numbered rs" "1 \<le> n" "n \<le> int (length rs)"
  shows "\<exists>v\<in>set rs. rr_revision v = n"
  using assms numbered_nth(1) [OF assms(1), of "nat (n - 1)"]
  by (intro bexI [of _ "rs ! nat (n - 1)"]) auto

section \<open>Reading under the invariant\<close>

lemma get_task_SomeD:
  "get_task st sc k = Some r \<Longrightarrow> r \<in> set (st_tasks st) \<and> tr_task_id r = k \<and> tr_scope r = sc"
  unfolding get_task_def find_Some_iff by (auto simp: in_set_conv_nth)

lemma get_task_lookup:
  assumes "distinct (map tr_task_id (st_tasks st))"
  shows "get_task st sc k = Some r \<longleftrightarrow> lookup_by tr_task_id k (st_tasks st) = Some r \<and> tr_scope r = sc"
proof
  assume "get_task st sc k = Some r"
  then show "lookup_by tr_task_id k (st_tasks st) = Some r \<and> tr_scope r = sc"
    using get_task_SomeD lookup_by_Some_distinct [OF assms] by metis
next
  assume "lookup_by tr_task_id k (st_tasks st) = Some r \<and> tr_scope r = sc"
  then show "get_task st sc k = Some r"
    using find_lookup [of tr_task_id k "st_tasks st" r "\<lambda>r. tr_scope r = sc"]
    by (simp add: get_task_def conj_commute)
qed

lemma get_task_revision_eq:
  "get_task_revision st k n = lookup_by rr_revision n (task_revisions st k)"
  unfolding get_task_revision_def task_revisions_def by (rule find_filter)

text \<open>What a view of a stored row shows.\<close>

definition shows_head :: "task_row \<Rightarrow> task_state \<Rightarrow> bool" where
  "shows_head r s \<longleftrightarrow>
     state_valid s \<and> ts_task_id s = tr_task_id r \<and> ts_scope s = tr_scope r \<and>
     ts_profile_version s = tr_profile_version r \<and> ts_revision s = tr_head_revision r \<and>
     ts_lifecycle s = tr_lifecycle r"

lemma numbered_distinct: "numbered rs \<Longrightarrow> distinct (map rr_revision rs)"
  by (auto simp: numbered_def distinct_map inj_on_def)

lemma numbered_last: "numbered rs \<Longrightarrow> rs \<noteq> [] \<Longrightarrow> rr_revision (last rs) = int (length rs)"
  by (cases rs rule: rev_cases) (simp_all add: numbered_snoc)

lemma head_revision_lookup:
  assumes "history_ok H r rs"
  shows "lookup_by rr_revision (tr_head_revision r) rs = Some (last rs)"
proof -
  have n: "numbered rs" "rs \<noteq> []" "tr_head_revision r = int (length rs)"
    using assms by (auto simp: history_ok_def)
  have "rr_revision (last rs) = int (length rs)"
    using numbered_last n by blast
  then show ?thesis
    using n lookup_by_Some_distinct [OF numbered_distinct [OF n(1)]] by simp
qed

lemma view_ok:
  assumes "store_ok H st" and "r \<in> set (st_tasks st)"
  obtains v where "view_of st r = Inr v" "tv_task v = r" "shows_head r (tv_state v)"
    "registry_require st (tr_profile_version r) = Inr (tv_profile v)"
    "snapshot_ok H r (last (task_revisions st (tr_task_id r))) (tv_state v)"
proof -
  from assms have row: "history_ok H r (task_revisions st (tr_task_id r))"
    and "\<exists>p. registry_require st (tr_profile_version r) = Inr p" by (auto simp: store_ok_def row_ok_def)
  then obtain p where p: "registry_require st (tr_profile_version r) = Inr p" by blast
  let ?rs = "task_revisions st (tr_task_id r)"
  from row obtain s where s: "snapshot_ok H r (last ?rs) s" "ts_lifecycle s = tr_lifecycle r"
    and head: "tr_head_revision r = int (length ?rs)" "numbered ?rs" "?rs \<noteq> []" by (auto simp: history_ok_def)
  have rev: "rr_revision (last ?rs) = tr_head_revision r"
    using numbered_last head by simp
  have "view_of st r = Inr \<lparr>tv_task = r, tv_state = s, tv_profile = p, tv_summary = summarize s p\<rparr>"
    using s(1) p head_revision_lookup [OF row]
    by (simp add: view_of_def get_task_revision_eq lift_py_def snapshot_ok_def state_roundtrip)
  then show thesis
    using s p rev by (intro that) (auto simp: shows_head_def snapshot_ok_def)
qed

lemma require_task_Inr:
  "require_task st sc k = Inr r \<Longrightarrow> r \<in> set (st_tasks st) \<and> tr_task_id r = k \<and> tr_scope r = sc"
  by (auto simp: require_task_def split: option.splits dest: get_task_SomeD)

section \<open>Appending a revision keeps the invariant\<close>

lemma registry_require_cong: "st_profiles st' = st_profiles st \<Longrightarrow> registry_require st' v = registry_require st v"
  unfolding registry_require_def registry_get_def get_task_profile_def by (simp only:)

lemma snapshot_ok_cong:
  "tr_task_id r' = tr_task_id r \<Longrightarrow> tr_scope r' = tr_scope r \<Longrightarrow> tr_profile_version r' = tr_profile_version r \<Longrightarrow>
     snapshot_ok H r' v s \<longleftrightarrow> snapshot_ok H r v s"
  by (simp add: snapshot_ok_def)

lemma change_head_fields [simp]:
  "tr_task_id (change_head c r) = tr_task_id r" "tr_scope (change_head c r) = tr_scope r"
  "tr_profile_version (change_head c r) = tr_profile_version r" "tr_goal (change_head c r) = tr_goal r"
  "tr_head_revision (change_head c r) = hc_new_head c" "tr_created_at (change_head c r) = tr_created_at r"
  "tr_expiry_rule (change_head c r) = tr_expiry_rule r"
  by (simp_all add: change_head_def)

lemma task_revisions_snoc:
  assumes "st_revisions st' = st_revisions st @ [v]"
  shows "task_revisions st' k = task_revisions st k @ (if rr_task_id v = k then [v] else [])"
  using assms by (simp add: task_revisions_def)

lemma history_ok_snoc:
  assumes hist: "history_ok H r rs" and live: "\<not> lifecycle_terminal (tr_lifecycle r)"
    and new: "snapshot_ok H r v n" "rr_revision v = tr_head_revision r + 1"
      "rr_parent_revision v = Some (tr_head_revision r)"
    and r': "tr_task_id r' = tr_task_id r" "tr_scope r' = tr_scope r"
      "tr_profile_version r' = tr_profile_version r" "tr_head_revision r' = tr_head_revision r + 1"
      "tr_lifecycle r' = ts_lifecycle n"
  shows "history_ok H r' (rs @ [v])"
proof -
  have rs: "rs \<noteq> []" "tr_head_revision r = int (length rs)" using hist by (auto simp: history_ok_def)
  have "\<exists>s. snapshot_ok H r u s \<and> \<not> lifecycle_terminal (ts_lifecycle s)" if "u \<in> set rs" for u
  proof -
    have "u \<in> set (butlast rs) \<or> u = last rs" using that rs(1) by (metis append_butlast_last_id in_set_conv_decomp
          set_append Un_iff list.set_intros(1) rotate1.simps(2) set_ConsD set_rotate1)
    then show ?thesis using hist live by (auto simp: history_ok_def)
  qed
  moreover have "snapshot_ok H r' u s \<longleftrightarrow> snapshot_ok H r u s" for u s using r' by (intro snapshot_ok_cong)
  ultimately show ?thesis
    using hist new r' rs by (auto simp: history_ok_def numbered_snoc)
qed

lemma store_ok_append_revision:
  assumes ok: "store_ok H st" and r: "lookup_by tr_task_id k (st_tasks st) = Some r"
    and live: "\<not> lifecycle_terminal (tr_lifecycle r)"
    and v: "snapshot_ok H r v n" "rr_task_id v = k" "rr_revision v = tr_head_revision r + 1"
      "rr_parent_revision v = Some (tr_head_revision r)"
    and c: "hc_new_head c = tr_head_revision r + 1" "tr_lifecycle (change_head c r) = ts_lifecycle n"
      "row_fields_ok (change_head c r)" "pause_next v (pause_of r) = pause_of (change_head c r)"
    and st': "st_tasks st' = replace_by tr_task_id k (change_head c) (st_tasks st)"
      "st_revisions st' = st_revisions st @ [v]" "st_profiles st' = st_profiles st" "refs_ok st'"
  shows "store_ok H st'"
proof -
  have dist: "distinct (map tr_task_id (st_tasks st))" using ok by (simp add: store_ok_def)
  have rin: "r \<in> set (st_tasks st)" "tr_task_id r = k" using lookup_by_SomeD [OF r] by auto
  have "row_ok H st' x" if x: "x \<in> set (st_tasks st')" for x
  proof (cases "tr_task_id x = k")
    case True
    then have "lookup_by tr_task_id k (st_tasks st') = Some x"
      using x dist st'(1) by (simp add: lookup_by_Some_distinct head_upd.distinct_replace)
    then have eq: "x = change_head c r" using r st'(1) by (simp add: head_upd.lookup_replace)
    have "row_ok H st r" using ok rin by (simp add: store_ok_def)
    then show ?thesis
      using True rin live v c st'(3) history_ok_snoc [of H r "task_revisions st k" v n "change_head c r"]
      by (auto simp: row_ok_def eq task_revisions_snoc [OF st'(2)] registry_require_cong [OF st'(3)])
  next
    case False
    then have "x \<in> set (st_tasks st)" using x st'(1) rin(2) by (auto simp: set_replace_by split: if_splits)
    then have "row_ok H st x" using ok by (simp add: store_ok_def)
    then show ?thesis
      using False v(2) by (simp add: row_ok_def task_revisions_snoc [OF st'(2)] registry_require_cong [OF st'(3)])
  qed
  then show ?thesis using dist ok st'(1,3,4) by (simp add: store_ok_def head_upd.distinct_replace)
qed

lemma elapsed_ms_nonneg [simp]: "0 \<le> elapsed_ms a b"
  by (simp add: elapsed_ms_def)

text \<open>Rows of one task added to the ledgers, the set of tasks unchanged.\<close>

definition extends_task :: "string \<Rightarrow> store \<Rightarrow> store \<Rightarrow> bool" where
  "extends_task k st st' \<longleftrightarrow>
     tr_task_id ` set (st_tasks st') = tr_task_id ` set (st_tasks st) \<and>
     (\<exists>vs. st_revisions st' = st_revisions st @ vs \<and> (\<forall>v\<in>set vs. rr_task_id v = k)) \<and>
     (\<exists>vs. st_provenance st' = st_provenance st @ vs \<and> (\<forall>v\<in>set vs. pv_task_id v = k)) \<and>
     (\<exists>vs. st_steps st' = st_steps st @ vs \<and> (\<forall>v\<in>set vs. sp_task_id v = k)) \<and>
     (\<exists>vs. st_proposals st' = st_proposals st @ vs \<and> (\<forall>v\<in>set vs. pp_task_id v = k)) \<and>
     st_deliveries st' = st_deliveries st \<and> st_bindings st' = st_bindings st \<and>
     st_profiles st' = st_profiles st \<and> st_audit st' = st_audit st"

lemma refs_ok_extends:
  assumes "refs_ok st" and "extends_task k st st'" and "has_task st k"
  shows "refs_ok st'"
  using assms by (auto simp: refs_ok_def extends_task_def has_task_def)

lemma write_revision_Inr:
  assumes "write_revision H s actor role reasons evidence at progress st = Inr st'"
  obtains v where "st' = st\<lparr>st_revisions := st_revisions st @ [v]\<rparr>" "rr_task_id v = ts_task_id s"
    "rr_revision v = ts_revision s" "rr_parent_revision v = ts_parent_revision s"
    "rr_state v = TaskState_to_dict s" "rr_state_sha256 v = state_digest H s"
    "rr_semantic_sha256 v = semantic_digest H s" "rr_created_at v = at" "rr_is_progress v = progress"
    "rr_actor v = actor" "rr_actor_role v = role"
  using assms by (auto simp: write_revision_def insert_task_revision_Inr)

lemma lifecycle_body_Inr:
  assumes "lifecycle_body H r s target actor role reason rule now st = Inr (st', u)"
    and "shows_head r s" and "lookup_by tr_task_id (tr_task_id r) (st_tasks st) = Some r"
  obtains v where
    "st_tasks st' = replace_by tr_task_id (tr_task_id r) (change_head (lifecycle_change r s target reason now)) (st_tasks st)"
    "st_revisions st' = st_revisions st @ [v]" "extends_task (tr_task_id r) st st'"
    "rr_task_id v = tr_task_id r" "rr_revision v = ts_revision s + 1" "rr_parent_revision v = Some (ts_revision s)"
    "rr_state v = TaskState_to_dict (lifecycle_state s target now)"
    "rr_state_sha256 v = state_digest H (lifecycle_state s target now)"
    "rr_semantic_sha256 v = semantic_digest H (lifecycle_state s target now)"
    "rr_created_at v = now" "rr_is_progress v = False" "rr_actor_role v = role"
proof -
  let ?c = "lifecycle_change r s target reason now" and ?n = "lifecycle_state s target now"
  from assms(1) obtain st1 st2 st3 pr sp where
    w: "write_revision H ?n actor role [''lifecycle_change_accepted''] (rule_evidence rule) now False st = Inr st1"
    and a: "advance_task_head (tr_task_id r) (ts_revision s) ?c st1 = Inr (True, st2)"
    and p: "insert_task_provenance pr st2 = Inr st3" "pv_task_id pr = tr_task_id r"
    and t: "insert_task_step sp st3 = Inr st'" "sp_task_id sp = tr_task_id r"
    by (auto simp: lifecycle_body_def Let_def provenance_def step_def split: if_splits prod.splits)
  from w obtain v where v: "st1 = st\<lparr>st_revisions := st_revisions st @ [v]\<rparr>" "rr_task_id v = ts_task_id ?n"
    "rr_revision v = ts_revision ?n" "rr_parent_revision v = ts_parent_revision ?n"
    "rr_state v = TaskState_to_dict ?n" "rr_state_sha256 v = state_digest H ?n"
    "rr_semantic_sha256 v = semantic_digest H ?n" "rr_created_at v = now" "rr_is_progress v = False"
    "rr_actor_role v = role" by (rule write_revision_Inr)
  have st2: "st2 = st1\<lparr>st_tasks := replace_by tr_task_id (tr_task_id r) (change_head ?c) (st_tasks st1)\<rparr>"
    using a by (auto simp: advance_task_head_True)
  obtain x where x: "st3 = st2\<lparr>st_provenance := st_provenance st2 @ [x], st_next_id := st_next_id st2 + 1\<rparr>"
    "pv_task_id x = tr_task_id r" using insert_task_provenance_Inr [OF p(1)] p(2) by auto
  obtain y where y: "st' = st3\<lparr>st_steps := st_steps st3 @ [y], st_next_id := st_next_id st3 + 1\<rparr>"
    "sp_task_id y = tr_task_id r" using insert_task_step_Inr [OF t(1)] t(2) by auto
  have k: "ts_task_id s = tr_task_id r" using assms(2) by (simp add: shows_head_def)
  have "extends_task (tr_task_id r) st st'"
    using v(1,2) st2 x y k
    by (simp add: extends_task_def head_upd.key_image_replace lifecycle_state_def)
  then show thesis
    using v st2 x y k by (intro that [of v]) (simp_all add: lifecycle_state_def)
qed

lemma lifecycle_change_fields:
  assumes "row_fields_ok r" and "\<not> lifecycle_terminal (tr_lifecycle r)" and "tr_lifecycle r \<noteq> target"
  shows "row_fields_ok (change_head (lifecycle_change r s target reason now) r)"
    "tr_lifecycle (change_head (lifecycle_change r s target reason now) r) = target"
  using assms
  by (auto simp: row_fields_ok_def change_head_def lifecycle_change_def or_keep_def lifecycle_terminal_def
      split: option.splits)

lemma revision_lifecycle_paused:
  "rr_state v = TaskState_to_dict n \<Longrightarrow> revision_lifecycle v = ''paused'' \<longleftrightarrow> ts_lifecycle n = PAUSED"
  by (cases "ts_lifecycle n") (simp_all add: revision_lifecycle_def TaskState_to_dict_def)

lemma lifecycle_change_pause:
  assumes "row_fields_ok r" and "tr_lifecycle r \<noteq> target"
    and "rr_state v = TaskState_to_dict (lifecycle_state s target now)" and "rr_created_at v = now"
  shows "pause_next v (pause_of r) = pause_of (change_head (lifecycle_change r s target reason now) r)"
proof -
  have "revision_lifecycle v = ''paused'' \<longleftrightarrow> target = PAUSED"
    using revision_lifecycle_paused [OF assms(3)] by (simp add: lifecycle_state_def)
  then show ?thesis
    using assms(1,2,4)
    by (auto simp: pause_next_def pause_of_def change_head_def lifecycle_change_def row_fields_ok_def split: option.splits)
qed

lemma lifecycle_state_valid:
  "state_valid s \<Longrightarrow> TaskState_ok (lifecycle_state s target now) \<Longrightarrow> state_valid (lifecycle_state s target now)"
  by (simp add: state_valid_def lifecycle_state_def)

lemma lifecycle_snapshot_ok:
  assumes s: "shows_head r s" and valid: "TaskState_ok (lifecycle_state s target now)"
    and v: "rr_revision v = ts_revision s + 1" "rr_parent_revision v = Some (ts_revision s)"
      "rr_state v = TaskState_to_dict (lifecycle_state s target now)"
      "rr_state_sha256 v = state_digest H (lifecycle_state s target now)"
      "rr_semantic_sha256 v = semantic_digest H (lifecycle_state s target now)"
  shows "snapshot_ok H r v (lifecycle_state s target now)"
proof -
  have "state_valid (lifecycle_state s target now)"
    using lifecycle_state_valid [OF _ valid] s by (simp add: shows_head_def)
  then show ?thesis using s v by (simp add: snapshot_ok_def shows_head_def lifecycle_state_def)
qed

lemma lifecycle_body_ok:
  assumes ok: "store_ok H st" and r: "lookup_by tr_task_id (tr_task_id r) (st_tasks st) = Some r"
    and s: "shows_head r s" and live: "\<not> lifecycle_terminal (tr_lifecycle r)" "tr_lifecycle r \<noteq> target"
    and valid: "TaskState_ok (lifecycle_state s target now)"
    and body: "lifecycle_body H r s target actor role reason rule now st = Inr (st', u)"
  shows "store_ok H st'"
  using body s r
proof (rule lifecycle_body_Inr)
  fix v
  assume t: "st_tasks st' = replace_by tr_task_id (tr_task_id r) (change_head (lifecycle_change r s target reason now)) (st_tasks st)"
    and v: "st_revisions st' = st_revisions st @ [v]" "extends_task (tr_task_id r) st st'"
    "rr_task_id v = tr_task_id r" "rr_revision v = ts_revision s + 1" "rr_parent_revision v = Some (ts_revision s)"
    "rr_state v = TaskState_to_dict (lifecycle_state s target now)"
    "rr_state_sha256 v = state_digest H (lifecycle_state s target now)"
    "rr_semantic_sha256 v = semantic_digest H (lifecycle_state s target now)" "rr_created_at v = now"
  have rin: "r \<in> set (st_tasks st)" using lookup_by_SomeD [OF r] by simp
  then have fields: "row_fields_ok r" using ok by (simp add: store_ok_def row_ok_def)
  have head: "ts_revision s = tr_head_revision r" using s by (simp add: shows_head_def)
  have "refs_ok st" "has_task st (tr_task_id r)" using ok rin by (auto simp: store_ok_def has_task_def)
  then have "refs_ok st'" using refs_ok_extends v(2) by blast
  moreover have "snapshot_ok H r v (lifecycle_state s target now)"
    using lifecycle_snapshot_ok [OF s valid v(4-8)] .
  moreover have "st_profiles st' = st_profiles st" using v(2) by (simp add: extends_task_def)
  moreover have "hc_new_head (lifecycle_change r s target reason now) = tr_head_revision r + 1"
    using head by (simp add: lifecycle_change_def)
  moreover have "tr_lifecycle (change_head (lifecycle_change r s target reason now) r) =
      ts_lifecycle (lifecycle_state s target now)"
    using lifecycle_change_fields(2) [OF fields live] by (simp add: lifecycle_state_def)
  ultimately show "store_ok H st'"
    using store_ok_append_revision [OF ok r live(1) _ v(3) _ _ _ _ _ _ t v(1)]
      lifecycle_change_fields(1) [OF fields live] lifecycle_change_pause [OF fields live(2) v(6,9)] head v(4,5) by simp
qed

section \<open>Committing a proposal\<close>

lemma evaluate_accepted_successor:
  assumes ev: "evaluate H s profile prop now known allow = Inr d" and acc: "accepted d" and valid: "state_valid s"
  obtains n where "pd_next_state d = Some n" "state_valid n" "ts_task_id n = ts_task_id s" "ts_scope n = ts_scope s"
    "ts_profile_version n = ts_profile_version s" "ts_revision n = ts_revision s + 1"
    "ts_parent_revision n = Some (ts_revision s)" "ts_lifecycle n = OPEN" "ts_lifecycle s = OPEN"
    "pr_task_id prop = ts_task_id s" "pr_scope prop = ts_scope s" "pr_base_revision prop = ts_revision s"
  using ev acc [unfolded accepted_def]
proof (rule evaluate_acceptedE)
  fix w b n
  assume pre: "precheck s prop known = None"
    and n: "apply_operations s (pr_operations prop) (ts_revision s + 1) now (Some (if b then now else ts_last_progress_at s)) = Inr n"
    and d: "d = \<lparr>pd_outcome = ACCEPTED, pd_reason_codes = [''transition_accepted''], pd_next_state = Some n,
          pd_is_progress = b, pd_guards = completion_guards n, pd_effective_assurance = pr_assurance prop\<rparr>"
  from n obtain e where "n = finish_draft s (ts_revision s + 1) now (Some (if b then now else ts_last_progress_at s)) e"
    by (auto simp: apply_operations_Inr)
  moreover have "state_valid n" using n valid by (rule apply_operations_valid)
  ultimately show thesis using precheck_None [OF pre] d by (intro that [of n]) simp_all
qed

lemma lookup_tasks_distinct:
  "store_ok H st \<Longrightarrow> lookup_by tr_task_id k (st_tasks st) = Some r \<longleftrightarrow> r \<in> set (st_tasks st) \<and> tr_task_id r = k"
  by (simp add: store_ok_def lookup_by_Some_distinct)

lemma has_task_lookup: "lookup_by tr_task_id k (st_tasks st) = Some r \<Longrightarrow> has_task st k"
  by (force simp: has_task_def dest: lookup_by_SomeD)

text \<open>A snapshot the store holds for its task.\<close>

definition stored_snapshot :: "hashes \<Rightarrow> store \<Rightarrow> task_state \<Rightarrow> bool" where
  "stored_snapshot H st s \<longleftrightarrow>
     (\<exists>r v. lookup_by tr_task_id (ts_task_id s) (st_tasks st) = Some r \<and>
            v \<in> set (task_revisions st (ts_task_id s)) \<and> snapshot_ok H r v s)"

lemma stored_snapshot_history:
  assumes ok: "store_ok H st" and st: "stored_snapshot H st s"
  obtains r where "lookup_by tr_task_id (ts_task_id s) (st_tasks st) = Some r"
    "history_ok H r (task_revisions st (ts_task_id s))" "row_fields_ok r"
    "state_valid s" "1 \<le> ts_revision s" "ts_revision s \<le> tr_head_revision r"
    "ts_revision s = tr_head_revision r \<Longrightarrow> shows_head r s"
proof -
  from st obtain r v where r: "lookup_by tr_task_id (ts_task_id s) (st_tasks st) = Some r"
    and v: "v \<in> set (task_revisions st (ts_task_id s))" "snapshot_ok H r v s" by (auto simp: stored_snapshot_def)
  have rk: "tr_task_id r = ts_task_id s" "r \<in> set (st_tasks st)" using lookup_by_SomeD [OF r] by auto
  then have hist: "history_ok H r (task_revisions st (ts_task_id s))" and fields: "row_fields_ok r"
    using ok by (auto simp: store_ok_def row_ok_def)
  let ?rs = "task_revisions st (ts_task_id s)"
  have n: "numbered ?rs" "?rs \<noteq> []" "tr_head_revision r = int (length ?rs)" using hist by (auto simp: history_ok_def)
  have b: "1 \<le> ts_revision s" "ts_revision s \<le> tr_head_revision r"
    using numbered_revision_bounds [OF n(1) v(1)] v(2) n(3) by (auto simp: snapshot_ok_def)
  have "shows_head r s" if eq: "ts_revision s = tr_head_revision r"
  proof -
    have "lookup_by rr_revision (tr_head_revision r) ?rs = Some v"
      using v eq lookup_by_Some_distinct [OF numbered_distinct [OF n(1)]] by (simp add: snapshot_ok_def)
    then have last: "v = last ?rs" using head_revision_lookup [OF hist] by simp
    obtain s' where s': "snapshot_ok H r (last ?rs) s'" "ts_lifecycle s' = tr_lifecycle r"
      using hist by (auto simp: history_ok_def)
    have enc: "TaskState_to_dict s' = TaskState_to_dict s" "state_valid s'" "state_valid s"
      using s'(1) v(2) last unfolding snapshot_ok_def by metis+
    have "Inr s' = (Inr s :: py_error + task_state)"
      using state_roundtrip [OF enc(2)] state_roundtrip [OF enc(3)] unfolding enc(1) by (rule trans [OF sym])
    then have "s' = s" by (rule Inr_inject)
    then show ?thesis using s'(2) v(2) eq unfolding shows_head_def snapshot_ok_def by metis
  qed
  then show thesis using r hist fields b v(2) by (intro that) (auto simp: snapshot_ok_def)
qed

lemma try_advance_True:
  assumes "try_advance H prop s d n now st = Inr (True, st1)"
  obtains v r where "lookup_by tr_task_id (pr_task_id prop) (st_tasks st) = Some r" "tr_head_revision r = ts_revision s"
    "st1 = st\<lparr>st_revisions := st_revisions st @ [v],
              st_tasks := replace_by tr_task_id (pr_task_id prop) (change_head (commit_change d n now)) (st_tasks st)\<rparr>"
    "rr_task_id v = ts_task_id n" "rr_revision v = ts_revision n" "rr_parent_revision v = ts_parent_revision n"
    "rr_state v = TaskState_to_dict n" "rr_state_sha256 v = state_digest H n" "rr_semantic_sha256 v = semantic_digest H n"
    "rr_created_at v = now" "rr_is_progress v = pd_is_progress d" "rr_actor_role v = pr_actor_role prop"
proof -
  from assms obtain u where
    w: "write_revision H n (pr_actor prop) (pr_actor_role prop) (pd_reason_codes d)
             (map EvidenceRef_to_dict (pr_evidence prop)) now (pd_is_progress d) st = Inr u"
    and a: "advance_task_head (pr_task_id prop) (ts_revision s) (commit_change d n now) u = Inr (True, st1)"
    by (auto simp: try_advance_def split: sum.splits task_error.splits)
  from w obtain v where v: "u = st\<lparr>st_revisions := st_revisions st @ [v]\<rparr>"
    "rr_task_id v = ts_task_id n" "rr_revision v = ts_revision n" "rr_parent_revision v = ts_parent_revision n"
    "rr_state v = TaskState_to_dict n" "rr_state_sha256 v = state_digest H n" "rr_semantic_sha256 v = semantic_digest H n"
    "rr_created_at v = now" "rr_is_progress v = pd_is_progress d" "rr_actor_role v = pr_actor_role prop"
    by (rule write_revision_Inr)
  from a obtain r where "lookup_by tr_task_id (pr_task_id prop) (st_tasks u) = Some r" "tr_head_revision r = ts_revision s"
    "st1 = u\<lparr>st_tasks := replace_by tr_task_id (pr_task_id prop) (change_head (commit_change d n now)) (st_tasks u)\<rparr>"
    by (auto simp: advance_task_head_True)
  with v show thesis by (intro that [of r v]) simp_all
qed

lemma try_advance_behind:
  assumes ok: "store_ok H st" and r: "lookup_by tr_task_id (ts_task_id n) (st_tasks st) = Some r"
    and n: "ts_revision n = ts_revision s + 1" and b: "1 \<le> ts_revision s" "ts_revision s < tr_head_revision r"
  shows "try_advance H prop s d n now st = Inr (False, st)"
proof -
  have rk: "tr_task_id r = ts_task_id n" "r \<in> set (st_tasks st)" using lookup_by_SomeD [OF r] by auto
  then have hist: "history_ok H r (task_revisions st (ts_task_id n))"
    using ok by (auto simp: store_ok_def row_ok_def)
  then have num: "numbered (task_revisions st (ts_task_id n))"
    "tr_head_revision r = int (length (task_revisions st (ts_task_id n)))" by (simp_all add: history_ok_def)
  obtain v where v: "v \<in> set (task_revisions st (ts_task_id n))" "rr_revision v = ts_revision s + 1"
    using numbered_has [OF num(1), of "ts_revision s + 1"] b num(2) by auto
  then have "list_ex (\<lambda>x. rr_task_id x = ts_task_id n \<and> rr_revision x = ts_revision s + 1) (st_revisions st)"
    by (auto simp: list_ex_iff task_revisions_def)
  then show ?thesis
    by (simp add: try_advance_def write_revision_def insert_task_revision_def n)
qed

lemma try_advance_fresh:
  assumes ok: "store_ok H st" and r: "lookup_by tr_task_id (ts_task_id n) (st_tasks st) = Some r"
    and n: "ts_revision n = tr_head_revision r + 1" "ts_parent_revision n = Some (tr_head_revision r)"
    and s: "ts_revision s = tr_head_revision r" and k: "pr_task_id prop = ts_task_id n"
  shows "\<exists>st1. try_advance H prop s d n now st = Inr (True, st1)"
proof -
  have rk: "tr_task_id r = ts_task_id n" "r \<in> set (st_tasks st)" using lookup_by_SomeD [OF r] by auto
  let ?rs = "task_revisions st (ts_task_id n)"
  have hist: "history_ok H r ?rs" and fields: "row_fields_ok r"
    using ok rk by (auto simp: store_ok_def row_ok_def)
  then have num: "numbered ?rs" "tr_head_revision r = int (length ?rs)" by (auto simp: history_ok_def)
  have new: "rr_revision v \<noteq> tr_head_revision r + 1 \<and> rr_parent_revision v \<noteq> Some (tr_head_revision r)"
    if v: "v \<in> set ?rs" for v
  proof -
    obtain i where "i < length ?rs" "v = ?rs ! i" using v by (auto simp: in_set_conv_nth)
    then show ?thesis using numbered_nth [OF num(1)] num(2) by auto
  qed
  have has: "has_task st (ts_task_id n)" using rk by (force simp: has_task_def)
  have no: "\<not> list_ex (\<lambda>x. rr_task_id x = ts_task_id n \<and> rr_revision x = tr_head_revision r + 1) (st_revisions st)"
    "\<not> list_ex (\<lambda>x. rr_task_id x = ts_task_id n \<and> rr_parent_revision x = Some (tr_head_revision r)) (st_revisions st)"
    using new by (auto simp: list_ex_iff task_revisions_def)
  show ?thesis
    using no num(2) has r s n k fields
    by (simp add: try_advance_def write_revision_def insert_task_revision_def
        advance_task_head_def commit_change_def row_fields_ok_def)
qed

lemma try_advance_gone:
  "lookup_by tr_task_id (ts_task_id n) (st_tasks st) = None \<Longrightarrow> try_advance H prop s d n now st = Inr (False, st)"
  by (auto simp: try_advance_def write_revision_def insert_task_revision_def has_task_def)

lemma accepted_conflict [simp]: "\<not> accepted conflict_decision"
  by (simp add: conflict_decision_def plain_decision_def accepted_def)

text \<open>What the transition part of a commit can do to a sound store.\<close>

lemma commit_transition_cases:
  assumes ok: "store_ok H st" and snap: "stored_snapshot H st s"
    and ev: "evaluate H s profile prop at known allow = Inr d"
    and ct: "commit_transition H prop s d now st = Inr (st1, d', res)"
  obtains
    (moved) n r v xs i where "accepted d" "d' = d" "pd_next_state d = Some n" "res = Some (ts_revision s + 1)"
      "lookup_by tr_task_id (ts_task_id s) (st_tasks st) = Some r" "shows_head r s" "state_valid n"
      "ts_task_id n = ts_task_id s" "ts_scope n = ts_scope s" "ts_profile_version n = ts_profile_version s"
      "ts_revision n = ts_revision s + 1" "ts_lifecycle n = OPEN" "pr_task_id prop = ts_task_id s"
      "st1 = st\<lparr>st_revisions := st_revisions st @ [v], st_provenance := st_provenance st @ xs, st_next_id := i,
                st_tasks := replace_by tr_task_id (ts_task_id s) (change_head (commit_change d n now)) (st_tasks st)\<rparr>"
      "snapshot_ok H r v n" "rr_task_id v = ts_task_id s" "rr_revision v = ts_revision s + 1"
      "rr_parent_revision v = Some (ts_revision s)" "\<forall>x\<in>set xs. pv_task_id x = ts_task_id s"
  | (kept) r where "st1 = st" "\<not> accepted d'" "accepted d \<Longrightarrow> d' = conflict_decision" "\<not> accepted d \<Longrightarrow> d' = d"
      "lookup_by tr_task_id (ts_task_id s) (st_tasks st) = Some r" "accepted d \<Longrightarrow> ts_revision s < tr_head_revision r"
      "accepted d \<Longrightarrow> res = None"
  using ok snap
proof (rule stored_snapshot_history)
  fix r
  assume r: "lookup_by tr_task_id (ts_task_id s) (st_tasks st) = Some r"
    and hist: "history_ok H r (task_revisions st (ts_task_id s))" and valid: "state_valid s"
    and b: "1 \<le> ts_revision s" "ts_revision s \<le> tr_head_revision r"
    and head: "ts_revision s = tr_head_revision r \<Longrightarrow> shows_head r s"
  show thesis
  proof (cases "accepted d")
    case False
    then show thesis using ct r by (intro kept [of r]) (auto simp: commit_transition_def)
  next
    case True
    obtain n where n: "pd_next_state d = Some n" "state_valid n" "ts_task_id n = ts_task_id s" "ts_scope n = ts_scope s"
      "ts_profile_version n = ts_profile_version s" "ts_revision n = ts_revision s + 1"
      "ts_parent_revision n = Some (ts_revision s)" "ts_lifecycle n = OPEN" "pr_task_id prop = ts_task_id s"
      using evaluate_accepted_successor [OF ev True valid] by metis
    show thesis
    proof (cases "ts_revision s = tr_head_revision r")
      case False
      then have "try_advance H prop s d n now st = Inr (False, st)"
        using try_advance_behind [OF ok _ n(6)] r n(3) b by simp
      then show thesis using ct r True False b n(1) by (intro kept [of r]) (auto simp: commit_transition_def)
    next
      case fresh: True
      then obtain u where u: "try_advance H prop s d n now st = Inr (True, u)"
        using try_advance_fresh [OF ok] r n by metis
      from u obtain v where v: "u = st\<lparr>st_revisions := st_revisions st @ [v],
              st_tasks := replace_by tr_task_id (ts_task_id s) (change_head (commit_change d n now)) (st_tasks st)\<rparr>"
        "rr_task_id v = ts_task_id s" "rr_revision v = ts_revision s + 1" "rr_parent_revision v = Some (ts_revision s)"
        "rr_state v = TaskState_to_dict n" "rr_state_sha256 v = state_digest H n" "rr_semantic_sha256 v = semantic_digest H n"
        using n by (elim try_advance_True) simp
      from ct True n(1) u have p: "insert_all_provenance (transition_provenance prop (ts_revision n) s n now) u = Inr st1"
        and out: "d' = d" "res = Some (ts_revision n)" by (auto simp: commit_transition_def)
      from insert_all_provenance_Inr [OF p] obtain xs i where
        xs: "map pv_task_id xs = map pv_task_id (transition_provenance prop (ts_revision n) s n now)"
        "st1 = u\<lparr>st_provenance := st_provenance u @ xs, st_next_id := i\<rparr>" by blast
      have "pv_task_id ` set xs \<subseteq> {ts_task_id s}"
        using arg_cong [OF xs(1), of set] n(9) by (auto simp: transition_provenance_def Let_def provenance_def)
      then have "\<forall>x\<in>set xs. pv_task_id x = ts_task_id s" by auto
      moreover have "snapshot_ok H r v n"
        using head [OF fresh] n v unfolding shows_head_def snapshot_ok_def by simp
      moreover have "st1 = st\<lparr>st_revisions := st_revisions st @ [v], st_provenance := st_provenance st @ xs, st_next_id := i,
                st_tasks := replace_by tr_task_id (ts_task_id s) (change_head (commit_change d n now)) (st_tasks st)\<rparr>"
        using xs(2) v(1) by simp
      ultimately show thesis
        using moved [OF True out(1) n(1) _ r head [OF fresh] n(2-6) n(8,9) _ _ v(2-4)] out(2) n(6) by simp
    qed
  qed
qed

lemma insert_task_proposal_Inr:
  "insert_task_proposal p st = Inr st' \<Longrightarrow> st' = st\<lparr>st_proposals := st_proposals st @ [p]\<rparr>"
  by (auto simp: insert_task_proposal_def split: if_splits)

lemma commit_body_Inr:
  assumes "commit_body H prop s d started now step_kind st = Inr (st', typed)"
  obtains st1 d' res pp sp where "commit_transition H prop s d now st = Inr (st1, d', res)"
    "typed = typed_decision H prop d' res now" "TransitionDecision_ok typed"
    "st' = st1\<lparr>st_proposals := st_proposals st1 @ [pp], st_steps := st_steps st1 @ [sp], st_next_id := st_next_id st1 + 1\<rparr>"
    "pp_proposal_id pp = pr_proposal_id prop" "pp_task_id pp = pr_task_id prop"
    "pp_idempotency_key pp = pr_idempotency_key prop" "pp_payload_sha256 pp = payload_digest H prop"
    "pp_decision pp = TransitionDecision_to_dict typed" "pp_outcome pp = td_outcome typed"
    "sp_task_id sp = pr_task_id prop" "sp_outcome sp = pd_outcome d'" "sp_proposal_id sp = Some (pr_proposal_id prop)"
    "sp_resulting_revision sp = res" "has_task st1 (pr_task_id prop)"
proof -
  from assms obtain st1 d' res u sr where c: "commit_transition H prop s d now st = Inr (st1, d', res)"
    and t: "typed = typed_decision H prop d' res now" "TransitionDecision_ok typed"
    and p: "record_proposal H prop typed now st1 = Inr u"
    and sr: "insert_task_step sr u = Inr st'" "sp_task_id sr = pr_task_id prop" "sp_outcome sr = pd_outcome d'"
      "sp_proposal_id sr = Some (pr_proposal_id prop)" "sp_resulting_revision sr = res"
    by (auto simp: commit_body_def Let_def step_def split: if_splits sum.splits task_error.splits)
  from p obtain pp where pp: "u = st1\<lparr>st_proposals := st_proposals st1 @ [pp]\<rparr>"
    "pp_proposal_id pp = pr_proposal_id prop" "pp_task_id pp = pr_task_id prop"
    "pp_idempotency_key pp = pr_idempotency_key prop" "pp_payload_sha256 pp = payload_digest H prop"
    "pp_decision pp = TransitionDecision_to_dict typed" "pp_outcome pp = td_outcome typed"
    by (auto simp: record_proposal_def dest!: insert_task_proposal_Inr)
  from insert_task_step_Inr [OF sr(1)] obtain x where x: "sp_task_id x = sp_task_id sr" "sp_outcome x = sp_outcome sr"
    "sp_proposal_id x = sp_proposal_id sr" "sp_resulting_revision x = sp_resulting_revision sr"
    "st' = u\<lparr>st_steps := st_steps u @ [x], st_next_id := st_next_id u + 1\<rparr>" "has_task u (sp_task_id sr)" by blast
  show thesis
    using c t pp x sr by (intro that [of st1 d' res x pp]) (simp_all add: has_task_def)
qed

lemma commit_change_pause:
  assumes "row_fields_ok r" and "tr_lifecycle r = OPEN" and "rr_state v = TaskState_to_dict n" and "ts_lifecycle n = OPEN"
  shows "pause_next v (pause_of r) = pause_of (change_head (commit_change d n now) r)"
  using assms revision_lifecycle_paused [OF assms(3)]
  by (auto simp: pause_next_def pause_of_def change_head_def commit_change_def row_fields_ok_def split: option.splits)

lemma commit_change_fields:
  "row_fields_ok r \<Longrightarrow> row_fields_ok (change_head (commit_change d n now) r)"
  "tr_lifecycle (change_head (commit_change d n now) r) = tr_lifecycle r"
  by (simp_all add: row_fields_ok_def change_head_def commit_change_def or_keep_def)

text \<open>A ledger that grows without touching tasks, revisions or profiles keeps the invariant.\<close>

lemma store_ok_frame:
  assumes "store_ok H st" and "st_tasks st' = st_tasks st" and "st_revisions st' = st_revisions st"
    and "st_profiles st' = st_profiles st" and "refs_ok st'"
  shows "store_ok H st'"
proof -
  have "row_ok H st' r \<longleftrightarrow> row_ok H st r" for r
    using assms(3) registry_require_cong [OF assms(4)] by (simp add: row_ok_def task_revisions_def)
  then show ?thesis using assms(1,2,4,5) by (simp add: store_ok_def)
qed

lemma commit_body_ok:
  assumes ok: "store_ok H st" and snap: "stored_snapshot H st s"
    and ev: "evaluate H s profile prop at known allow = Inr d"
    and body: "commit_body H prop s d started now step_kind st = Inr (st', typed)"
  shows "store_ok H st'"
  using body
proof (rule commit_body_Inr)
  fix st1 d' res pp sp
  assume ct: "commit_transition H prop s d now st = Inr (st1, d', res)"
    and st': "st' = st1\<lparr>st_proposals := st_proposals st1 @ [pp], st_steps := st_steps st1 @ [sp], st_next_id := st_next_id st1 + 1\<rparr>"
    and sp: "pp_task_id pp = pr_task_id prop" "sp_task_id sp = pr_task_id prop" "has_task st1 (pr_task_id prop)"
  have refs: "refs_ok st1 \<Longrightarrow> refs_ok st'" using st' sp by (auto simp: refs_ok_def has_task_def)
  have "store_ok H st1"
    using ok snap ev ct
  proof (cases rule: commit_transition_cases)
    case (moved n r v xs i)
    have rin: "r \<in> set (st_tasks st)" "tr_task_id r = ts_task_id s" using lookup_by_SomeD [OF moved(5)] by auto
    then have fields: "row_fields_ok r" and old: "refs_ok st" using ok by (auto simp: store_ok_def row_ok_def)
    have open_row: "tr_lifecycle r = OPEN" "tr_head_revision r = ts_revision s"
      using moved(6) evaluate_accepted_successor [OF ev moved(1)] by (auto simp: shows_head_def)
    have ext: "extends_task (ts_task_id s) st st1"
      unfolding moved(14) extends_task_def using moved(16,19) by (simp add: head_upd.key_image_replace)
    have "refs_ok st1" using refs_ok_extends [OF old ext has_task_lookup [OF moved(5)]] .
    moreover have "hc_new_head (commit_change d n now) = tr_head_revision r + 1"
      using moved(11) open_row by (simp add: commit_change_def)
    moreover have "tr_lifecycle (change_head (commit_change d n now) r) = ts_lifecycle n"
      using moved(12) open_row by (simp add: commit_change_fields(2))
    moreover have "st_tasks st1 = replace_by tr_task_id (ts_task_id s) (change_head (commit_change d n now)) (st_tasks st)"
      "st_revisions st1 = st_revisions st @ [v]" "st_profiles st1 = st_profiles st" using moved(14) by simp_all
    ultimately show ?thesis
      using store_ok_append_revision [OF ok moved(5) _ moved(15,16)] commit_change_fields(1) [OF fields]
        commit_change_pause [OF fields open_row(1) _ moved(12), of v d now] moved(15)
        open_row moved(17,18) by (simp add: lifecycle_terminal_def snapshot_ok_def)
  next
    case (kept r)
    then show ?thesis using ok by simp
  qed
  then show "store_ok H st'"
    using store_ok_frame [of H st1 st'] refs st' by (simp add: store_ok_def)
qed

section \<open>Every operation keeps the invariant\<close>

lemma transaction_cases:
  obtains e where "body st = Inl e" "transaction body st = (st, Inl e)"
  | st' x where "body st = Inr (st', x)" "transaction body st = (st', Inr x)"
  by (cases "body st") (auto simp: transaction_def)

lemma transaction_ok:
  assumes "store_ok H st" and "\<And>st' x. body st = Inr (st', x) \<Longrightarrow> store_ok H st'"
  shows "store_ok H (fst (transaction body st))"
  using assms by (cases body st rule: transaction_cases) auto

lemma lifecycle_core_ok:
  assumes ok: "store_ok H st" and r: "r \<in> set (st_tasks st)"
  shows "store_ok H (fst (lifecycle_core H now sc r target actor role reason rule st))"
proof (cases "lifecycle_terminal (tr_lifecycle r) \<or> tr_lifecycle r = target")
  case True
  then show ?thesis using ok by (auto simp: lifecycle_core_def)
next
  case False
  obtain v where v: "view_of st r = Inr v" "shows_head r (tv_state v)" using view_ok [OF ok r] .
  let ?body = "lifecycle_body H r (tv_state v) target actor role reason rule now"
  have "lookup_by tr_task_id (tr_task_id r) (st_tasks st) = Some r" using ok r by (simp add: lookup_tasks_distinct)
  then have "store_ok H st'"
    if "TaskState_ok (lifecycle_state (tv_state v) target now)" "?body st = Inr (st', x)" for st' x
    using lifecycle_body_ok [OF ok _ v(2) _ _ that] False by blast
  then show ?thesis
    using False ok v(1)
    by (cases ?body st rule: transaction_cases) (auto simp: lifecycle_core_def)
qed

lemma lifecycle_core_okD:
  "lifecycle_core H now sc r target actor role reason rule st = (st', x) \<Longrightarrow> store_ok H st \<Longrightarrow> r \<in> set (st_tasks st) \<Longrightarrow>
     store_ok H st'"
  using lifecycle_core_ok by (metis fst_conv)

lemma lifecycle_expire_okD:
  "lifecycle_expire H now sc k actor role reason rule st = (st', x) \<Longrightarrow> store_ok H st \<Longrightarrow> store_ok H st'"
  by (auto simp: lifecycle_expire_def dest: require_task_Inr lifecycle_core_okD split: sum.splits)

lemma expire_if_due_okD: "expire_if_due H clk sc r st = (st', x) \<Longrightarrow> store_ok H st \<Longrightarrow> store_ok H st'"
  by (auto simp: expire_if_due_def dest: lifecycle_expire_okD
      split: option.splits prod.splits sum.splits task_error.splits if_splits)

lemma refresh_okD: "refresh H clk sc r st = (st', x) \<Longrightarrow> store_ok H st \<Longrightarrow> store_ok H st'"
  by (auto simp: refresh_def dest: expire_if_due_okD split: option.splits prod.splits sum.splits if_splits)

text \<open>Lifecycle changes neither create nor drop tasks.\<close>

definition task_keys :: "store \<Rightarrow> (string \<times> authority_scope) list" where
  "task_keys st = map (\<lambda>r. (tr_task_id r, tr_scope r)) (st_tasks st)"

lemma get_task_keys: "get_task st sc k = None \<longleftrightarrow> (k, sc) \<notin> set (task_keys st)"
  by (auto simp: get_task_def task_keys_def find_None_iff)

lemma task_keys_replace [simp]:
  "task_keys (st\<lparr>st_tasks := replace_by tr_task_id k (change_head c) (st_tasks u)\<rparr>) = task_keys u"
  by (simp add: task_keys_def replace_by_def)

lemma lifecycle_body_keys:
  assumes "lifecycle_body H r s target actor role reason rule now st = Inr (st', u)"
  shows "task_keys st' = task_keys st"
proof -
  from assms obtain st1 st2 st3 pr sp where
    "write_revision H (lifecycle_state s target now) actor role [''lifecycle_change_accepted''] (rule_evidence rule) now False st = Inr st1"
    "advance_task_head (tr_task_id r) (ts_revision s) (lifecycle_change r s target reason now) st1 = Inr (True, st2)"
    "insert_task_provenance pr st2 = Inr st3" "insert_task_step sp st3 = Inr st'"
    by (auto simp: lifecycle_body_def Let_def split: if_splits prod.splits)
  then show ?thesis
    by (auto simp: advance_task_head_True elim!: write_revision_Inr
        dest!: insert_task_provenance_Inr insert_task_step_Inr) (simp_all add: task_keys_def replace_by_def)
qed

lemma lifecycle_core_keys:
  assumes "lifecycle_core H now sc r target actor role reason rule st = (st', x)"
  shows "task_keys st' = task_keys st"
proof -
  have "task_keys st1 = task_keys st" if "transaction (lifecycle_body H r s target actor role reason rule now) st = (st1, y)" for s st1 y
    using that lifecycle_body_keys by (cases "lifecycle_body H r s target actor role reason rule now" st rule: transaction_cases) auto
  then show ?thesis using assms
    by (auto simp: lifecycle_core_def split: if_splits sum.splits prod.splits)
qed

lemma expire_if_due_None:
  assumes e: "expire_if_due H clk sc r st = (st', Inr None)" and r: "r \<in> set (st_tasks st)" "tr_scope r = sc"
  shows "st' = st \<and> xr_due_reason (expiry_status r (clk 0)) = None"
proof (cases "xr_due_reason (expiry_status r (clk 0))")
  case None
  then show ?thesis using e by (simp add: expire_if_due_def)
next
  case (Some why)
  have "(tr_task_id r, sc) \<in> set (task_keys st)" using r by (auto simp: task_keys_def)
  moreover have "task_keys st1 = task_keys st"
    if "lifecycle_expire H (clk 1) sc (tr_task_id r) ''atmem-policy-evaluator'' POLICY_EVALUATOR why (Some why) st = (st1, y)" for st1 y
    using that by (auto simp: lifecycle_expire_def dest: lifecycle_core_keys split: sum.splits)
  ultimately show ?thesis
    using e Some get_task_keys by (auto simp: expire_if_due_def split: prod.splits sum.splits task_error.splits if_splits)
qed

lemma refresh_row:
  assumes "refresh H clk sc r st = (st', Inr r')" and "r \<in> set (st_tasks st)" and "tr_scope r = sc"
  shows "r' \<in> set (st_tasks st') \<and> tr_task_id r' = tr_task_id r \<and> tr_scope r' = sc"
proof (cases "lifecycle_terminal (tr_lifecycle r)")
  case True
  then show ?thesis using assms by (simp add: refresh_def)
next
  case False
  obtain u y where e: "expire_if_due H clk sc r st = (u, y)" by (cases "expire_if_due H clk sc r st")
  have "u = st'" "y = Inr None \<and> r' = r \<or> y = Inr (Some r')"
    using assms(1) False e by (auto simp: refresh_def split: sum.splits option.splits)
  moreover have "r' \<in> set (st_tasks u) \<and> tr_task_id r' = tr_task_id r \<and> tr_scope r' = sc" if "y = Inr (Some r')"
    using e that by (auto simp: expire_if_due_def dest!: get_task_SomeD
      split: option.splits prod.splits sum.splits if_splits task_error.splits)
  moreover have "u = st" if "y = Inr None"
    using expire_if_due_None [OF _ assms(2,3)] e that by simp
  ultimately show ?thesis using assms(2,3) by auto
qed

lemma lifecycle_okD:
  "lifecycle H clk sc k target actor role reason st = (st', x) \<Longrightarrow> store_ok H st \<Longrightarrow> store_ok H st'"
  by (auto simp: lifecycle_def split: sum.splits prod.splits if_splits
      dest!: require_task_Inr dest: lifecycle_expire_okD refresh_row refresh_okD lifecycle_core_okD)

lemma complete_okD: "complete H clk sc k actor role reason st = (st', x) \<Longrightarrow> store_ok H st \<Longrightarrow> store_ok H st'"
  by (auto simp: complete_def dest: lifecycle_okD split: sum.splits prod.splits bool.splits option.splits)

lemma get_view_okD: "get_view H clk sc k b st = (st', x) \<Longrightarrow> store_ok H st \<Longrightarrow> store_ok H st'"
  by (auto simp: get_view_def dest: refresh_okD split: sum.splits prod.splits if_splits)

lemma scan_rows_okD: "scan_rows H clks i rs st = (st', x) \<Longrightarrow> store_ok H st \<Longrightarrow> store_ok H st'"
  by (induction rs arbitrary: st i st' x) (fastforce dest: expire_if_due_okD split: sum.splits prod.splits)+

lemma view_of_stored:
  assumes ok: "store_ok H st" and r: "r \<in> set (st_tasks st)" and v: "view_of st r = Inr v"
  shows "tv_task v = r \<and> shows_head r (tv_state v) \<and> stored_snapshot H st (tv_state v) \<and>
     registry_require st (tr_profile_version r) = Inr (tv_profile v)"
proof -
  obtain w where w: "view_of st r = Inr w" "tv_task w = r" "shows_head r (tv_state w)"
    "registry_require st (tr_profile_version r) = Inr (tv_profile w)"
    "snapshot_ok H r (last (task_revisions st (tr_task_id r))) (tv_state w)" using view_ok [OF ok r] .
  have k: "ts_task_id (tv_state w) = tr_task_id r" using w(3) by (simp add: shows_head_def)
  have "history_ok H r (task_revisions st (tr_task_id r))" using ok r by (simp add: store_ok_def row_ok_def)
  then have "last (task_revisions st (tr_task_id r)) \<in> set (task_revisions st (tr_task_id r))"
    by (simp add: history_ok_def)
  then have "stored_snapshot H st (tv_state w)"
    unfolding stored_snapshot_def k using w(5) lookup_tasks_distinct [OF ok] r by blast
  then show ?thesis using w v by simp
qed

lemma submit_prepare_Ready:
  assumes "submit_prepare H clk prop allow st = (st', Inr (Ready v d))" and ok: "store_ok H st"
  shows "store_ok H st' \<and> stored_snapshot H st' (tv_state v) \<and>
     evaluate H (tv_state v) (tv_profile v) prop (clk 3) None allow = Inr d"
proof -
  from assms(1) obtain row r' where row: "get_task st (pr_scope prop) (pr_task_id prop) = Some row"
    "refresh H (\<lambda>i. clk (i + 1)) (pr_scope prop) row st = (st', Inr r')" "view_of st' r' = Inr v"
    and ev: "lift_py (evaluate H (tv_state v) (tv_profile v) prop (clk 3) None allow) = Inr d"
    by (auto simp: submit_prepare_def split: option.splits if_splits prod.splits sum.splits)
  have ok': "store_ok H st'" using refresh_okD [OF row(2) ok] .
  have "r' \<in> set (st_tasks st')" using refresh_row [OF row(2)] get_task_SomeD [OF row(1)] by simp
  then show ?thesis using view_of_stored [OF ok' _ row(3)] ok' ev by (auto simp: lift_py_def split: sum.splits)
qed

lemma submit_prepare_okD: "submit_prepare H clk prop allow st = (st', x) \<Longrightarrow> store_ok H st \<Longrightarrow> store_ok H st'"
  by (auto simp: submit_prepare_def dest: refresh_okD split: option.splits if_splits prod.splits sum.splits)

lemma commit_okD:
  assumes "commit H prop s d started now step_kind st = (st', x)" and "store_ok H st" and "stored_snapshot H st s"
    and "evaluate H s profile prop at known allow = Inr d"
  shows "store_ok H st'"
  using assms commit_body_ok [OF assms(2-4)]
  by (cases "commit_body H prop s d started now step_kind" st rule: transaction_cases) (auto simp: commit_def)

lemma submit_okD: "submit H clk prop allow step_kind st = (st', x) \<Longrightarrow> store_ok H st \<Longrightarrow> store_ok H st'"
  by (auto simp: submit_def dest: submit_prepare_okD dest!: submit_prepare_Ready intro: commit_okD
      split: prod.splits sum.splits prepared.splits)

lemma correct_okD: "correct H clk prop reason st = (st', x) \<Longrightarrow> store_ok H st \<Longrightarrow> store_ok H st'"
  by (auto simp: correct_def dest: submit_okD split: sum.splits if_splits)

section \<open>Starting and forgetting\<close>

text \<open>The request and the initial items as their constructors leave them.\<close>

definition start_input_ok :: "task_start_request \<Rightarrow> task_item list \<Rightarrow> bool" where
  "start_input_ok req items \<longleftrightarrow>
     TaskStartRequest_ok req \<and> AuthorityScope_ok (sr_scope req) \<and> list_all item_valid items"

lemma registry_get_stored:
  assumes "profiles_ok (st_profiles st)" and "registry_get st v = Inr (Some p)"
  shows "pf_version p = v"
proof (cases "map_of BUILT_IN_PROFILES v")
  case None
  with assms(2) obtain q where q: "get_task_profile st v = Some q" "TaskProfile_from_dict (pl_profile q) = Inr p"
    by (auto simp: registry_get_def split: option.splits)
  have "q \<in> set (st_profiles st)" "pl_version q = v"
    using lookup_by_SomeD [OF q(1) [unfolded get_task_profile_def]] by auto
  then show ?thesis using assms(1) q(2) unfolding profiles_ok_def by (metis Inr_inject)
next
  case (Some q)
  then show ?thesis using assms(2)
    by (auto simp: registry_get_def BUILT_IN_PROFILES_def GENERAL_V1_def split: if_splits)
qed

lemma registry_get_version:
  "profiles_ok (st_profiles st) \<Longrightarrow> registry_get st v = Inr (Some p) \<Longrightarrow> registry_require st (pf_version p) = Inr p"
  by (simp add: registry_require_def registry_get_stored)

lemma registry_require_version:
  "profiles_ok (st_profiles st) \<Longrightarrow> registry_require st v = Inr p \<Longrightarrow> pf_version p = v"
  by (auto simp: registry_require_def bind_res_def registry_get_stored split: sum.splits option.splits)

lemma store_ok_new_task:
  assumes ok: "store_ok H st" and new: "\<not> has_task st (tr_task_id r)"
    and v: "snapshot_ok H r v s" "rr_task_id v = tr_task_id r" "rr_revision v = 1" "rr_parent_revision v = None"
    and r: "tr_head_revision r = 1" "tr_lifecycle r = ts_lifecycle s" "row_fields_ok r"
      "\<exists>p. registry_require st (tr_profile_version r) = Inr p" "pause_next v (None, 0) = pause_of r"
    and st': "st_tasks st' = st_tasks st @ [r]" "st_revisions st' = st_revisions st @ [v]"
      "st_profiles st' = st_profiles st" "refs_ok st'"
  shows "store_ok H st'"
proof -
  have none: "task_revisions st (tr_task_id r) = []"
    using ok new by (auto simp: store_ok_def refs_ok_def task_revisions_def filter_empty_conv)
  have "row_ok H st' x" if x: "x \<in> set (st_tasks st')" for x
  proof (cases "x = r")
    case True
    have "history_ok H r [v]" using v r by (auto simp: history_ok_def numbered_def)
    then show ?thesis
      using True v(2) r none by (simp add: row_ok_def task_revisions_snoc [OF st'(2)] registry_require_cong [OF st'(3)])
  next
    case False
    then have "x \<in> set (st_tasks st)" using x st'(1) by simp
    then have "row_ok H st x" "tr_task_id x \<noteq> tr_task_id r"
      using ok new unfolding store_ok_def has_task_def by (blast, metis image_eqI)
    then show ?thesis
      using v(2) by (simp add: row_ok_def task_revisions_snoc [OF st'(2)] registry_require_cong [OF st'(3)])
  qed
  then show ?thesis using ok new st' by (auto simp: store_ok_def has_task_def)
qed

lemma insert_task_Inr:
  "insert_task r st = Inr st' \<longleftrightarrow> \<not> has_task st (tr_task_id r) \<and>
     \<not> (\<exists>t\<in>set (st_tasks st). tr_scope t = tr_scope r \<and> tr_idempotency_key t = tr_idempotency_key r) \<and>
     1 \<le> tr_head_revision r \<and> st' = st\<lparr>st_tasks := st_tasks st @ [r]\<rparr>"
  by (auto simp: insert_task_def list_ex_iff)

lemma start_body_Inr:
  assumes "start_body H req p items source now st = Inr (st', row)"
  obtains v ps x i where "row = start_row req p source now" "\<not> has_task st (sr_task_id req)"
    "st' = st\<lparr>st_tasks := st_tasks st @ [row], st_revisions := st_revisions st @ [v],
              st_provenance := st_provenance st @ ps, st_steps := st_steps st @ [x], st_next_id := i\<rparr>"
    "rr_task_id v = sr_task_id req" "rr_revision v = 1" "rr_parent_revision v = None"
    "rr_state v = TaskState_to_dict (start_state req p items now)"
    "rr_state_sha256 v = state_digest H (start_state req p items now)"
    "rr_semantic_sha256 v = semantic_digest H (start_state req p items now)"
    "\<forall>q\<in>set ps. pv_task_id q = sr_task_id req" "sp_task_id x = sr_task_id req"
proof -
  let ?s = "start_state req p items now" and ?row = "start_row req p source now" and ?k = "sr_task_id req"
  from assms obtain a b c e pr prs sp where
    i: "insert_task ?row st = Inr a"
    and w: "write_revision H ?s (sr_actor req) (sr_actor_role req) [''lifecycle_change_accepted'']
        (map EvidenceRef_to_dict (sr_evidence req)) now False a = Inr b"
    and p1: "insert_task_provenance pr b = Inr c" "pv_task_id pr = ?k"
    and p2: "insert_all_provenance prs c = Inr e" "\<forall>q\<in>set prs. pv_task_id q = ?k"
    and t: "insert_task_step sp e = Inr st'" "sp_task_id sp = ?k" and row: "row = ?row"
    by (auto simp: start_body_def Let_def provenance_def step_def)
  from w obtain v where v: "b = a\<lparr>st_revisions := st_revisions a @ [v]\<rparr>" "rr_task_id v = ts_task_id ?s"
    "rr_revision v = ts_revision ?s" "rr_parent_revision v = ts_parent_revision ?s"
    "rr_state v = TaskState_to_dict ?s" "rr_state_sha256 v = state_digest H ?s" "rr_semantic_sha256 v = semantic_digest H ?s"
    by (rule write_revision_Inr)
  obtain q where q: "c = b\<lparr>st_provenance := st_provenance b @ [q], st_next_id := st_next_id b + 1\<rparr>" "pv_task_id q = ?k"
    using insert_task_provenance_Inr [OF p1(1)] p1(2) by auto
  obtain qs n where qs: "e = c\<lparr>st_provenance := st_provenance c @ qs, st_next_id := n\<rparr>" "map pv_task_id qs = map pv_task_id prs"
    using insert_all_provenance_Inr [OF p2(1)] by blast
  have qsk: "\<forall>x\<in>set qs. pv_task_id x = ?k"
    using p2(2) arg_cong [OF qs(2), of set] by auto
  obtain x where x: "st' = e\<lparr>st_steps := st_steps e @ [x], st_next_id := st_next_id e + 1\<rparr>" "sp_task_id x = ?k"
    using insert_task_step_Inr [OF t(1)] t(2) by auto
  have new: "\<not> has_task st ?k" "a = st\<lparr>st_tasks := st_tasks st @ [?row]\<rparr>"
    using i by (auto simp: insert_task_Inr start_row_def)
  show thesis
    using v x q qs qsk new row
    by (intro that [where v = v and ps = "q # qs" and x = x and i = "n + 1"]) (simp_all add: start_state_def)
qed

lemma start_snapshot_ok:
  assumes "start_input_ok req items" and "TaskState_ok (start_state req p items now)"
    and "list_all TaskConstraint_ok (start_constraints 0 (sr_constraints req))"
    and "rr_task_id v = sr_task_id req" "rr_revision v = 1" "rr_parent_revision v = None"
      "rr_state v = TaskState_to_dict (start_state req p items now)"
      "rr_state_sha256 v = state_digest H (start_state req p items now)"
      "rr_semantic_sha256 v = semantic_digest H (start_state req p items now)"
  shows "snapshot_ok H (start_row req p source now) v (start_state req p items now)"
proof -
  have "state_valid (start_state req p items now)"
    using assms(1-3) unfolding state_valid_def start_input_ok_def by (simp add: start_state_def)
  then show ?thesis using assms(4-9) by (simp add: snapshot_ok_def start_row_def start_state_def)
qed

lemma start_body_ok:
  assumes ok: "store_ok H st" and inp: "start_input_ok req items" and p: "registry_get st pv = Inr (Some p)"
    and valid: "TaskState_ok (start_state req p items now)" "list_all TaskConstraint_ok (start_constraints 0 (sr_constraints req))"
    and body: "start_body H req p items source now st = Inr (st', row)"
  shows "store_ok H st'"
  using body
proof (rule start_body_Inr)
  fix v ps x i
  let ?s = "start_state req p items now"
  assume row: "row = start_row req p source now" and new: "\<not> has_task st (sr_task_id req)"
    and st': "st' = st\<lparr>st_tasks := st_tasks st @ [row], st_revisions := st_revisions st @ [v],
              st_provenance := st_provenance st @ ps, st_steps := st_steps st @ [x], st_next_id := i\<rparr>"
    and v: "rr_task_id v = sr_task_id req" "rr_revision v = 1" "rr_parent_revision v = None"
      "rr_state v = TaskState_to_dict ?s" "rr_state_sha256 v = state_digest H ?s" "rr_semantic_sha256 v = semantic_digest H ?s"
    and k: "\<forall>q\<in>set ps. pv_task_id q = sr_task_id req" "sp_task_id x = sr_task_id req"
  have id: "tr_task_id row = sr_task_id req" by (simp add: row start_row_def)
  have "snapshot_ok H row v ?s" unfolding row by (rule start_snapshot_ok [OF inp valid v])
  moreover have "refs_ok st'" using ok k v(1) id unfolding st' by (auto simp: store_ok_def refs_ok_def has_task_def)
  moreover have "registry_require st (tr_profile_version row) = Inr p"
    using registry_get_version [OF _ p] ok by (simp add: store_ok_def row start_row_def)
  moreover have "row_fields_ok row" "tr_lifecycle row = ts_lifecycle ?s" "tr_head_revision row = 1"
    by (simp_all add: row start_row_def row_fields_ok_def lifecycle_terminal_def start_state_def)
  moreover have "pause_next v (None, 0) = pause_of row"
    using revision_lifecycle_paused [OF v(4)] by (simp add: pause_next_def pause_of_def row start_row_def start_state_def)
  ultimately show "store_ok H st'"
    using store_ok_new_task [OF ok, of row v ?s st'] new id v(1-3) by (simp add: st')
qed

lemma start_okD:
  assumes "start H clk source req items st = (st', x)" and "store_ok H st" and "start_input_ok req items"
  shows "store_ok H st'"
proof -
  have "store_ok H st1"
    if "transaction (start_body H req p items source (clk 0)) st = (st1, y)" "registry_get st pv = Inr (Some p)"
      "TaskState_ok (start_state req p items (clk 0))" "list_all TaskConstraint_ok (start_constraints 0 (sr_constraints req))"
    for st1 y p pv
    using that assms(2) start_body_ok [OF assms(2,3) that(2-4)]
    by (cases "start_body H req p items source (clk 0)" st rule: transaction_cases) auto
  then show ?thesis using assms(1,2)
    by (auto simp: start_def split: sum.splits option.splits if_splits prod.splits)
qed


text \<open>Dropping the rows of some tasks together with the tasks.\<close>

definition dropped :: "(string \<Rightarrow> bool) \<Rightarrow> store \<Rightarrow> store \<Rightarrow> bool" where
  "dropped gone st st' \<longleftrightarrow>
     st_tasks st' = filter (\<lambda>r. \<not> gone (tr_task_id r)) (st_tasks st) \<and>
     st_revisions st' = filter (\<lambda>r. \<not> gone (rr_task_id r)) (st_revisions st) \<and>
     st_provenance st' = filter (\<lambda>r. \<not> gone (pv_task_id r)) (st_provenance st) \<and>
     st_proposals st' = filter (\<lambda>r. \<not> gone (pp_task_id r)) (st_proposals st) \<and>
     st_steps st' = filter (\<lambda>r. \<not> gone (sp_task_id r)) (st_steps st) \<and>
     st_deliveries st' = filter (\<lambda>r. \<not> gone (dl_task_id r)) (st_deliveries st) \<and>
     (\<forall>b\<in>set (st_bindings st'). \<not> gone (sb_task_id b) \<and> b \<in> set (st_bindings st)) \<and>
     st_profiles st' = st_profiles st \<and> st_audit st' = st_audit st"

lemma dropped_revisions:
  assumes "dropped gone st st'" and "\<not> gone k"
  shows "task_revisions st' k = task_revisions st k"
proof -
  have "(\<lambda>v :: revision_row. \<not> gone (rr_task_id v) \<and> rr_task_id v = k) = (\<lambda>v. rr_task_id v = k)"
    using assms(2) by auto
  then show ?thesis using assms(1) by (simp add: dropped_def task_revisions_def)
qed

lemma dropped_ok:
  assumes ok: "store_ok H st" and d: "dropped gone st st'"
  shows "store_ok H st'"
proof -
  have "row_ok H st' r" if "r \<in> set (st_tasks st')" for r
  proof -
    have r: "r \<in> set (st_tasks st)" "\<not> gone (tr_task_id r)" using d that by (auto simp: dropped_def)
    then have "row_ok H st r" using ok by (simp add: store_ok_def)
    moreover have "st_profiles st' = st_profiles st" using d by (simp add: dropped_def)
    ultimately show ?thesis using dropped_revisions [OF d r(2)] registry_require_cong [of st' st] unfolding row_ok_def by simp
  qed
  moreover have "has_task st' k \<longleftrightarrow> has_task st k \<and> \<not> gone k" for k
    using d by (auto simp: dropped_def has_task_def)
  then have "refs_ok st'" using ok d by (simp add: store_ok_def refs_ok_def dropped_def)
  ultimately show ?thesis using ok d by (auto simp: store_ok_def dropped_def distinct_map_filter)
qed

lemma delete_task_cases:
  assumes "delete_task sc k st = (st', b, removed)"
  obtains "get_task st sc k = None" "st' = st" "\<not> b"
  | r where "get_task st sc k = Some r" "dropped (\<lambda>j. j = k) st st'" "b" "removed = removed_counts k st"
  using assms by (auto simp: delete_task_def drop_task_rows_def Let_def dropped_def split: option.splits)

lemma forget_okD: "forget sc k role st = (st', x) \<Longrightarrow> store_ok H st \<Longrightarrow> store_ok H st'"
  by (auto simp: forget_def split: sum.splits prod.splits elim!: delete_task_cases intro: dropped_ok)

lemma register_okD:
  assumes "register_profile H payload actor dry_run now st = (st', x)" and ok: "store_ok H st"
  shows "store_ok H st'"
  using assms(1)
proof (cases rule: register_cases)
  case 1
  then show ?thesis using ok by simp
next
  case (2 p)
  have ext: "registry_require st' v = Inr q" if "registry_require st v = Inr q" for v q
    using that 2(3,7)
    by (auto simp: registry_require_def registry_get_def get_task_profile_def lookup_by_snoc dest: lookup_by_SomeD
        split: option.splits)
  have "TaskProfile_from_dict (TaskProfile_to_dict p) = Inr p"
    using profile_roundtrip from_dict_ok [OF 2(1)] from_dict_operations_nonempty [OF 2(1)] by blast
  then have "profiles_ok (st_profiles st')" using ok 2(7) by (auto simp: store_ok_def profiles_ok_def)
  moreover have "refs_ok st'" using ok 2(7) by (auto simp: store_ok_def refs_ok_def has_task_def)
  moreover have "row_ok H st' r" if "row_ok H st r" for r
    using that ext 2(7) by (auto simp: row_ok_def task_revisions_def)
  ultimately show ?thesis using ok 2(7) by (auto simp: store_ok_def)
qed

end
