(* ===== verification/Service_Steps.thy ===== *)
theory Service_Steps
  imports Service_Invariant
begin

text \<open>
  The service as a transition system: one step per public operation, and one for a commit that was prepared
  on an earlier store.  The invariant holds in every reachable store.  The locale \<open>service_relation\<close> is the
  interface of a relation that follows every operation; the evolution of histories is one instance.
\<close>

section \<open>How histories evolve\<close>

text \<open>
  Every task of the first store is still in the second, with its identity, scope, goal, profile and start
  unchanged, its revisions a prefix of the later ones, and a terminal task untouched.
\<close>

definition evolves :: "store \<Rightarrow> store \<Rightarrow> bool" where
  "evolves st st' \<longleftrightarrow>
     (\<forall>r\<in>set (st_tasks st). \<exists>r'\<in>set (st_tasks st').
        tr_task_id r' = tr_task_id r \<and> tr_scope r' = tr_scope r \<and> tr_goal r' = tr_goal r \<and>
        tr_profile_version r' = tr_profile_version r \<and> tr_created_at r' = tr_created_at r \<and>
        prefix (task_revisions st (tr_task_id r)) (task_revisions st' (tr_task_id r)) \<and>
        (lifecycle_terminal (tr_lifecycle r) \<longrightarrow>
           r' = r \<and> task_revisions st' (tr_task_id r) = task_revisions st (tr_task_id r)))"

lemma evolves_refl [simp]: "evolves st st"
  by (auto simp: evolves_def)

lemma evolves_trans:
  assumes "evolves st u" and "evolves u st'"
  shows "evolves st st'"
  unfolding evolves_def
proof
  fix r
  assume "r \<in> set (st_tasks st)"
  with assms(1) obtain r1 where 1: "r1 \<in> set (st_tasks u)" "tr_task_id r1 = tr_task_id r" "tr_scope r1 = tr_scope r"
    "tr_goal r1 = tr_goal r" "tr_profile_version r1 = tr_profile_version r" "tr_created_at r1 = tr_created_at r"
    "prefix (task_revisions st (tr_task_id r)) (task_revisions u (tr_task_id r))"
    "lifecycle_terminal (tr_lifecycle r) \<Longrightarrow> r1 = r \<and> task_revisions u (tr_task_id r) = task_revisions st (tr_task_id r)"
    unfolding evolves_def by metis
  from assms(2) 1(1) obtain r2 where 2: "r2 \<in> set (st_tasks st')" "tr_task_id r2 = tr_task_id r1" "tr_scope r2 = tr_scope r1"
    "tr_goal r2 = tr_goal r1" "tr_profile_version r2 = tr_profile_version r1" "tr_created_at r2 = tr_created_at r1"
    "prefix (task_revisions u (tr_task_id r1)) (task_revisions st' (tr_task_id r1))"
    "lifecycle_terminal (tr_lifecycle r1) \<Longrightarrow> r2 = r1 \<and> task_revisions st' (tr_task_id r1) = task_revisions u (tr_task_id r1)"
    unfolding evolves_def by metis
  show "\<exists>r'\<in>set (st_tasks st').
        tr_task_id r' = tr_task_id r \<and> tr_scope r' = tr_scope r \<and> tr_goal r' = tr_goal r \<and>
        tr_profile_version r' = tr_profile_version r \<and> tr_created_at r' = tr_created_at r \<and>
        prefix (task_revisions st (tr_task_id r)) (task_revisions st' (tr_task_id r)) \<and>
        (lifecycle_terminal (tr_lifecycle r) \<longrightarrow>
           r' = r \<and> task_revisions st' (tr_task_id r) = task_revisions st (tr_task_id r))"
    using 1 2 prefix_order.trans [OF 1(7) 2(7) [unfolded 1(2)]] by (intro bexI [OF _ 2(1)]) auto
qed

lemma evolves_tasks_same:
  assumes "st_tasks st' = st_tasks st @ rows" and "st_revisions st' = st_revisions st @ vs"
    and "\<forall>v\<in>set vs. \<not> has_task st (rr_task_id v)"
  shows "evolves st st'"
proof -
  have "task_revisions st' (tr_task_id r) = task_revisions st (tr_task_id r)" if "r \<in> set (st_tasks st)" for r
    using assms(2,3) that by (auto simp: task_revisions_def filter_empty_conv has_task_def)
  then show ?thesis using assms(1) by (force simp: evolves_def)
qed

lemma evolves_append:
  assumes ok: "store_ok H st" and r: "lookup_by tr_task_id k (st_tasks st) = Some r"
    and live: "\<not> lifecycle_terminal (tr_lifecycle r)"
    and st': "st_tasks st' = replace_by tr_task_id k (change_head c) (st_tasks st)"
      "st_revisions st' = st_revisions st @ [v]" "rr_task_id v = k"
  shows "evolves st st'"
  unfolding evolves_def
proof
  fix x
  assume x: "x \<in> set (st_tasks st)"
  show "\<exists>r'\<in>set (st_tasks st').
        tr_task_id r' = tr_task_id x \<and> tr_scope r' = tr_scope x \<and> tr_goal r' = tr_goal x \<and>
        tr_profile_version r' = tr_profile_version x \<and> tr_created_at r' = tr_created_at x \<and>
        prefix (task_revisions st (tr_task_id x)) (task_revisions st' (tr_task_id x)) \<and>
        (lifecycle_terminal (tr_lifecycle x) \<longrightarrow>
           r' = x \<and> task_revisions st' (tr_task_id x) = task_revisions st (tr_task_id x))"
  proof (cases "tr_task_id x = k")
    case True
    then have "x = r" using x r lookup_tasks_distinct [OF ok, of k x] by simp
    moreover have "change_head c x \<in> set (st_tasks st')" using x True st'(1) by (auto simp: set_replace_by)
    ultimately show ?thesis
      using live by (intro bexI [of _ "change_head c x"]) (simp_all add: task_revisions_snoc [OF st'(2)])
  next
    case False
    moreover have "x \<in> set (st_tasks st')" using x False st'(1) by (force simp: set_replace_by)
    ultimately show ?thesis using st'(3) by (intro bexI [of _ x]) (simp_all add: task_revisions_snoc [OF st'(2)])
  qed
qed

text \<open>The tables that the operations of the service only read: bindings, deliveries and the audit log.\<close>

definition beside :: "store \<Rightarrow> session_binding list \<times> delivery_row list \<times> audit_log" where
  "beside st = (st_bindings st, st_deliveries st, st_audit st)"

text \<open>How a snapshot follows its parent: by an accepted proposal on it, or by a change of its lifecycle.\<close>

inductive follows :: "hashes \<Rightarrow> task_state \<Rightarrow> task_state \<Rightarrow> bool" for H s where
  decided: "evaluate H s profile prop at known allow = Inr d \<Longrightarrow> accepted d \<Longrightarrow> pd_next_state d = Some n \<Longrightarrow> follows H s n"
| changed: "\<not> lifecycle_terminal (ts_lifecycle s) \<Longrightarrow> target \<noteq> ts_lifecycle s \<Longrightarrow> follows H s (lifecycle_state s target now)"

lemma stored_head:
  assumes ok: "store_ok H st" and snap: "stored_snapshot H st s" and r: "lookup_by tr_task_id (ts_task_id s) (st_tasks st) = Some r"
    and head: "ts_revision s = tr_head_revision r"
  shows "snapshot_ok H r (last (task_revisions st (ts_task_id s))) s"
proof -
  let ?rs = "task_revisions st (ts_task_id s)"
  obtain v where v: "v \<in> set ?rs" "snapshot_ok H r v s" using snap r by (auto simp: stored_snapshot_def)
  have "history_ok H r ?rs" using ok lookup_by_SomeD [OF r] by (auto simp: store_ok_def row_ok_def)
  then have last: "lookup_by rr_revision (tr_head_revision r) ?rs = Some (last ?rs)" and num: "numbered ?rs"
    using head_revision_lookup by (auto simp: history_ok_def)
  have "lookup_by rr_revision (rr_revision v) ?rs = Some v"
    using v(1) lookup_by_Some_distinct [OF numbered_distinct [OF num]] by simp
  then have "last ?rs = v" using last v(2) head by (simp add: snapshot_ok_def)
  then show ?thesis using v(2) by simp
qed

text \<open>
  The interface of a relation between stores that follows the operations of the service on the stored tasks in
  \<open>K\<close>: it has to follow changes of the ledgers and the next revision of a live task, and to compose.
\<close>

locale service_changes =
  fixes H :: hashes and K :: "string \<Rightarrow> bool" and R :: "store \<Rightarrow> store \<Rightarrow> bool"
  assumes R_ledger: "st_tasks st' = st_tasks st \<Longrightarrow> st_revisions st' = st_revisions st \<Longrightarrow> beside st' = beside st \<Longrightarrow> R st st'"
    and R_trans: "R st u \<Longrightarrow> R u st' \<Longrightarrow> R st st'"
    and R_next: "store_ok H st \<Longrightarrow> lookup_by tr_task_id k (st_tasks st) = Some r \<Longrightarrow> shows_head r s \<Longrightarrow>
      snapshot_ok H r (last (task_revisions st k)) s \<Longrightarrow> follows H s n \<Longrightarrow>
      \<not> lifecycle_terminal (tr_lifecycle r) \<Longrightarrow> snapshot_ok H r v n \<Longrightarrow> rr_task_id v = k \<Longrightarrow>
      ts_revision n = ts_revision s + 1 \<Longrightarrow> st_tasks st' = replace_by tr_task_id k (change_head c) (st_tasks st) \<Longrightarrow>
      st_revisions st' = st_revisions st @ [v] \<Longrightarrow> K k \<Longrightarrow> beside st' = beside st \<Longrightarrow> R st st'"
begin

lemma R_refl: "R st st"
  by (rule R_ledger) simp_all

lemma lifecycle_core_rel:
  assumes "lifecycle_core H now sc r target actor role reason rule st = (st', x)" and ok: "store_ok H st"
    and r: "r \<in> set (st_tasks st)" and K: "K (tr_task_id r)"
  shows "R st st'"
proof (cases "lifecycle_terminal (tr_lifecycle r) \<or> tr_lifecycle r = target")
  case True
  then show ?thesis using assms(1) R_refl by (auto simp: lifecycle_core_def split: if_splits)
next
  case False
  obtain w where w: "view_of st r = Inr w" "shows_head r (tv_state w)"
    "snapshot_ok H r (last (task_revisions st (tr_task_id r))) (tv_state w)" using view_ok [OF ok r] by metis
  then have f: "follows H (tv_state w) (lifecycle_state (tv_state w) target now)"
    using False by (intro changed) (auto simp: shows_head_def)
  let ?body = "lifecycle_body H r (tv_state w) target actor role reason rule now"
  have look: "lookup_by tr_task_id (tr_task_id r) (st_tasks st) = Some r" using ok r by (simp add: lookup_tasks_distinct)
  have "R st u" if b: "?body st = Inr (u, y)" and valid: "TaskState_ok (lifecycle_state (tv_state w) target now)" for u y
    using b w(2) look
  proof (rule lifecycle_body_Inr)
    fix v
    assume t: "st_tasks u = replace_by tr_task_id (tr_task_id r) (change_head (lifecycle_change r (tv_state w) target reason now)) (st_tasks st)"
      and ext: "extends_task (tr_task_id r) st u"
      and v: "st_revisions u = st_revisions st @ [v]" "rr_task_id v = tr_task_id r" "rr_revision v = ts_revision (tv_state w) + 1"
      "rr_parent_revision v = Some (ts_revision (tv_state w))"
      "rr_state v = TaskState_to_dict (lifecycle_state (tv_state w) target now)"
      "rr_state_sha256 v = state_digest H (lifecycle_state (tv_state w) target now)"
      "rr_semantic_sha256 v = semantic_digest H (lifecycle_state (tv_state w) target now)"
    have "snapshot_ok H r v (lifecycle_state (tv_state w) target now)"
      using lifecycle_snapshot_ok [OF w(2) valid] v by blast
    then show "R st u"
      using R_next [OF ok look w(2,3) f _ _ v(2) _ t v(1) K] False ext
      by (simp add: lifecycle_state_def extends_task_def beside_def)
  qed
  then show ?thesis
    using False w(1) assms(1) R_refl
    by (cases ?body st rule: transaction_cases) (auto simp: lifecycle_core_def split: if_splits)
qed

lemma lifecycle_expire_rel:
  "lifecycle_expire H now sc k actor role reason rule st = (st', x) \<Longrightarrow> store_ok H st \<Longrightarrow> K k \<Longrightarrow> R st st'"
  by (auto simp: lifecycle_expire_def R_refl dest: require_task_Inr lifecycle_core_rel split: sum.splits)

lemma expire_if_due_rel: "expire_if_due H clk sc r st = (st', x) \<Longrightarrow> store_ok H st \<Longrightarrow> K (tr_task_id r) \<Longrightarrow> R st st'"
  by (auto simp: expire_if_due_def R_refl dest: lifecycle_expire_rel
      split: option.splits prod.splits sum.splits task_error.splits if_splits)

lemma refresh_rel: "refresh H clk sc r st = (st', x) \<Longrightarrow> store_ok H st \<Longrightarrow> K (tr_task_id r) \<Longrightarrow> R st st'"
  by (auto simp: refresh_def R_refl dest: expire_if_due_rel split: option.splits prod.splits sum.splits if_splits)

lemma found_refresh_rel:
  assumes "refresh H clk sc r st = (st', x)" and "get_task st sc k = Some r \<or> require_task st sc k = Inr r"
    and "store_ok H st" and "K k"
  shows "R st st'"
  using assms refresh_rel by (auto dest!: get_task_SomeD require_task_Inr)

lemma lifecycle_rel:
  assumes "lifecycle H clk sc k target actor role reason st = (st', x)" and ok: "store_ok H st" and K: "K k"
  shows "R st st'"
proof -
  have "R st st'" if "require_task st sc k = Inr r" "refresh H clk sc r st = (u, Inr r')"
    "lifecycle_core H (clk 2) sc r' target actor role reason None u = (st', x)" for r r' u
    using that found_refresh_rel [OF that(2) _ ok K] refresh_okD [OF that(2) ok] refresh_row [OF that(2)]
      require_task_Inr [OF that(1)] lifecycle_core_rel [OF that(3)] R_trans K by metis
  then show ?thesis using assms
    by (auto simp: lifecycle_def R_refl split: sum.splits prod.splits if_splits dest: lifecycle_expire_rel found_refresh_rel)
qed

lemma complete_rel: "complete H clk sc k actor role reason st = (st', x) \<Longrightarrow> store_ok H st \<Longrightarrow> K k \<Longrightarrow> R st st'"
  by (auto simp: complete_def R_refl dest: lifecycle_rel split: sum.splits prod.splits bool.splits option.splits)

lemma get_view_rel: "get_view H clk sc k b st = (st', x) \<Longrightarrow> store_ok H st \<Longrightarrow> K k \<Longrightarrow> R st st'"
  by (auto simp: get_view_def R_refl dest: found_refresh_rel split: sum.splits prod.splits if_splits)

lemma scan_rows_rel: "scan_rows H clks i rs st = (st', x) \<Longrightarrow> store_ok H st \<Longrightarrow> (\<And>r. r \<in> set rs \<Longrightarrow> K (tr_task_id r)) \<Longrightarrow> R st st'"
proof (induction rs arbitrary: st i st' x)
  case Nil
  then show ?case by (simp add: R_refl)
next
  case (Cons r rs)
  obtain u y where e: "expire_if_due H (clks i) (tr_scope r) r st = (u, y)" by fastforce
  have u: "R st u" "store_ok H u"
    using expire_if_due_rel [OF e] expire_if_due_okD [OF e] Cons.prems by simp_all
  obtain w z where w: "scan_rows H clks (i + 1) rs u = (w, z)" by fastforce
  have "R u w" using Cons.IH [OF w u(2)] Cons.prems(3) by simp
  then have "R st w" using u(1) R_trans by blast
  moreover have "st' = u \<or> st' = w" using Cons.prems(1) e w by (auto split: sum.splits)
  ultimately show ?case using u(1) by blast
qed

lemma commit_rel:
  assumes "commit H prop s d started now step_kind st = (st', x)" and ok: "store_ok H st"
    and snap: "stored_snapshot H st s" and ev: "evaluate H s profile prop at known allow = Inr d"
    and K: "K (pr_task_id prop)"
  shows "R st st'"
proof -
  have "R st u" if "commit_body H prop s d started now step_kind st = Inr (u, y)" for u y
    using that
  proof (rule commit_body_Inr)
    fix st1 d' res pp sp
    assume ct: "commit_transition H prop s d now st = Inr (st1, d', res)"
      and u: "u = st1\<lparr>st_proposals := st_proposals st1 @ [pp], st_steps := st_steps st1 @ [sp], st_next_id := st_next_id st1 + 1\<rparr>"
    show "R st u"
      using ok snap ev ct
    proof (cases rule: commit_transition_cases)
      case (moved n r v xs i)
      then have "tr_lifecycle r = OPEN"
        using evaluate_accepted_successor [OF ev moved(1)] by (auto simp: shows_head_def)
      moreover have "snapshot_ok H r (last (task_revisions st (ts_task_id s))) s"
        using stored_head [OF ok snap moved(5)] moved(6) by (simp add: shows_head_def)
      moreover have "follows H s n" using ev moved(1,3) by (rule decided)
      ultimately show ?thesis
        using R_next [OF ok moved(5,6) _ _ _ moved(15,16,11), of u "commit_change d n now"] moved(13,14) u K
        by (simp add: lifecycle_terminal_def beside_def)
    next
      case (kept r)
      then show ?thesis using u by (intro R_ledger) (simp_all add: beside_def)
    qed
  qed
  then show ?thesis using assms(1) R_refl
    by (cases "commit_body H prop s d started now step_kind" st rule: transaction_cases) (auto simp: commit_def)
qed

lemma submit_prepare_rel: "submit_prepare H clk prop allow st = (st', x) \<Longrightarrow> store_ok H st \<Longrightarrow> K (pr_task_id prop) \<Longrightarrow> R st st'"
  by (auto simp: submit_prepare_def R_refl dest: found_refresh_rel split: option.splits if_splits prod.splits sum.splits)

lemma submit_rel: "submit H clk prop allow step_kind st = (st', x) \<Longrightarrow> store_ok H st \<Longrightarrow> K (pr_task_id prop) \<Longrightarrow> R st st'"
  by (auto simp: submit_def dest: submit_prepare_rel split: prod.splits sum.splits prepared.splits)
     (metis R_trans submit_prepare_rel submit_prepare_Ready commit_rel)

lemma correct_rel: "correct H clk prop reason st = (st', x) \<Longrightarrow> store_ok H st \<Longrightarrow> K (pr_task_id prop) \<Longrightarrow> R st st'"
  by (auto simp: correct_def R_refl dest: submit_rel split: sum.splits if_splits)

lemma register_rel: "register_profile H payload actor dry_run now st = (st', x) \<Longrightarrow> R st st'"
  by (erule register_cases) (auto intro: R_ledger simp: beside_def)

end

text \<open>A start leaves the store or adds the requested task with its first snapshot.\<close>

lemma start_cases:
  assumes "start H clk source req items st = (st', x)" and inp: "start_input_ok req items"
  obtains (same) "st' = st"
  | (new) p row v where "tr_task_id row = sr_task_id req" "\<not> has_task st (sr_task_id req)"
      "snapshot_ok H row v (start_state req p items (clk 0))" "rr_task_id v = sr_task_id req"
      "st_tasks st' = st_tasks st @ [row]" "st_revisions st' = st_revisions st @ [v]" "beside st' = beside st"
proof -
  have thesis
    if tr: "transaction (start_body H req p items source (clk 0)) st = (st', y)"
      and valid: "TaskState_ok (start_state req p items (clk 0))"
        "list_all TaskConstraint_ok (start_constraints 0 (sr_constraints req))" for y p
    using tr
  proof (cases "start_body H req p items source (clk 0)" st rule: transaction_cases)
    case 1
    then show ?thesis using tr same by simp
  next
    case (2 u row)
    from 2(1) show ?thesis
    proof (rule start_body_Inr)
      fix v ps z i
      let ?s = "start_state req p items (clk 0)"
      assume row: "row = start_row req p source (clk 0)" and "\<not> has_task st (sr_task_id req)"
        and "u = st\<lparr>st_tasks := st_tasks st @ [row], st_revisions := st_revisions st @ [v],
              st_provenance := st_provenance st @ ps, st_steps := st_steps st @ [z], st_next_id := i\<rparr>"
        and v: "rr_task_id v = sr_task_id req" "rr_revision v = 1" "rr_parent_revision v = None"
          "rr_state v = TaskState_to_dict ?s" "rr_state_sha256 v = state_digest H ?s" "rr_semantic_sha256 v = semantic_digest H ?s"
      moreover have "snapshot_ok H row v ?s" unfolding row by (rule start_snapshot_ok [OF inp valid v])
      ultimately show ?thesis
        using 2(2) tr by (intro new [where row = row and p = p and v = v]) (simp_all add: start_row_def beside_def)
    qed
  qed
  then show thesis using assms(1) same
    by (auto simp: start_def split: sum.splits option.splits if_splits prod.splits)
qed

text \<open>A relation that follows the start of a task as well.\<close>

locale service_relation = service_changes +
  assumes R_new: "store_ok H st \<Longrightarrow> \<not> has_task st (tr_task_id r) \<Longrightarrow> snapshot_ok H r v s \<Longrightarrow> rr_task_id v = tr_task_id r \<Longrightarrow>
      ts_revision s = 1 \<Longrightarrow> ts_lifecycle s = OPEN \<Longrightarrow> st_tasks st' = st_tasks st @ [r] \<Longrightarrow>
      st_revisions st' = st_revisions st @ [v] \<Longrightarrow> K (tr_task_id r) \<Longrightarrow> beside st' = beside st \<Longrightarrow> R st st'"
begin

lemma start_rel:
  assumes "start H clk source req items st = (st', x)" and ok: "store_ok H st" and inp: "start_input_ok req items"
    and K: "K (sr_task_id req)"
  shows "R st st'"
  using assms(1) inp
proof (cases rule: start_cases)
  case same
  then show ?thesis by (simp add: R_refl)
next
  case (new p row v)
  then show ?thesis using R_new [OF ok _ new(3)] K by (simp add: start_state_def)
qed

end

interpretation evolution: service_relation H "\<lambda>k. True" evolves for H
  by unfold_locales
     (auto intro: evolves_trans evolves_append evolves_tasks_same [of _ _ "[]" "[]"] evolves_tasks_same)

text \<open>The operations on one task leave the rows and the revisions of every other task alone.\<close>

definition spares :: "string \<Rightarrow> store \<Rightarrow> store \<Rightarrow> bool" where
  "spares k st st' \<longleftrightarrow>
     (\<forall>j. j \<noteq> k \<longrightarrow> lookup_by tr_task_id j (st_tasks st') = lookup_by tr_task_id j (st_tasks st) \<and>
        task_revisions st' j = task_revisions st j)"

interpretation apart: service_relation H "\<lambda>k. True" "\<lambda>st st'. beside st' = beside st" for H
  by unfold_locales auto

interpretation frame: service_relation H "\<lambda>j. j = k" "spares k" for H k
proof unfold_locales
  fix st u st' :: store
  show "st_tasks st' = st_tasks st \<Longrightarrow> st_revisions st' = st_revisions st \<Longrightarrow> spares k st st'"
    by (simp add: spares_def task_revisions_def)
  show "spares k st u \<Longrightarrow> spares k u st' \<Longrightarrow> spares k st st'"
    by (simp add: spares_def)
next
  fix st st' :: store and r v
  assume "tr_task_id r = k" "rr_task_id v = tr_task_id r" "st_tasks st' = st_tasks st @ [r]"
    "st_revisions st' = st_revisions st @ [v]"
  then show "spares k st st'"
    by (auto simp: spares_def task_revisions_def lookup_by_def intro: find_snoc_other)
next
  fix st st' :: store and v c and j :: string
  assume "j = k" "rr_task_id v = j" "st_tasks st' = replace_by tr_task_id j (change_head c) (st_tasks st)"
    "st_revisions st' = st_revisions st @ [v]"
  then show "spares k st st'"
    by (auto simp: spares_def task_revisions_def head_upd.lookup_replace)
qed

section \<open>The service as a transition system\<close>

inductive service_step :: "hashes \<Rightarrow> store \<Rightarrow> store \<Rightarrow> bool" for H where
  registers: "register_profile H payload actor dry_run now st = (st', x) \<Longrightarrow> service_step H st st'"
| starts: "start H clk source req items st = (st', x) \<Longrightarrow> start_input_ok req items \<Longrightarrow> service_step H st st'"
| views: "get_view H clk sc k evaluate_exp st = (st', x) \<Longrightarrow> service_step H st st'"
| submits: "submit H clk prop allow step_kind st = (st', x) \<Longrightarrow> service_step H st st'"
| corrects: "correct H clk prop reason st = (st', x) \<Longrightarrow> service_step H st st'"
| commits_late: "commit H prop s d started now step_kind st = (st', x) \<Longrightarrow> stored_snapshot H st s \<Longrightarrow>
    evaluate H s profile prop at known allow = Inr d \<Longrightarrow> service_step H st st'"
| pauses: "pause H clk sc k actor role reason st = (st', x) \<Longrightarrow> service_step H st st'"
| resumes: "resume H clk sc k actor role reason st = (st', x) \<Longrightarrow> service_step H st st'"
| completes: "complete H clk sc k actor role reason st = (st', x) \<Longrightarrow> service_step H st st'"
| cancels: "cancel H clk sc k actor role reason st = (st', x) \<Longrightarrow> service_step H st st'"
| expires: "evaluate_expiry H clk sc k st = (st', y) \<Longrightarrow> service_step H st st'"
| scans: "scan_for_expiry H clks limit st = (st', ks) \<Longrightarrow> service_step H st st'"
| forgets: "forget sc k role st = (st', z) \<Longrightarrow> service_step H st st'"

lemma service_step_ok: "service_step H st st' \<Longrightarrow> store_ok H st \<Longrightarrow> store_ok H st'"
proof (induction rule: service_step.induct)
  case (cancels clk sc k actor role reason st st' x)
  then show ?case by (auto simp: cancel_def dest: lifecycle_okD split: if_splits)
next
  case (expires clk sc k st st' y)
  then show ?case by (auto simp: evaluate_expiry_def dest: expire_if_due_okD split: option.splits)
qed (auto simp: pause_def resume_def scan_for_expiry_def
      dest: register_okD start_okD get_view_okD submit_okD correct_okD commit_okD lifecycle_okD complete_okD
        scan_rows_okD forget_okD)

interpretation service: invariant_system "\<lambda>st. st = empty_store" "service_step H" "store_ok H" for H
  by unfold_locales (auto intro: empty_store_ok service_step_ok)

text \<open>Forgetting one task leaves the others as they were; every other step lets all histories evolve.\<close>

lemma service_step_evolves:
  assumes "service_step H st st'" and "store_ok H st"
  shows "evolves st st' \<or> (\<exists>k. has_task st k \<and> dropped (\<lambda>j. j = k) st st')"
  using assms
proof (induction rule: service_step.induct)
  case (cancels clk sc k actor role reason st st' x)
  then show ?case by (auto simp: cancel_def dest: evolution.lifecycle_rel split: if_splits)
next
  case (expires clk sc k st st' y)
  then show ?case by (auto simp: evaluate_expiry_def dest: evolution.expire_if_due_rel split: option.splits)
next
  case (forgets sc k role st st' z)
  then show ?case
    by (auto simp: forget_def has_task_def split: sum.splits prod.splits dest: require_task_Inr elim!: delete_task_cases)
qed (auto simp: pause_def resume_def scan_for_expiry_def
      dest: evolution.register_rel evolution.start_rel evolution.get_view_rel evolution.submit_rel evolution.correct_rel evolution.commit_rel
        evolution.lifecycle_rel evolution.complete_rel evolution.scan_rows_rel)

end
