(* ===== verification/Service_Properties.thy ===== *)
theory Service_Properties
  imports Service_Steps
begin

text \<open>
  What the service guarantees in every reachable store: unbroken histories that only grow, terminal tasks that
  never change, commits that compare and swap the head, submissions that replay, scopes that see nothing of
  each other, overdue tasks that expire, pauses accounted exactly, deletion that erases every row.
\<close>

section \<open>A worked store\<close>

definition ex_request :: task_start_request where
  "ex_request =
     \<lparr>sr_task_id = ''t'', sr_scope = ex_scope, sr_profile_id = ''general'', sr_profile_version = ''general-v1'',
      sr_goal = ''ship'', sr_actor = ''op'', sr_actor_role = OPERATOR, sr_idempotency_key = ''start'',
      sr_constraints = [], sr_sources_to_inspect = [''s''], sr_evidence = [], sr_continues_task_id = None\<rparr>"

definition ex_start_state :: task_state where
  "ex_start_state = start_state ex_request GENERAL_V1 [ex_item ''a'' PENDING []] 5"

definition ex_started :: store where
  "ex_started = fst (start ex_hashes (\<lambda>i. 5) ''system'' ex_request [ex_item ''a'' PENDING []] empty_store)"

definition ex_delta :: task_state_proposal where
  "ex_delta =
     \<lparr>pr_proposal_id = ''p'', pr_task_id = ''t'', pr_scope = ex_scope, pr_base_revision = 1,
      pr_idempotency_key = ''k'', pr_actor = ''op'', pr_actor_role = OPERATOR,
      pr_operations = [ex_phase ''collect''], pr_evidence = [], pr_interpreter = None,
      pr_assurance = ASSERTED, pr_reason = None, pr_action_fingerprint = None\<rparr>"

lemma ex_start_input: "start_input_ok ex_request [ex_item ''a'' PENDING []]"
  by code_simp

lemma ex_started_reachable: "service_step ex_hashes empty_store ex_started"
  unfolding ex_started_def
  by (rule starts [OF _ ex_start_input]) (rule prod.collapse [symmetric])

lemma ex_started_tasks: "st_tasks ex_started = [start_row ex_request GENERAL_V1 ''system'' 5]"
  by code_simp

section \<open>Properties of the service\<close>

lemma reachable_ok: "(service_step H)\<^sup>*\<^sup>* empty_store st \<Longrightarrow> store_ok H st"
  using service.inv_reachable [of empty_store H st] by simp

lemma ex_started_star: "(service_step ex_hashes)\<^sup>*\<^sup>* empty_store ex_started"
  using ex_started_reachable by (rule r_into_rtranclp)

lemma ex_started_ok: "store_ok ex_hashes ex_started"
  using ex_started_star by (rule reachable_ok)

text \<open>
  [C3] In every store the service can reach, each task has an unbroken history: its revisions are numbered
  from one to its head, each names the one before as its parent, each decodes to the snapshot whose digests
  it carries, only the last can be terminal, and the head snapshot shows the lifecycle of the row.
\<close>

theorem store_always_sound:
  assumes "(service_step H)\<^sup>*\<^sup>* empty_store st" and "r \<in> set (st_tasks st)" and "rs = task_revisions st (tr_task_id r)"
  shows "map rr_revision rs = map (\<lambda>i. int i + 1) [0..<nat (tr_head_revision r)] \<and>
     map rr_parent_revision rs = map (\<lambda>i. if i = 0 then None else Some (int i)) [0..<nat (tr_head_revision r)] \<and>
     (\<forall>v\<in>set rs. \<exists>s. state_from_dict (rr_state v) = Inr s \<and> rr_state_sha256 v = state_digest H s \<and>
        rr_semantic_sha256 v = semantic_digest H s \<and> ts_revision s = rr_revision v \<and>
        ts_task_id s = tr_task_id r \<and> ts_scope s = tr_scope r \<and>
        (lifecycle_terminal (ts_lifecycle s) \<longrightarrow> v = last rs)) \<and>
     (\<exists>v. view_of st r = Inr v \<and> ts_revision (tv_state v) = tr_head_revision r \<and>
        ts_lifecycle (tv_state v) = tr_lifecycle r)"
proof -
  have ok: "store_ok H st" using assms(1) by (rule reachable_ok)
  have hist: "history_ok H r rs" using ok assms(2,3) by (simp add: store_ok_def row_ok_def)
  then have rs: "rs \<noteq> []" "numbered rs" "tr_head_revision r = int (length rs)"
    and init: "\<And>v. v \<in> set (butlast rs) \<Longrightarrow> \<exists>s. snapshot_ok H r v s \<and> \<not> lifecycle_terminal (ts_lifecycle s)"
    and lst: "\<exists>s. snapshot_ok H r (last rs) s" by (auto simp: history_ok_def)
  have "\<exists>s. snapshot_ok H r v s \<and> (lifecycle_terminal (ts_lifecycle s) \<longrightarrow> v = last rs)" if "v \<in> set rs" for v
  proof -
    have "v \<in> set (butlast rs @ [last rs])" using that rs(1) by simp
    then show ?thesis using init lst by (cases "v = last rs") auto
  qed
  then have "\<forall>v\<in>set rs. \<exists>s. state_from_dict (rr_state v) = Inr s \<and> rr_state_sha256 v = state_digest H s \<and>
        rr_semantic_sha256 v = semantic_digest H s \<and> ts_revision s = rr_revision v \<and>
        ts_task_id s = tr_task_id r \<and> ts_scope s = tr_scope r \<and> (lifecycle_terminal (ts_lifecycle s) \<longrightarrow> v = last rs)"
    unfolding snapshot_ok_def by (metis state_roundtrip)
  moreover obtain v where "view_of st r = Inr v" "shows_head r (tv_state v)" using view_ok [OF ok assms(2)] .
  ultimately show ?thesis using rs by (auto simp: numbered_def shows_head_def)
qed

theorem store_always_sound_witness:
  "map rr_revision (task_revisions ex_started ''t'') = [1] \<and>
   (\<exists>v. view_of ex_started (start_row ex_request GENERAL_V1 ''system'' 5) = Inr v \<and> ts_revision (tv_state v) = 1)"
proof -
  let ?r = "start_row ex_request GENERAL_V1 ''system'' 5"
  have "?r \<in> set (st_tasks ex_started)" by (simp add: ex_started_tasks)
  from store_always_sound [OF ex_started_star this refl] show ?thesis
    by (auto simp: start_row_def ex_request_def)
qed

text \<open>
  [C6] Histories only grow: after any step from a reachable store a task is either gone (it was forgotten) or
  still has its identity, scope, goal, profile version and start, its old revisions as a prefix of the new ones,
  and, if it was terminal, exactly the same row and revisions.
\<close>

theorem histories_only_grow:
  assumes "(service_step H)\<^sup>*\<^sup>* empty_store st" and "service_step H st st'" and "r \<in> set (st_tasks st)"
  shows "\<not> has_task st' (tr_task_id r) \<or>
     (\<exists>r'\<in>set (st_tasks st'). tr_task_id r' = tr_task_id r \<and> tr_scope r' = tr_scope r \<and> tr_goal r' = tr_goal r \<and>
        tr_profile_version r' = tr_profile_version r \<and> tr_created_at r' = tr_created_at r \<and>
        prefix (task_revisions st (tr_task_id r)) (task_revisions st' (tr_task_id r)) \<and>
        (lifecycle_terminal (tr_lifecycle r) \<longrightarrow>
           r' = r \<and> task_revisions st' (tr_task_id r) = task_revisions st (tr_task_id r)))"
proof -
  have "store_ok H st" using assms(1) by (rule reachable_ok)
  from service_step_evolves [OF assms(2) this] show ?thesis
  proof
    assume "evolves st st'"
    then show ?thesis using assms(3) by (auto simp: evolves_def)
  next
    assume "\<exists>k. has_task st k \<and> dropped (\<lambda>j. j = k) st st'"
    then obtain k where d: "dropped (\<lambda>j. j = k) st st'" by blast
    show ?thesis
    proof (cases "tr_task_id r = k")
      case True
      then show ?thesis using d by (auto simp: dropped_def has_task_def)
    next
      case False
      then have "r \<in> set (st_tasks st')" using d assms(3) by (simp add: dropped_def)
      moreover have "task_revisions st' (tr_task_id r) = task_revisions st (tr_task_id r)"
        using dropped_revisions [OF d] False by simp
      ultimately show ?thesis by auto
    qed
  qed
qed

definition ex_submitted :: store where
  "ex_submitted = fst (submit ex_hashes (\<lambda>i. 5) ex_delta False ''host'' ex_started)"

lemma ex_submitted_step: "service_step ex_hashes ex_started ex_submitted"
  unfolding ex_submitted_def by (rule submits) (rule prod.collapse [symmetric])

lemma ex_submitted_task: "has_task ex_submitted ''t''"
  by code_simp

theorem histories_only_grow_witness:
  "prefix (task_revisions ex_started ''t'') (task_revisions ex_submitted ''t'')"
proof -
  let ?r = "start_row ex_request GENERAL_V1 ''system'' 5"
  have r: "?r \<in> set (st_tasks ex_started)" by (simp add: ex_started_tasks)
  have k: "tr_task_id ?r = ''t''" by (simp add: start_row_def ex_request_def)
  show ?thesis using histories_only_grow [OF ex_started_star ex_submitted_step r] ex_submitted_task unfolding k by auto
qed

text \<open>
  [C4] Committing is a compare-and-swap on the head.  A decision made on a snapshot that is still stored for its task
  and committed on a reachable store records exactly one proposal and one step.  If it was an acceptance, it takes effect exactly
  when the head is still the revision it was made on: then one revision is appended and the head moves by one;
  otherwise the outcome is a conflict and neither tasks nor revisions change.
\<close>

theorem commit_is_compare_and_swap:
  assumes "(service_step H)\<^sup>*\<^sup>* empty_store st" and "stored_snapshot H st s"
    and "evaluate H s profile prop at known allow = Inr d"
    and "commit H prop s d started now step_kind st = (st', Inr typed)" and "k = ts_task_id s"
  shows "\<exists>r pp sp. lookup_by tr_task_id k (st_tasks st) = Some r \<and>
     st_proposals st' = st_proposals st @ [pp] \<and> st_steps st' = st_steps st @ [sp] \<and>
     pp_proposal_id pp = pr_proposal_id prop \<and> sp_proposal_id sp = Some (pr_proposal_id prop) \<and>
     sp_outcome sp = td_outcome typed \<and>
     (if accepted d \<and> tr_head_revision r = ts_revision s
      then td_outcome typed = ACCEPTED \<and> td_resulting_revision typed = Some (ts_revision s + 1) \<and>
        (\<exists>v. task_revisions st' k = task_revisions st k @ [v]) \<and>
        (\<exists>r'. lookup_by tr_task_id k (st_tasks st') = Some r' \<and> tr_head_revision r' = tr_head_revision r + 1)
      else td_outcome typed = (if accepted d then CONFLICT else pd_outcome d) \<and>
        st_tasks st' = st_tasks st \<and> st_revisions st' = st_revisions st)"
proof -
  have ok: "store_ok H st" using assms(1) by (rule reachable_ok)
  have "commit_body H prop s d started now step_kind st = Inr (st', typed)"
    using assms(4) by (cases "commit_body H prop s d started now step_kind" st rule: transaction_cases) (auto simp: commit_def)
  then obtain st1 d' res pp sp where ct: "commit_transition H prop s d now st = Inr (st1, d', res)"
    and typed: "typed = typed_decision H prop d' res now"
    and st': "st' = st1\<lparr>st_proposals := st_proposals st1 @ [pp], st_steps := st_steps st1 @ [sp], st_next_id := st_next_id st1 + 1\<rparr>"
    and rows: "pp_proposal_id pp = pr_proposal_id prop" "sp_outcome sp = pd_outcome d'" "sp_proposal_id sp = Some (pr_proposal_id prop)"
    by (rule commit_body_Inr)
  from ok assms(2,3) ct show ?thesis
  proof (cases rule: commit_transition_cases)
    case (moved n r v xs i)
    have "task_revisions st' k = task_revisions st k @ [v]"
      using moved(14,16) st' assms(5) by (simp add: task_revisions_def)
    moreover have "lookup_by tr_task_id k (st_tasks st') = Some (change_head (commit_change d n now) r)"
      using moved(5,14) st' assms(5) by (simp add: head_upd.lookup_replace)
    moreover have "tr_head_revision r = ts_revision s" using moved(6) by (simp add: shows_head_def)
    moreover have "pd_outcome d = ACCEPTED" using moved(1) by (simp add: accepted_def)
    ultimately show ?thesis
      using moved(1,2,4,5,11,14) st' rows typed assms(5)
      by (intro exI [of _ r] exI [of _ pp] exI [of _ sp]) (simp add: typed_decision_def commit_change_def)
  next
    case (kept r)
    have "pd_outcome d' = (if accepted d then CONFLICT else pd_outcome d)"
      using kept(3,4) by (simp add: conflict_decision_def plain_decision_def)
    then show ?thesis
      using kept st' rows typed assms(5) by (intro exI [of _ r] exI [of _ pp] exI [of _ sp]) (auto simp: typed_decision_def)
  qed
qed

definition ex_delta_decision :: policy_decision where
  "ex_delta_decision =
     projr (evaluate ex_hashes ex_start_state GENERAL_V1 ex_delta 5 None False)"

lemma ex_delta_evaluate: "evaluate ex_hashes ex_start_state GENERAL_V1 ex_delta 5 None False = Inr ex_delta_decision"
  by code_simp

lemma ex_delta_accepted: "accepted ex_delta_decision"
  by code_simp

lemma ex_started_view:
  "view_of ex_started (start_row ex_request GENERAL_V1 ''system'' 5) =
     Inr \<lparr>tv_task = start_row ex_request GENERAL_V1 ''system'' 5, tv_state = ex_start_state, tv_profile = GENERAL_V1,
          tv_summary = summarize ex_start_state GENERAL_V1\<rparr>"
  by code_simp

lemma ex_started_snapshot: "stored_snapshot ex_hashes ex_started ex_start_state"
proof -
  have "start_row ex_request GENERAL_V1 ''system'' 5 \<in> set (st_tasks ex_started)" by (simp add: ex_started_tasks)
  then show ?thesis using view_of_stored [OF ex_started_ok _ ex_started_view] by simp
qed

definition ex_committed :: "store \<times> (task_error + transition_decision)" where
  "ex_committed = commit ex_hashes ex_delta ex_start_state ex_delta_decision 5 5 ''host'' ex_started"

lemma ex_committed_result: "ex_committed = (fst ex_committed, Inr (projr (snd ex_committed)))"
proof -
  have "\<not> isl (snd ex_committed)" by code_simp
  then show ?thesis by (metis prod.collapse sum.collapse(2))
qed

theorem commit_is_compare_and_swap_witness:
  "td_outcome (projr (snd ex_committed)) = ACCEPTED \<and>
   (\<exists>v. task_revisions (fst ex_committed) ''t'' = task_revisions ex_started ''t'' @ [v])"
proof -
  let ?r = "start_row ex_request GENERAL_V1 ''system'' 5"
  have k: "''t'' = ts_task_id ex_start_state" by (simp add: ex_start_state_def start_state_def ex_request_def)
  have look: "lookup_by tr_task_id ''t'' (st_tasks ex_started) = Some ?r"
    by (simp add: ex_started_tasks start_row_def ex_request_def)
  have head: "tr_head_revision ?r = ts_revision ex_start_state"
    by (simp add: start_row_def ex_start_state_def start_state_def)
  from commit_is_compare_and_swap [OF ex_started_star ex_started_snapshot ex_delta_evaluate
      ex_committed_result [unfolded ex_committed_def] k] look head ex_delta_accepted
  show ?thesis by (auto simp: ex_committed_def)
qed

section \<open>Replaying a submission\<close>

lemma length_show_nat: "length (show_nat n) \<le> n + 1"
proof (induction n rule: show_nat.induct)
  case (1 n)
  then show ?case by (cases "n < 10") (subst show_nat.simps, auto)+
qed

lemma in_dropWhile: "x \<in> set xs \<Longrightarrow> \<not> P x \<Longrightarrow> x \<in> set (dropWhile P xs)"
  by (induction xs) auto

lemma py_strip_nonempty: "x \<in> set s \<Longrightarrow> \<not> py_space x \<Longrightarrow> py_strip s \<noteq> []"
  using in_dropWhile [of x s py_space] in_dropWhile [of x "rev (dropWhile py_space s)" py_space]
  by (auto simp: py_strip_def)

lemma length_py_strip: "length (py_strip s) \<le> length s"
  using length_dropWhile_le [of py_space s] length_dropWhile_le [of py_space "rev (dropWhile py_space s)"]
  by (simp add: py_strip_def)

lemma completion_guards_ok:
  assumes "TaskState_ok n"
  shows "list_all GuardSignal_ok (completion_guards n)"
proof -
  let ?msg = "show_nat (length (unmet_items n)) @ '' item(s) are waiting on unfinished dependencies.''"
  have "length (ts_items n) \<le> 500" using assms by (simp add: TaskState_ok_def MAX_ITEMS_def)
  then have "length (unmet_items n) \<le> 500"
    unfolding unmet_items_def length_map by (rule order_trans [OF length_filter_le])
  then have "length ?msg \<le> 2000" using length_show_nat [of "length (unmet_items n)"] by simp
  then have "length (py_strip ?msg) \<le> 2000" using length_py_strip [of ?msg] by linarith
  moreover have "py_strip ?msg \<noteq> []"
    by (rule py_strip_nonempty [of "CHR ''i''"]) (simp_all add: py_space_def code_def)
  ultimately show ?thesis
    by (simp add: completion_guards_def Let_def guard_signal_of_def GuardSignal_ok_def text_ok_def MAX_TEXT_CHARS_def)
qed

lemma evaluate_guards_ok:
  assumes "evaluate H s profile prop now known allow = Inr d"
  shows "list_all GuardSignal_ok (pd_guards d)"
proof (cases "pd_outcome d = ACCEPTED")
  case True
  from assms True show ?thesis
    by (rule evaluate_acceptedE) (auto simp: completion_guards_ok apply_operations_Inr)
next
  case False
  then have "pd_guards d = []"
    using assms
    by (auto simp: evaluate_def decide_def settle_def precheck_def reject_def plain_decision_def
        split: option.splits sum.splits if_splits prod.splits)
  then show ?thesis by simp
qed


lemma replayed_decision_fields:
  assumes "decision_from_dict (set_key ''replayed'' (JBool True) j) = Inr d"
  shows "d\<lparr>td_evidence := [], td_replayed := True\<rparr> = d"
proof -
  obtain kvs where j: "j = JObj kvs"
    using assms by (cases j) (auto simp: decision_from_dict_def jfield_def)
  have "jget_or (set_key ''replayed'' (JBool True) j) ''replayed'' as_bool False = Inr True"
    by (simp add: jget_or_def j update_conv')
  then show ?thesis using assms by (auto simp: decision_from_dict_def Let_def)
qed

lemma find_snoc: "find P (xs @ [x]) = (case find P xs of None \<Rightarrow> if P x then Some x else None | Some y \<Rightarrow> Some y)"
  by (induction xs) auto

lemma insert_task_proposal_find:
  assumes "insert_task_proposal p st = Inr st'"
  shows "find_task_proposal st' (pp_task_id p) (pp_idempotency_key p) = Some p"
  using assms by (auto simp: insert_task_proposal_def find_task_proposal_def find_snoc split: if_splits)

lemma commit_body_recorded:
  assumes "commit_body H prop s d started now step_kind st = Inr (st', typed)"
  shows "\<exists>pp. find_task_proposal st' (pr_task_id prop) (pr_idempotency_key prop) = Some pp \<and>
     pp_payload_sha256 pp = payload_digest H prop \<and> pp_decision pp = TransitionDecision_to_dict typed"
proof -
  from assms obtain st1 u sr where p: "record_proposal H prop typed now st1 = Inr u" and s: "insert_task_step sr u = Inr st'"
    by (auto simp: commit_body_def Let_def split: if_splits sum.splits task_error.splits)
  have "st_proposals st' = st_proposals u" using insert_task_step_Inr [OF s] by auto
  then show ?thesis
    using insert_task_proposal_find [OF p [unfolded record_proposal_def]] by (simp add: find_task_proposal_def)
qed

lemma commit_typed_readable:
  assumes ok: "store_ok H st" and snap: "stored_snapshot H st s" and ev: "evaluate H s profile prop at known allow = Inr d"
    and scope: "AuthorityScope_ok (pr_scope prop)"
    and body: "commit_body H prop s d started now step_kind st = Inr (st', typed)"
  shows "decision_from_dict (set_key ''replayed'' (JBool True) (TransitionDecision_to_dict typed)) =
    Inr (typed\<lparr>td_evidence := [], td_replayed := True\<rparr>)"
  using body
proof (rule commit_body_Inr)
  fix st1 d' res
  assume ct: "commit_transition H prop s d now st = Inr (st1, d', res)"
    and typed: "typed = typed_decision H prop d' res now" "TransitionDecision_ok typed"
  have "d' = d \<or> d' = conflict_decision" using ok snap ev ct by (cases rule: commit_transition_cases) blast+
  then have "list_all GuardSignal_ok (pd_guards d')"
    using evaluate_guards_ok [OF ev] by (auto simp: conflict_decision_def plain_decision_def)
  then show ?thesis
    using typed(2) scope by (intro decision_replay) (simp_all add: typed(1) typed_decision_def)
qed


text \<open>
  [C7] Submission is idempotent: whatever a submission on a reachable store returned, submitting the same
  proposal again returns the same decision, marked as replayed and without its evidence, and changes nothing,
  whatever the clock, the privilege and the step kind of the second call.
\<close>

theorem submission_replays:
  assumes "(service_step H)\<^sup>*\<^sup>* empty_store st" and "submit H clk prop allow step_kind st = (st', Inr d)"
  shows "submit H clk' prop allow' step_kind' st' = (st', Inr (d\<lparr>td_evidence := [], td_replayed := True\<rparr>))"
proof -
  have ok: "store_ok H st" using assms(1) by (rule reachable_ok)
  obtain st1 x where prep: "submit_prepare H clk prop allow st = (st1, x)" by fastforce
  from assms(2) prep obtain y where x: "x = Inr y" by (cases x) (auto simp: submit_def)
  from prep x obtain row where row: "get_task st (pr_scope prop) (pr_task_id prop) = Some row"
    by (auto simp: submit_prepare_def split: option.splits)
  have rowin: "row \<in> set (st_tasks st)" "tr_task_id row = pr_task_id prop" "tr_scope row = pr_scope prop"
    using get_task_SomeD [OF row] by auto
  have "evolves st st'" using evolution.submit_rel [OF assms(2) ok TrueI] .
  then have "get_task st' (pr_scope prop) (pr_task_id prop) \<noteq> None"
    using rowin unfolding get_task_keys evolves_def task_keys_def by force
  then obtain row' where row': "get_task st' (pr_scope prop) (pr_task_id prop) = Some row'" by blast
  show ?thesis
  proof (cases y)
    case (Replayed e)
    then have e: "st' = st1" "e = d" using assms(2) prep x by (auto simp: submit_def)
    from prep x Replayed e(2) obtain old where old: "st1 = st"
      "find_task_proposal st (pr_task_id prop) (pr_idempotency_key prop) = Some old"
      "pp_payload_sha256 old = payload_digest H prop"
      "decision_from_dict (set_key ''replayed'' (JBool True) (pp_decision old)) = Inr d"
      by (auto simp: submit_prepare_def row lift_py_def split: option.splits if_splits sum.splits prod.splits)
    then show ?thesis
      using row replayed_decision_fields [OF old(4)] e(1) by (simp add: submit_def submit_prepare_def lift_py_def)
  next
    case (Ready v pd)
    have c: "commit H prop (tv_state v) pd (clk 0) (clk 4) step_kind st1 = (st', Inr d)"
      using assms(2) prep x Ready by (simp add: submit_def)
    then have body: "commit_body H prop (tv_state v) pd (clk 0) (clk 4) step_kind st1 = Inr (st', d)"
      by (cases "commit_body H prop (tv_state v) pd (clk 0) (clk 4) step_kind" st1 rule: transaction_cases)
         (auto simp: commit_def)
    have pre: "store_ok H st1" "stored_snapshot H st1 (tv_state v)"
      "evaluate H (tv_state v) (tv_profile v) prop (clk 3) None allow = Inr pd"
      using submit_prepare_Ready [OF prep [unfolded x Ready] ok] by auto
    obtain w where "view_of st row = Inr w" "shows_head row (tv_state w)" using view_ok [OF ok rowin(1)] .
    then have "AuthorityScope_ok (pr_scope prop)"
      using rowin(3) unfolding shows_head_def state_valid_def by metis
    then have rd: "decision_from_dict (set_key ''replayed'' (JBool True) (TransitionDecision_to_dict d)) =
        Inr (d\<lparr>td_evidence := [], td_replayed := True\<rparr>)"
      using commit_typed_readable [OF pre _ body] by blast
    obtain pp where "find_task_proposal st' (pr_task_id prop) (pr_idempotency_key prop) = Some pp"
      "pp_payload_sha256 pp = payload_digest H prop" "pp_decision pp = TransitionDecision_to_dict d"
      using commit_body_recorded [OF body] by blast
    then show ?thesis using row' rd by (simp add: submit_def submit_prepare_def lift_py_def)
  qed
qed

lemma ex_submit_result:
  "submit ex_hashes (\<lambda>i. 5) ex_delta False ''host'' ex_started =
     (ex_submitted, Inr (projr (snd (submit ex_hashes (\<lambda>i. 5) ex_delta False ''host'' ex_started))))"
proof -
  have "\<not> isl (snd (submit ex_hashes (\<lambda>i. 5) ex_delta False ''host'' ex_started))" by code_simp
  then show ?thesis unfolding ex_submitted_def by (metis prod.collapse sum.collapse(2))
qed

theorem submission_replays_witness:
  "\<exists>d. submit ex_hashes (\<lambda>i. 9) ex_delta True ''again'' ex_submitted = (ex_submitted, Inr d) \<and> td_replayed d"
  using submission_replays [OF ex_started_star ex_submit_result] by auto

section \<open>Lifecycle changes take effect\<close>

lemma lifecycle_state_ok: "TaskState_ok s \<Longrightarrow> TaskState_ok (lifecycle_state s target now)"
  by (simp add: TaskState_ok_def lifecycle_state_def item_ids_def)

lemma fresh_revision:
  assumes hist: "history_ok H r (task_revisions st k)" and v: "v \<in> set (st_revisions st)" "rr_task_id v = k"
  shows "rr_revision v \<noteq> tr_head_revision r + 1 \<and> rr_parent_revision v \<noteq> Some (tr_head_revision r)"
proof -
  let ?rs = "task_revisions st k"
  have num: "numbered ?rs" "tr_head_revision r = int (length ?rs)" using hist by (auto simp: history_ok_def)
  have "v \<in> set ?rs" using v by (simp add: task_revisions_def)
  then obtain i where "i < length ?rs" "v = ?rs ! i" by (metis in_set_conv_nth)
  then show ?thesis using numbered_nth [OF num(1)] num(2) by auto
qed

lemma lifecycle_body_succeeds:
  assumes ok: "store_ok H st" and r: "r \<in> set (st_tasks st)" and s: "shows_head r s"
  shows "\<exists>st'. lifecycle_body H r s target actor role reason rule now st = Inr (st', ())"
proof -
  have hist: "history_ok H r (task_revisions st (tr_task_id r))" and fields: "row_fields_ok r"
    using ok r by (auto simp: store_ok_def row_ok_def)
  have look: "lookup_by tr_task_id (tr_task_id r) (st_tasks st) = Some r" using ok r by (simp add: lookup_tasks_distinct)
  have has: "has_task st (tr_task_id r)" using look by (rule has_task_lookup)
  have head: "ts_revision s = tr_head_revision r" "ts_task_id s = tr_task_id r" "1 \<le> tr_head_revision r"
    using s hist by (auto simp: shows_head_def state_valid_def TaskState_ok_def)
  have w: "write_revision H (lifecycle_state s target now) actor role cs es now False st =
      Inr (st\<lparr>st_revisions := st_revisions st @ [v]\<rparr>)"
    if "v = \<lparr>rr_task_id = tr_task_id r, rr_revision = tr_head_revision r + 1, rr_parent_revision = Some (tr_head_revision r),
        rr_state = TaskState_to_dict (lifecycle_state s target now), rr_state_sha256 = state_digest H (lifecycle_state s target now),
        rr_semantic_sha256 = semantic_digest H (lifecycle_state s target now), rr_actor = actor, rr_actor_role = role,
        rr_reason_codes = cs, rr_evidence = es, rr_created_at = now, rr_is_progress = False\<rparr>" for v cs es
    using fresh_revision [OF hist] head has that
    by (auto simp: write_revision_def insert_task_revision_Inr lifecycle_state_def)
  have "0 \<le> hc_add_paused_ms (lifecycle_change r s target reason now)"
    by (auto simp: lifecycle_change_def split: option.splits)
  then have a: "advance_task_head (tr_task_id r) (ts_revision s) (lifecycle_change r s target reason now) u =
      Inr (True, u\<lparr>st_tasks := replace_by tr_task_id (tr_task_id r) (change_head (lifecycle_change r s target reason now)) (st_tasks u)\<rparr>)"
    if "st_tasks u = st_tasks st" for u
    using look head fields that by (auto simp: advance_task_head_def lifecycle_change_def row_fields_ok_def)
  show ?thesis
    using has
    by (simp add: lifecycle_body_def Let_def w [OF refl] a insert_task_provenance_def insert_task_step_def
        provenance_def step_def TARGET_KINDS_def del: bind_res_eq_Inr)
       (simp add: has_task_def head_upd.key_image_replace)
qed

text \<open>Under the invariant a requested lifecycle change of a live task is always committed.\<close>

lemma lifecycle_core_effect:
  assumes ok: "store_ok H st" and r: "r \<in> set (st_tasks st)" and live: "\<not> lifecycle_terminal (tr_lifecycle r)" "tr_lifecycle r \<noteq> target"
  obtains st' v where "lifecycle_core H now (tr_scope r) r target actor role reason rule st = (st', Inr v)"
    "lookup_by tr_task_id (tr_task_id r) (st_tasks st') = Some (tv_task v)" "tr_lifecycle (tv_task v) = target"
    "ts_lifecycle (tv_state v) = target" "tr_head_revision (tv_task v) = tr_head_revision r + 1"
    "lifecycle_terminal target \<Longrightarrow> tr_terminal_reason (tv_task v) = Some reason" "store_ok H st'"
    "tr_scope (tv_task v) = tr_scope r"
    "tr_no_progress_paused_ms (tv_task v) = tr_no_progress_paused_ms r +
       (if target = PAUSED then 0 else case tr_paused_at r of None \<Rightarrow> 0 | Some t \<Rightarrow> elapsed_ms t now)"
    "\<exists>c. tv_task v = change_head c r"
    "st_tasks st' = map (\<lambda>x. if tr_task_id x = tr_task_id r then tv_task v else x) (st_tasks st)"
proof -
  obtain w where w: "view_of st r = Inr w" "shows_head r (tv_state w)" using view_ok [OF ok r] .
  let ?body = "lifecycle_body H r (tv_state w) target actor role reason rule now"
  let ?c = "lifecycle_change r (tv_state w) target reason now"
  obtain st' where b: "?body st = Inr (st', ())" using lifecycle_body_succeeds [OF ok r w(2)] by metis
  have valid: "TaskState_ok (lifecycle_state (tv_state w) target now)"
    using w(2) by (intro lifecycle_state_ok) (simp add: shows_head_def state_valid_def)
  have look: "lookup_by tr_task_id (tr_task_id r) (st_tasks st) = Some r" using ok r by (simp add: lookup_tasks_distinct)
  have ok': "store_ok H st'" using lifecycle_body_ok [OF ok look w(2) live valid b] .
  from b w(2) look have tasks: "st_tasks st' = replace_by tr_task_id (tr_task_id r) (change_head ?c) (st_tasks st)"
    by (rule lifecycle_body_Inr) auto
  then have look': "lookup_by tr_task_id (tr_task_id r) (st_tasks st') = Some (change_head ?c r)"
    using look by (simp add: head_upd.lookup_replace)
  have "x = r" if "x \<in> set (st_tasks st)" "tr_task_id x = tr_task_id r" for x
    using look lookup_tasks_distinct [OF ok, of "tr_task_id r" x] that by simp
  then have rows: "st_tasks st' = map (\<lambda>x. if tr_task_id x = tr_task_id r then change_head ?c r else x) (st_tasks st)"
    unfolding tasks replace_by_def by (intro map_cong) auto
  have r': "change_head ?c r \<in> set (st_tasks st')" using lookup_by_SomeD [OF look'] by simp
  have req: "require_task st' (tr_scope r) (tr_task_id r) = Inr (change_head ?c r)"
    using look' ok' get_task_lookup [of st' "tr_scope r" "tr_task_id r" "change_head ?c r"]
    by (simp add: require_task_def store_ok_def)
  obtain v where v: "view_of st' (change_head ?c r) = Inr v" using view_ok [OF ok' r'] .
  have vr: "tv_task v = change_head ?c r" "shows_head (change_head ?c r) (tv_state v)"
    using view_of_stored [OF ok' r' v] by auto
  show thesis
  proof (rule that)
    show "lifecycle_core H now (tr_scope r) r target actor role reason rule st = (st', Inr v)"
      using live w(1) valid b req v by (simp add: lifecycle_core_def transaction_def)
    show "lookup_by tr_task_id (tr_task_id r) (st_tasks st') = Some (tv_task v)" using look' vr(1) by simp
    show "tr_lifecycle (tv_task v) = target" by (simp add: vr(1) change_head_def lifecycle_change_def or_keep_def)
    then show "ts_lifecycle (tv_state v) = target" using vr by (simp add: shows_head_def)
    show "tr_head_revision (tv_task v) = tr_head_revision r + 1"
      using w(2) by (simp add: vr(1) lifecycle_change_def shows_head_def)
    show "tr_terminal_reason (tv_task v) = Some reason" if "lifecycle_terminal target"
      using that by (simp add: vr(1) change_head_def lifecycle_change_def)
    show "tr_scope (tv_task v) = tr_scope r" by (simp add: vr(1))
    show "tr_no_progress_paused_ms (tv_task v) = tr_no_progress_paused_ms r +
        (if target = PAUSED then 0 else case tr_paused_at r of None \<Rightarrow> 0 | Some t \<Rightarrow> elapsed_ms t now)"
      by (simp add: vr(1) change_head_def lifecycle_change_def)
    show "\<exists>c. tv_task v = change_head c r" using vr(1) by blast
    show "st_tasks st' = map (\<lambda>x. if tr_task_id x = tr_task_id r then tv_task v else x) (st_tasks st)" using rows vr(1) by simp
  qed (fact ok')
qed

lemma lookup_get_task:
  "store_ok H st \<Longrightarrow> lookup_by tr_task_id k (st_tasks st) = Some r \<Longrightarrow> tr_scope r = sc \<Longrightarrow> get_task st sc k = Some r"
  using get_task_lookup by (simp add: store_ok_def)

lemma get_task_in: "store_ok H st \<Longrightarrow> r \<in> set (st_tasks st) \<Longrightarrow> get_task st (tr_scope r) (tr_task_id r) = Some r"
  by (intro lookup_get_task) (simp_all add: lookup_tasks_distinct)

text \<open>An overdue task is expired by the next evaluation; no error leaves it.\<close>

lemma expire_if_due_effect:
  assumes ok: "store_ok H st" and r: "r \<in> set (st_tasks st)" and live: "\<not> lifecycle_terminal (tr_lifecycle r)"
    and due: "xr_due_reason (expiry_status r (clk 0)) = Some why"
  obtains st' r' c where "expire_if_due H clk (tr_scope r) r st = (st', Inr (Some r'))" "r' = change_head c r"
    "lookup_by tr_task_id (tr_task_id r) (st_tasks st') = Some r'" "tr_lifecycle r' = EXPIRED"
    "tr_terminal_reason r' = Some why" "tr_head_revision r' = tr_head_revision r + 1" "store_ok H st'"
    "st_tasks st' = map (\<lambda>x. if tr_task_id x = tr_task_id r then r' else x) (st_tasks st)"
proof -
  have g: "get_task st (tr_scope r) (tr_task_id r) = Some r" using ok r by (rule get_task_in)
  have ended: "lifecycle_terminal EXPIRED" by (simp add: lifecycle_terminal_def)
  have ne: "tr_lifecycle r \<noteq> EXPIRED" using live by (auto simp: lifecycle_terminal_def)
  obtain st' v where c: "lifecycle_core H (clk 1) (tr_scope r) r EXPIRED ''atmem-policy-evaluator'' POLICY_EVALUATOR why (Some why) st = (st', Inr v)"
    and look: "lookup_by tr_task_id (tr_task_id r) (st_tasks st') = Some (tv_task v)"
    and v: "tr_lifecycle (tv_task v) = EXPIRED" "tr_head_revision (tv_task v) = tr_head_revision r + 1"
      "tr_terminal_reason (tv_task v) = Some why" "store_ok H st'" "tr_scope (tv_task v) = tr_scope r"
      "\<exists>c. tv_task v = change_head c r" "st_tasks st' = map (\<lambda>x. if tr_task_id x = tr_task_id r then tv_task v else x) (st_tasks st)"
    by (rule lifecycle_core_effect [OF ok r live ne, where reason = why and rule = "Some why" and now = "clk 1"]) (use ended in blast)
  have g': "get_task st' (tr_scope r) (tr_task_id r) = Some (tv_task v)" using lookup_get_task [OF v(4) look v(5)] .
  have "require POLICY_EVALUATOR ''expire_task'' = Inr ()" by code_simp
  then have "expire_if_due H clk (tr_scope r) r st = (st', Inr (Some (tv_task v)))"
    using due c g g' by (simp add: expire_if_due_def lifecycle_expire_def require_task_def)
  then show thesis using v look that by blast
qed

text \<open>
  [C9] Expiry is evaluated exactly: on a reachable store a live task is left alone when its rule does not fire
  at the time read, and is expired, with the rule that fired as its terminal reason, when it does.  No read of
  an overdue task can find it alive.
\<close>

theorem overdue_tasks_expire:
  assumes "(service_step H)\<^sup>*\<^sup>* empty_store st" and "r \<in> set (st_tasks st)" and "\<not> lifecycle_terminal (tr_lifecycle r)"
  shows "case xr_due_reason (expiry_status r (clk 0)) of
      None \<Rightarrow> evaluate_expiry H clk (tr_scope r) (tr_task_id r) st = (st, Inr None)
    | Some why \<Rightarrow> \<exists>st' r'. evaluate_expiry H clk (tr_scope r) (tr_task_id r) st = (st', Inr (Some r')) \<and>
        lookup_by tr_task_id (tr_task_id r) (st_tasks st') = Some r' \<and> tr_lifecycle r' = EXPIRED \<and>
        tr_terminal_reason r' = Some why \<and> tr_head_revision r' = tr_head_revision r + 1 \<and>
        (\<exists>v. get_view H clk (tr_scope r) (tr_task_id r) True st = (st', Inr v) \<and> ts_lifecycle (tv_state v) = EXPIRED)"
proof -
  have ok: "store_ok H st" using assms(1) by (rule reachable_ok)
  have g: "get_task st (tr_scope r) (tr_task_id r) = Some r" using ok assms(2) by (rule get_task_in)
  show ?thesis
  proof (cases "xr_due_reason (expiry_status r (clk 0))")
    case None
    then show ?thesis by (simp add: evaluate_expiry_def expire_if_due_def g)
  next
    case (Some why)
    obtain st' r' c where e: "expire_if_due H clk (tr_scope r) r st = (st', Inr (Some r'))" "r' = change_head c r"
      and look: "lookup_by tr_task_id (tr_task_id r) (st_tasks st') = Some r'"
      and r': "tr_lifecycle r' = EXPIRED" "tr_terminal_reason r' = Some why" "tr_head_revision r' = tr_head_revision r + 1"
      and ok': "store_ok H st'"
      by (rule expire_if_due_effect [where clk = clk, OF ok assms(2,3) Some])
    have in': "r' \<in> set (st_tasks st')" using lookup_by_SomeD [OF look] by simp
    obtain w where w: "view_of st' r' = Inr w" "shows_head r' (tv_state w)" using view_ok [OF ok' in'] .
    have "get_view H clk (tr_scope r) (tr_task_id r) True st = (st', Inr w)"
      using assms(3) e(1) w(1) g by (simp add: get_view_def refresh_def require_task_def)
    then show ?thesis using Some e(1) look r' w(2) g by (auto simp: evaluate_expiry_def shows_head_def)
  qed
qed

text \<open>A task under a profile that expires after a millisecond, and two seconds later.\<close>

definition ex_timed_profile :: json where
  "ex_timed_profile =
     JObj [(''profile_id'', JStr ''timed''), (''version'', JStr ''timed-v1''),
           (''phases'', strs_json [''plan'', ''done'']),
           (''phase_transitions'', JList [strs_json [''plan'', ''done'']]),
           (''expiry'', JObj [(''max_absolute_age_ms'', JNum 1)])]"

definition ex_timed :: store where
  "ex_timed = fst (start ex_hashes (\<lambda>i. 0) ''system'' (ex_request\<lparr>sr_profile_version := ''timed-v1''\<rparr>) []
     (fst (register_profile ex_hashes ex_timed_profile ''op'' False 0 empty_store)))"

definition ex_timed_row :: task_row where
  "ex_timed_row = hd (st_tasks ex_timed)"

lemma ex_timed_star: "(service_step ex_hashes)\<^sup>*\<^sup>* empty_store ex_timed"
proof -
  let ?u = "fst (register_profile ex_hashes ex_timed_profile ''op'' False 0 empty_store)"
  have "service_step ex_hashes empty_store ?u" by (rule registers) (rule prod.collapse [symmetric])
  moreover have "start_input_ok (ex_request\<lparr>sr_profile_version := ''timed-v1''\<rparr>) []" by code_simp
  then have "service_step ex_hashes ?u ex_timed"
    unfolding ex_timed_def by (rule starts [rotated]) (rule prod.collapse [symmetric])
  ultimately show ?thesis by simp
qed

lemma ex_timed_rows:
  "map (\<lambda>r. (tr_created_at r, tr_lifecycle r, tr_task_id r, tr_scope r, xp_max_absolute_age_ms (tr_expiry_rule r)))
     (st_tasks ex_timed) = [(0, OPEN, ''t'', ex_scope, Some 1)]"
  by code_simp

lemma ex_timed_row_in: "ex_timed_row \<in> set (st_tasks ex_timed)"
  using ex_timed_rows unfolding ex_timed_row_def by (cases "st_tasks ex_timed") auto

lemma ex_timed_fields:
  "tr_created_at ex_timed_row = 0 \<and> tr_lifecycle ex_timed_row = OPEN \<and> tr_task_id ex_timed_row = ''t'' \<and>
   tr_scope ex_timed_row = ex_scope \<and> xp_max_absolute_age_ms (tr_expiry_rule ex_timed_row) = Some 1"
  using ex_timed_rows unfolding ex_timed_row_def by (cases "st_tasks ex_timed") auto

lemma ex_elapsed: "elapsed_ms 0 2000000 = 2000"
proof -
  have s: "scale 2000000 1000000 = 51" by (rule scale_eq) simp_all
  have m: "round_half_even (2000000 * 2 ^ 51) 1000000 = 2 ^ 52" by (simp add: round_half_even_def)
  have "float_ms 2000000 = 2000" unfolding float_ms_def s m Let_def by (simp add: round_half_even_def)
  then show ?thesis by (simp add: elapsed_ms_def)
qed

theorem overdue_tasks_expire_witness:
  "\<exists>st' r'. evaluate_expiry ex_hashes (\<lambda>i. 2000000) ex_scope ''t'' ex_timed = (st', Inr (Some r')) \<and>
     tr_lifecycle r' = EXPIRED \<and> tr_terminal_reason r' = Some ''expired_absolute_age''"
proof -
  have live: "\<not> lifecycle_terminal (tr_lifecycle ex_timed_row)" using ex_timed_fields by (simp add: lifecycle_terminal_def)
  have "xr_due_reason (expiry_status ex_timed_row 2000000) = Some ''expired_absolute_age''"
    using ex_timed_fields by (simp add: expiry_status_def Let_def ex_elapsed reached_def)
  then show ?thesis
    using overdue_tasks_expire [OF ex_timed_star ex_timed_row_in live, of "\<lambda>i. 2000000"] ex_timed_fields by auto
qed

section \<open>Pauses\<close>

lemma numbered_sorted: "numbered rs \<Longrightarrow> sort_key rr_revision rs = rs"
proof (rule sort_key_id_if_sorted)
  assume "numbered rs"
  then have "map rr_revision rs = map (\<lambda>i. int i + 1) [0..<length rs]" by (simp add: numbered_def)
  then show "sorted (map rr_revision rs)" by (simp only:) (simp add: sorted_map sorted_wrt_upt)
qed

text \<open>
  [C30] The incremental pause accounting of a row agrees with recomputing it from the stored revisions, on
  every reachable store and for every task of at most a thousand revisions, the number the recomputation reads.
\<close>

theorem pause_accounting_rebuilds:
  assumes "(service_step H)\<^sup>*\<^sup>* empty_store st" and "r \<in> set (st_tasks st)" and "tr_head_revision r \<le> 1000"
  shows "rebuild_task_pause_accounting st (tr_task_id r) = tr_no_progress_paused_ms r"
proof -
  have "row_ok H st r" using reachable_ok [OF assms(1)] assms(2) by (simp add: store_ok_def)
  then have rs: "numbered (task_revisions st (tr_task_id r))" "tr_head_revision r = int (length (task_revisions st (tr_task_id r)))"
    "fold pause_next (task_revisions st (tr_task_id r)) (None, 0) = pause_of r"
    by (auto simp: row_ok_def history_ok_def)
  then have "list_task_revisions st (tr_task_id r) 1000 = task_revisions st (tr_task_id r)"
    using assms(3) by (simp add: list_task_revisions_def numbered_sorted clamp_def)
  then show ?thesis using rs(3) by (simp add: rebuild_task_pause_accounting_def pause_loop_fold pause_of_def)
qed

definition ex_paused :: store where
  "ex_paused = fst (pause ex_hashes (\<lambda>i. 5) ex_scope ''t'' ''op'' OPERATOR ''wait'' ex_started)"

definition ex_resumed :: store where
  "ex_resumed = fst (resume ex_hashes (\<lambda>i. 2000005) ex_scope ''t'' ''op'' OPERATOR ''go'' ex_paused)"

lemma ex_paused_star: "(service_step ex_hashes)\<^sup>*\<^sup>* empty_store ex_paused"
proof -
  have "service_step ex_hashes ex_started ex_paused" unfolding ex_paused_def by (rule pauses) (rule prod.collapse [symmetric])
  then show ?thesis using ex_started_star by (meson rtranclp.rtrancl_into_rtrancl)
qed

lemma ex_resumed_star: "(service_step ex_hashes)\<^sup>*\<^sup>* empty_store ex_resumed"
proof -
  have "service_step ex_hashes ex_paused ex_resumed" unfolding ex_resumed_def by (rule resumes) (rule prod.collapse [symmetric])
  then show ?thesis using ex_paused_star by (meson rtranclp.rtrancl_into_rtrancl)
qed

lemma ex_paused_row:
  "map (\<lambda>r. (tr_task_id r, tr_scope r, tr_head_revision r, tr_lifecycle r, tr_paused_at r, tr_no_progress_paused_ms r,
     tr_expiry_rule r)) (st_tasks ex_paused) =
   [(''t'', ex_scope, 2, PAUSED, Some 5, 0, \<lparr>xp_max_absolute_age_ms = None, xp_max_no_progress_age_ms = None\<rparr>)]"
  by code_simp

lemma ex_elapsed_pause: "elapsed_ms 5 2000005 = 2000"
  using ex_elapsed by (simp add: elapsed_ms_def)

text \<open>Resuming after two seconds adds them to the pause time of the row.\<close>

lemma ex_resumed_row:
  obtains r where "r \<in> set (st_tasks ex_resumed)" "tr_task_id r = ''t''" "tr_head_revision r = 3" "tr_no_progress_paused_ms r = 2000"
proof -
  obtain r where rows: "st_tasks ex_paused = [r]" and f: "tr_task_id r = ''t''" "tr_scope r = ex_scope" "tr_head_revision r = 2"
    "tr_lifecycle r = PAUSED" "tr_paused_at r = Some 5" "tr_no_progress_paused_ms r = 0"
    "tr_expiry_rule r = \<lparr>xp_max_absolute_age_ms = None, xp_max_no_progress_age_ms = None\<rparr>"
    using ex_paused_row by auto
  have ok: "store_ok ex_hashes ex_paused" using ex_paused_star by (rule reachable_ok)
  have live: "\<not> lifecycle_terminal (tr_lifecycle r)" "tr_lifecycle r \<noteq> OPEN" using f(4) by (simp_all add: lifecycle_terminal_def)
  have rin: "r \<in> set (st_tasks ex_paused)" using rows by simp
  obtain st' v where c: "lifecycle_core ex_hashes 2000005 (tr_scope r) r OPEN ''op'' OPERATOR ''go'' None ex_paused = (st', Inr v)"
    "lookup_by tr_task_id (tr_task_id r) (st_tasks st') = Some (tv_task v)" "tr_head_revision (tv_task v) = tr_head_revision r + 1"
    "tr_no_progress_paused_ms (tv_task v) = tr_no_progress_paused_ms r +
       (if OPEN = PAUSED then 0 else case tr_paused_at r of None \<Rightarrow> 0 | Some t \<Rightarrow> elapsed_ms t 2000005)"
    by (rule lifecycle_core_effect [OF ok rin live])
  have "xr_due_reason (expiry_status r 2000005) = None" by (simp add: expiry_status_def f(7) reached_def Let_def)
  then have "refresh ex_hashes (\<lambda>i. 2000005) ex_scope r ex_paused = (ex_paused, Inr r)"
    using live(1) by (simp add: refresh_def expire_if_due_def)
  moreover have "require_task ex_paused ex_scope ''t'' = Inr r" using get_task_in [OF ok rin] f(1,2) by (simp add: require_task_def)
  moreover have "require OPERATOR ''change_lifecycle'' = Inr ()" by code_simp
  ultimately have "ex_resumed = st'" using c(1) f(2) by (simp add: ex_resumed_def resume_def lifecycle_def)
  then show thesis using lookup_by_SomeD [OF c(2)] c(3,4) f ex_elapsed_pause by (intro that [of "tv_task v"]) simp_all
qed

theorem pause_accounting_rebuilds_witness: "rebuild_task_pause_accounting ex_resumed ''t'' = 2000"
  by (rule ex_resumed_row) (use pause_accounting_rebuilds [OF ex_resumed_star] in force)

section \<open>Scopes, deletion and races\<close>

text \<open>
  [C26] A scope that does not own a task learns nothing about it and changes nothing: if every stored task with the
  identifier has another subject, agent or workspace, then a read, a submission, a completion, and every permitted
  pause, resumption or deletion naming it answers as for a task that does not exist, and expiry leaves it alone.
\<close>

theorem foreign_scope_sees_nothing:
  assumes "\<forall>r\<in>set (st_tasks st). tr_task_id r = k \<longrightarrow> tr_scope r \<noteq> sc" and "pr_scope prop = sc" and "pr_task_id prop = k"
  shows "get_view H clk sc k b st = (st, Inl (TaskStateError ''task_not_eligible'')) \<and>
     submit H clk prop allow kind st = (st, Inl (TaskStateError ''task_not_eligible'')) \<and>
     complete H clk sc k actor role reason st = (st, Inl (TaskStateError ''task_not_eligible'')) \<and>
     evaluate_expiry H clk sc k st = (st, Inr None) \<and>
     (require role ''change_lifecycle'' = Inr () \<longrightarrow>
        pause H clk sc k actor role reason st = (st, Inl (TaskStateError ''task_not_eligible'')) \<and>
        resume H clk sc k actor role reason st = (st, Inl (TaskStateError ''task_not_eligible''))) \<and>
     (require role ''delete_state'' = Inr () \<longrightarrow> forget sc k role st = (st, Inl (TaskStateError ''task_not_eligible'')))"
proof -
  have "get_task st sc k = None" using assms(1) by (auto simp: get_task_def find_None_iff)
  then show ?thesis
    using assms(2,3)
    by (simp add: get_view_def submit_def submit_prepare_def complete_def evaluate_expiry_def pause_def resume_def
        lifecycle_def forget_def require_task_def)
qed

definition ex_other_scope :: authority_scope where
  "ex_other_scope = ex_scope\<lparr>sc_agent_id := ''other''\<rparr>"

theorem foreign_scope_sees_nothing_witness:
  "has_task ex_started ''t'' \<and>
   get_view ex_hashes (\<lambda>i. 5) ex_other_scope ''t'' True ex_started =
     (ex_started, Inl (TaskStateError ''task_not_eligible''))"
proof -
  have "\<forall>r\<in>set (st_tasks ex_started). tr_task_id r = ''t'' \<longrightarrow> tr_scope r \<noteq> ex_other_scope" "has_task ex_started ''t''"
    by (simp_all add: has_task_def ex_started_tasks start_row_def ex_request_def ex_other_scope_def ex_scope_def)
  then show ?thesis
    using foreign_scope_sees_nothing [of ex_started "''t''" ex_other_scope
        "ex_delta\<lparr>pr_scope := ex_other_scope\<rparr>"] by (simp add: ex_delta_def)
qed

lemma length_removed: "length (filter P xs) = length xs - length (filter (\<lambda>x. \<not> P x) xs)"
  using sum_length_filter_compl [of P xs] by linarith

text \<open>
  [C25] Forgetting erases: after it no row of any table belongs to the task, every other task keeps its row and
  its revisions, and the receipt names each of the seven tables with the number of rows that went from it.  Its
  separate number of removed revisions is that number up to two hundred, where the read that counts them stops.
\<close>

theorem forget_erases:
  assumes "(service_step H)\<^sup>*\<^sup>* empty_store st" and "forget sc k role st = (st', Inr receipt)"
  shows "de_deleted receipt \<and> \<not> has_task st' k \<and> task_revisions st' k = [] \<and>
     (\<forall>v\<in>set (st_provenance st'). pv_task_id v \<noteq> k) \<and> (\<forall>v\<in>set (st_proposals st'). pp_task_id v \<noteq> k) \<and>
     (\<forall>v\<in>set (st_steps st'). sp_task_id v \<noteq> k) \<and> (\<forall>v\<in>set (st_deliveries st'). dl_task_id v \<noteq> k) \<and>
     (\<forall>v\<in>set (st_bindings st'). sb_task_id v \<noteq> k) \<and>
     (\<forall>r\<in>set (st_tasks st). tr_task_id r \<noteq> k \<longrightarrow>
        r \<in> set (st_tasks st') \<and> task_revisions st' (tr_task_id r) = task_revisions st (tr_task_id r)) \<and>
     de_removed receipt =
       [(''governed_task_deliveries'', length (st_deliveries st) - length (st_deliveries st')),
        (''governed_task_steps'', length (st_steps st) - length (st_steps st')),
        (''governed_task_proposals'', length (st_proposals st) - length (st_proposals st')),
        (''governed_task_provenance'', length (st_provenance st) - length (st_provenance st')),
        (''governed_task_session_bindings'', length (st_bindings st) - length (st_bindings st')),
        (''governed_task_revisions'', length (task_revisions st k)), (''governed_tasks'', 1)] \<and>
     de_revisions_removed receipt = min 200 (length (task_revisions st k))"
proof -
  have ok: "store_ok H st" using assms(1) by (rule reachable_ok)
  from assms(2) obtain r0 b removed where r0: "require_task st sc k = Inr r0" and d: "delete_task sc k st = (st', b, removed)"
    and rc: "de_deleted receipt = b" "de_removed receipt = removed" "de_revisions_removed receipt = length (list_task_revisions st k 200)"
    by (auto simp: forget_def split: sum.splits prod.splits)
  from d show ?thesis
  proof (cases rule: delete_task_cases)
    case 1
    then show ?thesis using r0 by (simp add: require_task_def)
  next
    case (2 r)
    have rin: "r \<in> set (st_tasks st)" "tr_task_id r = k" using get_task_SomeD [OF 2(1)] by auto
    have "filter (\<lambda>x. tr_task_id x = k) (st_tasks st) = [r]"
      using rin ok by (intro filter_unique) (simp_all add: store_ok_def)
    moreover have tables: "st_deliveries st' = filter (\<lambda>r. dl_task_id r \<noteq> k) (st_deliveries st)"
      "st_steps st' = filter (\<lambda>r. sp_task_id r \<noteq> k) (st_steps st)"
      "st_proposals st' = filter (\<lambda>r. pp_task_id r \<noteq> k) (st_proposals st)"
      "st_provenance st' = filter (\<lambda>r. pv_task_id r \<noteq> k) (st_provenance st)"
      "st_bindings st' = filter (\<lambda>r. sb_task_id r \<noteq> k) (st_bindings st)"
      using d 2(1) by (auto simp: delete_task_def drop_task_rows_def Let_def)
    ultimately have "removed_counts k st =
       [(''governed_task_deliveries'', length (st_deliveries st) - length (st_deliveries st')),
        (''governed_task_steps'', length (st_steps st) - length (st_steps st')),
        (''governed_task_proposals'', length (st_proposals st) - length (st_proposals st')),
        (''governed_task_provenance'', length (st_provenance st) - length (st_provenance st')),
        (''governed_task_session_bindings'', length (st_bindings st) - length (st_bindings st')),
        (''governed_task_revisions'', length (task_revisions st k)), (''governed_tasks'', 1)]"
      by (simp add: removed_counts_def task_revisions_def tables length_removed [of "\<lambda>r. dl_task_id r = k"]
          length_removed [of "\<lambda>r. sp_task_id r = k"] length_removed [of "\<lambda>r. pp_task_id r = k"]
          length_removed [of "\<lambda>r. pv_task_id r = k"] length_removed [of "\<lambda>r. sb_task_id r = k"])
    moreover have "de_revisions_removed receipt = min 200 (length (task_revisions st k))"
      using rc(3) by (simp add: list_task_revisions_def clamp_def)
    moreover have "task_revisions st' (tr_task_id x) = task_revisions st (tr_task_id x)" if "tr_task_id x \<noteq> k" for x
      using dropped_revisions [OF 2(2)] that by simp
    ultimately show ?thesis
      using 2(2-4) rc by (auto simp: dropped_def has_task_def task_revisions_def filter_empty_conv)
  qed
qed

theorem forget_erases_witness: "\<exists>st' g. forget ex_scope ''t'' ADMINISTRATOR ex_started = (st', Inr g) \<and> \<not> has_task st' ''t''"
proof -
  let ?f = "forget ex_scope ''t'' ADMINISTRATOR ex_started"
  have "\<not> isl (snd ?f)" by code_simp
  then obtain st' g where "?f = (st', Inr g)" by (metis prod.collapse sum.collapse(2))
  then show ?thesis using forget_erases [OF ex_started_star, of ex_scope "''t''" ADMINISTRATOR] by simp
qed

text \<open>
  A lifecycle change prepared on a revision that is no longer the head always fails with the constraint
  error of the revision table; the code's own stale-revision error, which its callers handle, cannot occur.
\<close>

theorem stale_lifecycle_hits_constraint:
  assumes "(service_step H)\<^sup>*\<^sup>* empty_store st" and "stored_snapshot H st s"
    and "lookup_by tr_task_id (ts_task_id s) (st_tasks st) = Some r" and "ts_revision s \<noteq> tr_head_revision r"
  shows "lifecycle_body H r0 s target actor role reason rule now st = Inl IntegrityError"
proof -
  have ok: "store_ok H st" using assms(1) by (rule reachable_ok)
  obtain r' where r': "lookup_by tr_task_id (ts_task_id s) (st_tasks st) = Some r'"
    "history_ok H r' (task_revisions st (ts_task_id s))" "1 \<le> ts_revision s" "ts_revision s \<le> tr_head_revision r'"
    using stored_snapshot_history [OF ok assms(2)] by metis
  then have lt: "ts_revision s < tr_head_revision r'" using assms(3,4) by simp
  have num: "numbered (task_revisions st (ts_task_id s))" "tr_head_revision r' = int (length (task_revisions st (ts_task_id s)))"
    using r'(2) by (auto simp: history_ok_def)
  obtain v where v: "v \<in> set (task_revisions st (ts_task_id s))" "rr_revision v = ts_revision s + 1"
    using numbered_has [OF num(1), of "ts_revision s + 1"] lt r'(3) num(2) by auto
  then have "list_ex (\<lambda>x. rr_task_id x = ts_task_id s \<and> rr_revision x = ts_revision s + 1) (st_revisions st)"
    by (auto simp: list_ex_iff task_revisions_def)
  then show ?thesis
    by (simp add: lifecycle_body_def Let_def write_revision_def insert_task_revision_def lifecycle_state_def)
qed

lemma ex_submitted_star: "(service_step ex_hashes)\<^sup>*\<^sup>* empty_store ex_submitted"
  using ex_started_star ex_submitted_step by (rule rtranclp.rtrancl_into_rtrancl)

lemma ex_submitted_rows:
  "map (\<lambda>r. (tr_task_id r, tr_head_revision r, tr_scope r, tr_profile_version r)) (st_tasks ex_submitted) =
     [(''t'', 2, ex_scope, ''general-v1'')]"
  by code_simp

lemma ex_submitted_snapshot: "stored_snapshot ex_hashes ex_submitted ex_start_state"
proof -
  obtain r v where "lookup_by tr_task_id (ts_task_id ex_start_state) (st_tasks ex_started) = Some r"
    and v: "v \<in> set (task_revisions ex_started (ts_task_id ex_start_state))" "snapshot_ok ex_hashes r v ex_start_state"
    using ex_started_snapshot by (auto simp: stored_snapshot_def)
  have k: "ts_task_id ex_start_state = ''t''" "ts_scope ex_start_state = ex_scope" "ts_profile_version ex_start_state = ''general-v1''"
    by (simp_all add: ex_start_state_def start_state_def ex_request_def GENERAL_V1_def)
  have "v \<in> set (task_revisions ex_submitted ''t'')"
    using v(1) evolution.submit_rel [OF ex_submit_result ex_started_ok TrueI] unfolding k
    by (auto simp: evolves_def ex_started_tasks start_row_def ex_request_def dest!: set_mono_prefix)
  moreover obtain r' where "st_tasks ex_submitted = [r']" "tr_task_id r' = ''t''" "tr_scope r' = ex_scope"
    "tr_profile_version r' = ''general-v1''" using ex_submitted_rows by auto
  ultimately show ?thesis
    using v(2) k unfolding stored_snapshot_def by (auto simp: snapshot_ok_def)
qed

theorem stale_lifecycle_hits_constraint_witness:
  "lifecycle_body ex_hashes (start_row ex_request GENERAL_V1 ''system'' 5) ex_start_state PAUSED ''op'' OPERATOR ''r'' None 9
     ex_submitted = Inl IntegrityError"
proof -
  obtain r where r: "st_tasks ex_submitted = [r]" "tr_task_id r = ''t''" "tr_head_revision r = 2" using ex_submitted_rows by auto
  then have "lookup_by tr_task_id (ts_task_id ex_start_state) (st_tasks ex_submitted) = Some r"
    "ts_revision ex_start_state \<noteq> tr_head_revision r"
    by (simp_all add: ex_start_state_def start_state_def ex_request_def)
  then show ?thesis
    by (rule stale_lifecycle_hits_constraint [OF ex_submitted_star ex_submitted_snapshot])
qed

text \<open>
  A task is completed only through the gate: on a reachable store \<^verbatim>\<open>complete\<close> refuses a task with unsettled
  requirements, naming them, and changes nothing; and it completes a live task that has none and is not overdue,
  for a role that may change lifecycles.
\<close>

theorem completion_is_gated:
  assumes "(service_step H)\<^sup>*\<^sup>* empty_store st" and "r \<in> set (st_tasks st)" and "view_of st r = Inr v"
    and "blockers = completion_blockers (tv_state v) (tv_profile v)"
  shows "if blockers \<noteq> []
     then \<exists>g. complete H clk (tr_scope r) (tr_task_id r) actor role reason st =
            (st, Inl (TaskCompletionDenied ''required_items_incomplete'' g)) \<and> gs_blocking_item_ids g = blockers
     else require role ''change_lifecycle'' = Inr () \<and> \<not> lifecycle_terminal (tr_lifecycle r) \<and>
          xr_due_reason (expiry_status r (clk 0)) = None \<longrightarrow>
          (\<exists>st' v'. complete H clk (tr_scope r) (tr_task_id r) actor role reason st = (st', Inr v') \<and>
             ts_lifecycle (tv_state v') = COMPLETED_L \<and> tr_head_revision (tv_task v') = tr_head_revision r + 1)"
proof -
  have ok: "store_ok H st" using assms(1) by (rule reachable_ok)
  have g: "get_task st (tr_scope r) (tr_task_id r) = Some r" using ok assms(2) by (rule get_task_in)
  have go: "\<exists>st' v'. complete H clk (tr_scope r) (tr_task_id r) actor role reason st = (st', Inr v') \<and>
       ts_lifecycle (tv_state v') = COMPLETED_L \<and> tr_head_revision (tv_task v') = tr_head_revision r + 1"
    if free: "blockers = []" "require role ''change_lifecycle'' = Inr ()"
      and live: "\<not> lifecycle_terminal (tr_lifecycle r)" and due: "xr_due_reason (expiry_status r (clk 0)) = None"
  proof -
    have ne: "tr_lifecycle r \<noteq> COMPLETED_L" using live by (auto simp: lifecycle_terminal_def)
    obtain st' v' where c: "lifecycle_core H (clk 2) (tr_scope r) r COMPLETED_L actor role reason None st = (st', Inr v')"
      "ts_lifecycle (tv_state v') = COMPLETED_L" "tr_head_revision (tv_task v') = tr_head_revision r + 1"
      using lifecycle_core_effect [OF ok assms(2) live ne] by metis
    have "refresh H clk (tr_scope r) r st = (st, Inr r)" using live due by (simp add: refresh_def expire_if_due_def)
    then have "lifecycle H clk (tr_scope r) (tr_task_id r) COMPLETED_L actor role reason st = (st', Inr v')"
      using free(2) g c(1) by (simp add: lifecycle_def require_task_def)
    then show ?thesis
      using free(1) assms(3,4) g c(2,3) by (auto simp: complete_def require_task_def evaluate_completion_def)
  qed
  show ?thesis
    using go g assms(3,4) by (auto simp: complete_def require_task_def evaluate_completion_def Let_def guard_signal_of_def)
qed

theorem completion_is_gated_witness:
  "\<exists>g. complete ex_hashes (\<lambda>i. 5) ex_scope ''t'' ''op'' OPERATOR ''r'' ex_started =
     (ex_started, Inl (TaskCompletionDenied ''required_items_incomplete'' g)) \<and> gs_blocking_item_ids g = [''a'']"
proof -
  let ?r = "start_row ex_request GENERAL_V1 ''system'' 5"
  have r: "?r \<in> set (st_tasks ex_started)" by (simp add: ex_started_tasks)
  have b: "[''a''] = completion_blockers ex_start_state GENERAL_V1" by code_simp
  show ?thesis
    using completion_is_gated [OF ex_started_star r ex_started_view, of "[''a'']" "\<lambda>i. 5" "''op''" OPERATOR "''r''"]
    by (simp add: b [symmetric]) (simp add: start_row_def ex_request_def)
qed

end
