(* ===== verification/History_Refinement.thy ===== *)
theory History_Refinement
  imports Service_Properties
begin

text \<open>
  The contract of the service towards its readers, over histories of snapshots.  Every call is labelled with the task
  it names; on the histories a call on a task only appends to that task snapshots that follow its last one, by a
  policy decision made on that very snapshot or by a change of its lifecycle; only a start creates, the requested task
  and only if it is not there; only a deletion erases, the named task and only if it answers with a receipt.  All
  tables, digests, proposals and clocks are below this level.
\<close>

type_synonym histories = "string \<Rightarrow> task_state list option"

inductive history_step :: "hashes \<Rightarrow> string \<Rightarrow> histories \<Rightarrow> histories \<Rightarrow> bool" for H k where
  append: "A k = Some h \<Longrightarrow> h \<noteq> [] \<Longrightarrow> follows H (last h) n \<Longrightarrow> ts_task_id n = k \<Longrightarrow> ts_scope n = ts_scope (last h) \<Longrightarrow>
    ts_revision n = ts_revision (last h) + 1 \<Longrightarrow> \<not> lifecycle_terminal (ts_lifecycle (last h)) \<Longrightarrow>
    history_step H k A (A(k \<mapsto> h @ [n]))"

datatype call = Registering | Starting task_start_request | On string | Sweeping | Forgetting string bool

fun contract :: "hashes \<Rightarrow> call \<Rightarrow> histories \<Rightarrow> histories \<Rightarrow> bool" where
  "contract H Registering A A' \<longleftrightarrow> A' = A"
| "contract H (Starting req) A A' \<longleftrightarrow>
     A' = A \<or> A (sr_task_id req) = None \<and> (\<exists>p items now. A' = A(sr_task_id req \<mapsto> [start_state req p items now]))"
| "contract H (On k) A A' \<longleftrightarrow> (history_step H k)\<^sup>*\<^sup>* A A'"
| "contract H Sweeping A A' \<longleftrightarrow> (\<lambda>B B'. \<exists>k. history_step H k B B')\<^sup>*\<^sup>* A A'"
| "contract H (Forgetting k receipt) A A' \<longleftrightarrow> A' = (if receipt then A(k := None) else A)"

text \<open>The steps of the service with their labels.\<close>

inductive service_call :: "hashes \<Rightarrow> call \<Rightarrow> store \<Rightarrow> store \<Rightarrow> bool" for H where
  registers: "register_profile H payload actor dry_run now st = (st', x) \<Longrightarrow> service_call H Registering st st'"
| starts: "start H clk source req items st = (st', x) \<Longrightarrow> start_input_ok req items \<Longrightarrow> service_call H (Starting req) st st'"
| views: "get_view H clk sc k evaluate_exp st = (st', x) \<Longrightarrow> service_call H (On k) st st'"
| submits: "submit H clk prop allow step_kind st = (st', x) \<Longrightarrow> service_call H (On (pr_task_id prop)) st st'"
| corrects: "correct H clk prop reason st = (st', x) \<Longrightarrow> service_call H (On (pr_task_id prop)) st st'"
| commits_late: "commit H prop s d started now step_kind st = (st', x) \<Longrightarrow> stored_snapshot H st s \<Longrightarrow>
    evaluate H s profile prop at known allow = Inr d \<Longrightarrow> service_call H (On (pr_task_id prop)) st st'"
| pauses: "pause H clk sc k actor role reason st = (st', x) \<Longrightarrow> service_call H (On k) st st'"
| resumes: "resume H clk sc k actor role reason st = (st', x) \<Longrightarrow> service_call H (On k) st st'"
| completes: "complete H clk sc k actor role reason st = (st', x) \<Longrightarrow> service_call H (On k) st st'"
| cancels: "cancel H clk sc k actor role reason st = (st', x) \<Longrightarrow> service_call H (On k) st st'"
| expires: "evaluate_expiry H clk sc k st = (st', y) \<Longrightarrow> service_call H (On k) st st'"
| scans: "scan_for_expiry H clks limit st = (st', ks) \<Longrightarrow> service_call H Sweeping st st'"
| forgets: "forget sc k role st = (st', z) \<Longrightarrow> service_call H (Forgetting k (\<not> isl z)) st st'"

lemma service_step_call: "service_step H st st' \<longleftrightarrow> (\<exists>c. service_call H c st st')"
proof
  show "service_step H st st' \<Longrightarrow> \<exists>c. service_call H c st st'"
    by (induction rule: service_step.induct) (blast intro: service_call.intros)+
  show "\<exists>c. service_call H c st st' \<Longrightarrow> service_step H st st'"
    by (auto elim!: service_call.cases intro: service_step.intros)
qed

definition snapshot_of :: "revision_row \<Rightarrow> task_state" where
  "snapshot_of v = projr (state_from_dict (rr_state v))"

definition histories_of :: "store \<Rightarrow> histories" where
  "histories_of st k = (if has_task st k then Some (map snapshot_of (task_revisions st k)) else None)"

lemma snapshot_of_ok: "snapshot_ok H r v s \<Longrightarrow> snapshot_of v = s"
  by (simp add: snapshot_ok_def snapshot_of_def state_roundtrip)

lemma histories_ledger:
  "st_tasks st' = st_tasks st \<Longrightarrow> st_revisions st' = st_revisions st \<Longrightarrow> histories_of st' = histories_of st"
  by (auto simp: histories_of_def fun_eq_iff has_task_def task_revisions_def)

lemma histories_new:
  assumes ok: "store_ok H st" and new: "\<not> has_task st (tr_task_id r)" and v: "snapshot_ok H r v s" "rr_task_id v = tr_task_id r"
    and st': "st_tasks st' = st_tasks st @ [r]" "st_revisions st' = st_revisions st @ [v]"
  shows "histories_of st (tr_task_id r) = None \<and> histories_of st' = (histories_of st)(tr_task_id r \<mapsto> [s])"
proof -
  have "task_revisions st (tr_task_id r) = []"
    using ok new by (auto simp: store_ok_def refs_ok_def task_revisions_def filter_empty_conv)
  then show ?thesis
    using new st'(1) v(2) snapshot_of_ok [OF v(1)]
    by (auto simp: fun_eq_iff histories_of_def has_task_def task_revisions_snoc [OF st'(2)])
qed

lemma histories_next:
  assumes ok: "store_ok H st" and look: "lookup_by tr_task_id k (st_tasks st) = Some r" and s: "shows_head r s"
    and head: "snapshot_ok H r (last (task_revisions st k)) s" and f: "follows H s n"
    and live: "\<not> lifecycle_terminal (tr_lifecycle r)" and v: "snapshot_ok H r v n" "rr_task_id v = k"
    and rv: "ts_revision n = ts_revision s + 1"
    and st': "st_tasks st' = replace_by tr_task_id k (change_head c) (st_tasks st)" "st_revisions st' = st_revisions st @ [v]"
  shows "history_step H k (histories_of st) (histories_of st')"
proof -
  let ?rs = "task_revisions st k"
  have rk: "r \<in> set (st_tasks st)" "tr_task_id r = k" using lookup_by_SomeD [OF look] by auto
  then have ne: "?rs \<noteq> []" using ok by (auto simp: store_ok_def row_ok_def history_ok_def)
  have hist: "histories_of st k = Some (map snapshot_of ?rs)"
    using has_task_lookup [OF look] by (simp add: histories_of_def)
  have lst: "last (map snapshot_of ?rs) = s" using ne snapshot_of_ok [OF head] by (simp add: last_map)
  have "histories_of st' = (histories_of st)(k \<mapsto> map snapshot_of ?rs @ [n])"
    using st'(1) v(2) snapshot_of_ok [OF v(1)] has_task_lookup [OF look]
    by (auto simp: fun_eq_iff histories_of_def has_task_def head_upd.key_image_replace task_revisions_snoc [OF st'(2)])
  moreover have "ts_task_id n = k" "ts_scope n = ts_scope s" using v(1) head rk(2) by (auto simp: snapshot_ok_def)
  moreover have "\<not> lifecycle_terminal (ts_lifecycle s)" using live s by (simp add: shows_head_def)
  ultimately show ?thesis
    using append [of "histories_of st" k "map snapshot_of ?rs" H n] hist ne lst f rv by simp
qed

text \<open>One law for both readings: the calls on one task, and a sweep over all of them.\<close>

interpretation on_task: service_changes H "\<lambda>j. j = k" "\<lambda>st st'. (history_step H k)\<^sup>*\<^sup>* (histories_of st) (histories_of st')" for H k
proof unfold_locales
  fix st u st' :: store
  show "st_tasks st' = st_tasks st \<Longrightarrow> st_revisions st' = st_revisions st \<Longrightarrow>
      (history_step H k)\<^sup>*\<^sup>* (histories_of st) (histories_of st')" by (drule (1) histories_ledger) simp
  show "(history_step H k)\<^sup>*\<^sup>* (histories_of st) (histories_of u) \<Longrightarrow> (history_step H k)\<^sup>*\<^sup>* (histories_of u) (histories_of st') \<Longrightarrow>
      (history_step H k)\<^sup>*\<^sup>* (histories_of st) (histories_of st')" by (rule rtranclp_trans)
qed (rule r_into_rtranclp, drule (10) histories_next, simp)

interpretation sweep: service_changes H "\<lambda>j. True"
  "\<lambda>st st'. (\<lambda>B B'. \<exists>k. history_step H k B B')\<^sup>*\<^sup>* (histories_of st) (histories_of st')" for H
proof unfold_locales
  fix st u st' :: store
  let ?R = "\<lambda>B B'. \<exists>k. history_step H k B B'"
  show "st_tasks st' = st_tasks st \<Longrightarrow> st_revisions st' = st_revisions st \<Longrightarrow>
      ?R\<^sup>*\<^sup>* (histories_of st) (histories_of st')" by (drule (1) histories_ledger) simp
  show "?R\<^sup>*\<^sup>* (histories_of st) (histories_of u) \<Longrightarrow> ?R\<^sup>*\<^sup>* (histories_of u) (histories_of st') \<Longrightarrow>
      ?R\<^sup>*\<^sup>* (histories_of st) (histories_of st')" by (rule rtranclp_trans)
qed (rule r_into_rtranclp, rule exI, erule (10) histories_next)

lemma histories_registered:
  "register_profile H payload actor dry_run now st = (st', x) \<Longrightarrow> histories_of st' = histories_of st"
  by (erule register_cases) (auto intro: histories_ledger)

lemma histories_started:
  assumes "start H clk source req items st = (st', x)" and "start_input_ok req items" and ok: "store_ok H st"
  shows "contract H (Starting req) (histories_of st) (histories_of st')"
  using assms(1,2)
proof (cases rule: start_cases)
  case same
  then show ?thesis by simp
next
  case (new p row v)
  then show ?thesis using histories_new [OF ok _ new(3)] by auto
qed

lemma histories_forgotten:
  assumes "forget sc k role st = (st', z)"
  shows "histories_of st' = (if \<not> isl z then (histories_of st)(k := None) else histories_of st)"
proof -
  have gone: "histories_of st' = (histories_of st)(k := None)" if "dropped (\<lambda>j. j = k) st st'"
    using that dropped_revisions [OF that] by (auto simp: fun_eq_iff histories_of_def has_task_def dropped_def)
  show ?thesis
    using assms gone by (auto simp: forget_def require_task_def split: sum.splits prod.splits option.splits elim!: delete_task_cases)
qed

text \<open>
  [C5] Refinement: on a reachable store every call of the service does to the decoded histories what the contract
  allows for its label.  A call on a task only appends to this task, each time a snapshot that the policy decided on
  the last one or that changes the lifecycle of the last one, and only while that is not terminal; a start adds the
  requested task with its first snapshot, if it is new; a deletion that answers with a receipt erases the named task
  and a refused one changes nothing; a registration changes nothing.
\<close>

theorem service_refines_histories:
  assumes "(service_step H)\<^sup>*\<^sup>* empty_store st" and "service_call H c st st'"
  shows "contract H c (histories_of st) (histories_of st')"
proof -
  have ok: "store_ok H st" using assms(1) by (rule reachable_ok)
  from assms(2) ok show ?thesis
  proof (induction rule: service_call.induct)
    case (registers payload actor dry_run now st st' x)
    then show ?case by (simp add: histories_registered)
  next
    case (starts clk source req items st st' x)
    then show ?case by (rule histories_started)
  next
    case (cancels clk sc k actor role reason st st' x)
    then show ?case by (auto simp: cancel_def dest: on_task.lifecycle_rel split: if_splits)
  next
    case (expires clk sc k st st' y)
    then show ?case by (auto simp: evaluate_expiry_def dest!: get_task_SomeD dest: on_task.expire_if_due_rel split: option.splits)
  next
    case (scans clks limit st st' ks)
    then show ?case by (auto simp: scan_for_expiry_def dest: sweep.scan_rows_rel)
  next
    case (forgets sc k role st st' z)
    then show ?case by (simp add: histories_forgotten)
  qed (auto simp: pause_def resume_def
      dest: on_task.get_view_rel on_task.submit_rel on_task.correct_rel on_task.commit_rel on_task.lifecycle_rel on_task.complete_rel)
qed

theorem service_refines_histories_witness:
  "(history_step ex_hashes ''t'')\<^sup>*\<^sup>* (histories_of ex_started) (histories_of ex_submitted) \<and>
   length (the (histories_of ex_started ''t'')) = 1 \<and> length (the (histories_of ex_submitted ''t'')) = 2"
proof -
  have "service_call ex_hashes (On (pr_task_id ex_delta)) ex_started ex_submitted"
    unfolding ex_submitted_def by (rule submits) (rule prod.collapse [symmetric])
  from service_refines_histories [OF ex_started_star this]
  have "(history_step ex_hashes ''t'')\<^sup>*\<^sup>* (histories_of ex_started) (histories_of ex_submitted)" by (simp add: ex_delta_def)
  moreover have "length (the (histories_of ex_started ''t'')) = 1 \<and> length (the (histories_of ex_submitted ''t'')) = 2" by code_simp
  ultimately show ?thesis by simp
qed

end
