(* ===== verification/Late_Commits.thy ===== *)
theory Late_Commits
  imports Service_Properties
begin

text \<open>
  Commits of decisions made before their task was deleted and started again (\<^verbatim>\<open>submit\<close> and \<^verbatim>\<open>_commit\<close> of
  \<^verbatim>\<open>src/atmem/task_state/service.py\<close>).  The snapshot is read outside the transaction that commits, and the revision is
  inserted before the head is compared, in the same transaction; the foreign key of the revision is satisfied by the
  new task of the same identifier.  These are the late commits that \<open>service_step\<close> leaves out.
\<close>

text \<open>A first revision beyond the head meets no constraint.\<close>

lemma try_advance_beyond:
  assumes ok: "store_ok H st" and look: "lookup_by tr_task_id (ts_task_id n) (st_tasks st) = Some r"
    and n: "ts_revision n = ts_revision s + 1" "ts_parent_revision n = Some (ts_revision s)" "pr_task_id prop = ts_task_id n"
    and behind: "tr_head_revision r < ts_revision s"
  obtains v where "try_advance H prop s d n now st = Inr (False, st\<lparr>st_revisions := st_revisions st @ [v]\<rparr>)"
    "rr_task_id v = ts_task_id n" "rr_revision v = ts_revision s + 1" "rr_parent_revision v = Some (ts_revision s)"
proof -
  let ?rs = "task_revisions st (ts_task_id n)"
  have "history_ok H r ?rs" using ok lookup_by_SomeD [OF look] by (auto simp: store_ok_def row_ok_def)
  then have num: "numbered ?rs" "tr_head_revision r = int (length ?rs)" by (auto simp: history_ok_def)
  have old: "rr_revision v \<noteq> ts_revision s + 1 \<and> rr_parent_revision v \<noteq> Some (ts_revision s)" if v: "v \<in> set ?rs" for v
  proof -
    obtain i where "i < length ?rs" "v = ?rs ! i" using v by (auto simp: in_set_conv_nth)
    then show ?thesis using numbered_nth [OF num(1)] num(2) behind by auto
  qed
  then have "\<not> list_ex (\<lambda>x. rr_task_id x = ts_task_id n \<and> rr_revision x = ts_revision s + 1) (st_revisions st)"
    "\<not> list_ex (\<lambda>x. rr_task_id x = ts_task_id n \<and> rr_parent_revision x = Some (ts_revision s)) (st_revisions st)"
    by (auto simp: list_ex_iff task_revisions_def)
  moreover have "has_task st (ts_task_id n)" using look by (rule has_task_lookup)
  moreover have "0 < ts_revision s" using behind num(2) by linarith
  ultimately show thesis
    using n behind look
    by (auto intro!: that simp: try_advance_def write_revision_def insert_task_revision_def advance_task_head_def)
qed

text \<open>
  A late commit orphans a revision.  Let a proposal be accepted on a snapshot of a task, and the task be deleted
  and started again under its identifier before the commit, so that its head is behind the snapshot.  Then the commit
  answers with a conflict, yet it leaves a revision beyond the head: the task table is unchanged and the history of
  the task is no longer numbered up to its head.  In every store that still has the orphan, the attempt to add the
  revision after that of the snapshot fails, so no proposal moves the head past the revision of the snapshot.
\<close>

theorem late_commit_orphans_a_revision:
  assumes "(service_step H)\<^sup>*\<^sup>* empty_store st" and "state_valid s"
    and "evaluate H s profile prop at known allow = Inr d" and "accepted d"
    and "lookup_by tr_task_id (ts_task_id s) (st_tasks st) = Some r" and "tr_head_revision r < ts_revision s"
    and "commit H prop s d started now step_kind st = (st', Inr typed)"
  shows "td_outcome typed = CONFLICT \<and> st_tasks st' = st_tasks st \<and>
    (\<exists>v. task_revisions st' (ts_task_id s) = task_revisions st (ts_task_id s) @ [v] \<and>
       rr_revision v = ts_revision s + 1 \<and> tr_head_revision r + 1 < rr_revision v) \<and>
    \<not> store_ok H st' \<and>
    (\<forall>u prop' s' d' n' now'. set (st_revisions st') \<subseteq> set (st_revisions u) \<and>
         ts_task_id n' = ts_task_id s \<and> ts_revision n' = ts_revision s + 1 \<longrightarrow>
       try_advance H prop' s' d' n' now' u = Inr (False, u))"
proof -
  let ?k = "ts_task_id s"
  have ok: "store_ok H st" using assms(1) by (rule reachable_ok)
  obtain n where n: "pd_next_state d = Some n" "ts_task_id n = ?k" "ts_revision n = ts_revision s + 1"
    "ts_parent_revision n = Some (ts_revision s)" "pr_task_id prop = ?k"
    using evaluate_accepted_successor [OF assms(3,4,2)] by metis
  obtain v where v: "try_advance H prop s d n now st = Inr (False, st\<lparr>st_revisions := st_revisions st @ [v]\<rparr>)"
    "rr_task_id v = ?k" "rr_revision v = ts_revision s + 1"
    using try_advance_beyond [OF ok, of n r s "prop" d now] n assms(5,6) by metis
  have "commit_body H prop s d started now step_kind st = Inr (st', typed)"
    using assms(7) by (cases "commit_body H prop s d started now step_kind" st rule: transaction_cases) (auto simp: commit_def)
  then obtain st1 d' res pp sp where ct: "commit_transition H prop s d now st = Inr (st1, d', res)"
    and typed: "typed = typed_decision H prop d' res now"
    and st': "st' = st1\<lparr>st_proposals := st_proposals st1 @ [pp], st_steps := st_steps st1 @ [sp], st_next_id := st_next_id st1 + 1\<rparr>"
    by (rule commit_body_Inr)
  have st1: "st1 = st\<lparr>st_revisions := st_revisions st @ [v]\<rparr>" "d' = conflict_decision"
    using ct assms(4) n(1) v(1) by (simp_all add: commit_transition_def)
  have rs: "task_revisions st' ?k = task_revisions st ?k @ [v]" using st' st1(1) v(2) by (simp add: task_revisions_def)
  have "\<not> store_ok H st'"
  proof
    assume ok': "store_ok H st'"
    have "r \<in> set (st_tasks st')" "tr_task_id r = ?k" using lookup_by_SomeD [OF assms(5)] st' st1(1) by auto
    then have "history_ok H r (task_revisions st' ?k)" "history_ok H r (task_revisions st ?k)"
      using ok ok' st' st1(1) by (auto simp: store_ok_def row_ok_def)
    then show False using rs by (simp add: history_ok_def)
  qed
  moreover have "try_advance H prop' s' d' n' now' u = Inr (False, u)"
    if "set (st_revisions st') \<subseteq> set (st_revisions u)" "ts_task_id n' = ?k" "ts_revision n' = ts_revision s + 1" for u prop' s' d' n' now'
  proof -
    have "v \<in> set (st_revisions u)" using that(1) st' st1(1) by auto
    then have "list_ex (\<lambda>x. rr_task_id x = ?k \<and> rr_revision x = ts_revision s + 1) (st_revisions u)"
      using v(2,3) by (auto simp: list_ex_iff)
    then show ?thesis using that(2,3) by (simp add: try_advance_def write_revision_def insert_task_revision_def)
  qed
  moreover have "td_outcome typed = CONFLICT" using typed st1(2) by (simp add: typed_decision_def conflict_decision_def plain_decision_def)
  moreover have "st_tasks st' = st_tasks st" using st' st1(1) by simp
  ultimately show ?thesis using rs v(3) assms(6) by auto
qed

text \<open>
  The second revision of the example task is read, the task is deleted and started again, and a commit of a decision
  on what was read follows.
\<close>

definition ex_second :: task_state where
  "ex_second = the (pd_next_state ex_delta_decision)"

definition ex_restarted :: store where
  "ex_restarted = fst (start ex_hashes (\<lambda>i. 5) ''system'' ex_request [ex_item ''a'' PENDING []]
     (fst (forget ex_scope ''t'' ADMINISTRATOR ex_submitted)))"

definition ex_late_delta :: task_state_proposal where
  "ex_late_delta = ex_delta\<lparr>pr_proposal_id := ''late'', pr_base_revision := 2, pr_idempotency_key := ''late'',
     pr_operations := [ex_phase ''validate'']\<rparr>"

definition ex_late_decision :: policy_decision where
  "ex_late_decision = projr (evaluate ex_hashes ex_second GENERAL_V1 ex_late_delta 5 None False)"

definition ex_orphaned :: "store \<times> (task_error + transition_decision)" where
  "ex_orphaned = commit ex_hashes ex_late_delta ex_second ex_late_decision 5 5 ''host'' ex_restarted"

lemma ex_restarted_star: "(service_step ex_hashes)\<^sup>*\<^sup>* empty_store ex_restarted"
proof -
  let ?u = "fst (forget ex_scope ''t'' ADMINISTRATOR ex_submitted)"
  have "service_step ex_hashes ex_submitted ?u" by (rule forgets) (rule prod.collapse [symmetric])
  moreover have "service_step ex_hashes ?u ex_restarted"
    unfolding ex_restarted_def by (rule starts [OF _ ex_start_input]) (rule prod.collapse [symmetric])
  ultimately show ?thesis using ex_submitted_star by (meson rtranclp.rtrancl_into_rtrancl)
qed

lemma ex_second_valid: "state_valid ex_second"
proof -
  have "state_valid ex_start_state"
    using stored_snapshot_history [OF ex_started_ok ex_started_snapshot] by metis
  then show ?thesis
    using evaluate_accepted_successor [OF ex_delta_evaluate ex_delta_accepted] by (metis ex_second_def option.sel)
qed

lemma ex_late_evaluate:
  "evaluate ex_hashes ex_second GENERAL_V1 ex_late_delta 5 None False = Inr ex_late_decision" "accepted ex_late_decision"
  by code_simp+

lemma ex_restarted_row: "map (\<lambda>r. (tr_task_id r, tr_head_revision r)) (st_tasks ex_restarted) = [(''t'', 1)]"
  "ts_revision ex_second = 2" "ts_task_id ex_second = ''t''"
  by code_simp+

lemma ex_orphaned_result: "ex_orphaned = (fst ex_orphaned, Inr (projr (snd ex_orphaned)))"
proof -
  have "\<not> isl (snd ex_orphaned)" by code_simp
  then show ?thesis by (metis prod.collapse sum.collapse(2))
qed

theorem late_commit_orphans_a_revision_witness:
  "td_outcome (projr (snd ex_orphaned)) = CONFLICT \<and> \<not> store_ok ex_hashes (fst ex_orphaned)"
proof -
  obtain r where "st_tasks ex_restarted = [r]" "tr_task_id r = ''t''" "tr_head_revision r = 1"
    using ex_restarted_row(1) by auto
  then have "lookup_by tr_task_id (ts_task_id ex_second) (st_tasks ex_restarted) = Some r" "tr_head_revision r < ts_revision ex_second"
    using ex_restarted_row(2,3) by simp_all
  from late_commit_orphans_a_revision [OF ex_restarted_star ex_second_valid ex_late_evaluate this
      ex_orphaned_result [unfolded ex_orphaned_def]]
  show ?thesis by (auto simp: ex_orphaned_def)
qed

end
