(* ===== verification/Head_Guard.thy ===== *)
theory Head_Guard
  imports Service_Invariant
begin

text \<open>
  The guarded head, the store's only defence against two writers: an attempt names the revision it was prepared
  on and moves the head only when that is still the head.  The locale \<open>guarded_head\<close> is that contract; its client
  lemma says that any sequence of attempts has winners with consecutive bases.  The guarded \<^verbatim>\<open>UPDATE\<close> of
  \<^verbatim>\<open>advance_task_head\<close> satisfies it.
\<close>

fun attempts :: "('c \<Rightarrow> 's \<Rightarrow> bool \<times> 's) \<Rightarrow> 'c list \<Rightarrow> 's \<Rightarrow> 'c list \<times> 's" where
  "attempts attempt [] s = ([], s)"
| "attempts attempt (c # cs) s =
     (case attempt c s of
        (won, t) \<Rightarrow> (case attempts attempt cs t of (ws, u) \<Rightarrow> (if won then c # ws else ws, u)))"

locale guarded_head =
  fixes head :: "'s \<Rightarrow> int option" and base :: "'c \<Rightarrow> int" and attempt :: "'c \<Rightarrow> 's \<Rightarrow> bool \<times> 's"
  assumes won: "attempt c s = (True, t) \<Longrightarrow> head s = Some (base c) \<and> head t = Some (base c + 1)"
    and lost: "attempt c s = (False, t) \<Longrightarrow> head t = head s"
begin

lemma winners_consecutive:
  "attempts attempt cs s = (ws, t) \<Longrightarrow> head s = Some h \<Longrightarrow>
     map base ws = map (\<lambda>i. h + int i) [0..<length ws] \<and> head t = Some (h + int (length ws))"
proof (induction cs arbitrary: s ws h)
  case Nil
  then show ?case by simp
next
  case (Cons c cs)
  obtain b u where u: "attempt c s = (b, u)" by fastforce
  obtain vs where vs: "attempts attempt cs u = (vs, t)" "ws = (if b then c # vs else vs)"
    using Cons.prems(1) u by (auto split: prod.splits)
  show ?case
  proof (cases b)
    case True
    then have h: "base c = h" "head u = Some (h + 1)" using won [of c s u] u Cons.prems(2) by auto
    have "map base vs = map (\<lambda>i. h + 1 + int i) [0..<length vs]" "head t = Some (h + 1 + int (length vs))"
      using Cons.IH [OF vs(1) h(2)] by auto
    then show ?thesis
      using True h(1) vs(2) by (simp add: upt_conv_Cons map_Suc_upt [symmetric] del: upt_Suc)
  next
    case False
    then show ?thesis using Cons.IH [OF vs(1)] lost [of c s u] u Cons.prems(2) vs(2) by simp
  qed
qed

end

text \<open>One guarded move of the head of a task; a constraint violation counts as not moved, as \<^verbatim>\<open>_commit\<close> treats it.\<close>

definition move_head :: "string \<Rightarrow> head_change \<Rightarrow> store \<Rightarrow> bool \<times> store" where
  "move_head k c st =
     (case advance_task_head k (hc_new_head c - 1) c st of Inl _ \<Rightarrow> (False, st) | Inr r \<Rightarrow> r)"

definition head_of :: "string \<Rightarrow> store \<Rightarrow> int option" where
  "head_of k st = map_option tr_head_revision (lookup_by tr_task_id k (st_tasks st))"

interpretation task_head: guarded_head "head_of k" "\<lambda>c. hc_new_head c - 1" "move_head k" for k
proof
  fix c st st'
  assume "move_head k c st = (True, st')"
  then have "advance_task_head k (hc_new_head c - 1) c st = Inr (True, st')"
    by (auto simp: move_head_def split: sum.splits)
  then show "head_of k st = Some (hc_new_head c - 1) \<and> head_of k st' = Some (hc_new_head c - 1 + 1)"
    by (auto simp: advance_task_head_True head_of_def head_upd.lookup_replace)
next
  fix c st st'
  assume "move_head k c st = (False, st')"
  then show "head_of k st' = head_of k st"
    by (auto simp: move_head_def dest: advance_task_head_False split: sum.splits)
qed

text \<open>
  [C8] Writers of one task are serialised by the guarded head: in any sequence of attempted moves the new heads
  of those that succeed are consecutive, starting after the head found, so no two writers prepared on the same
  revision both win, and the final head counts the winners.
\<close>

theorem head_moves_are_serial:
  assumes "attempts (move_head k) cs st = (ws, st')" and "head_of k st = Some h"
  shows "map hc_new_head ws = map (\<lambda>i. h + 1 + int i) [0..<length ws] \<and> distinct (map hc_new_head ws) \<and>
     head_of k st' = Some (h + int (length ws))"
proof -
  have *: "map (\<lambda>c. hc_new_head c - 1) ws = map (\<lambda>i. h + int i) [0..<length ws]" "head_of k st' = Some (h + int (length ws))"
    using task_head.winners_consecutive [OF assms] by auto
  have "map hc_new_head ws = map (\<lambda>x. x + 1) (map (\<lambda>c. hc_new_head c - 1) ws)" by simp
  also have "\<dots> = map (\<lambda>i. h + 1 + int i) [0..<length ws]" unfolding *(1) by simp
  finally have eq: "map hc_new_head ws = map (\<lambda>i. h + 1 + int i) [0..<length ws]" .
  show ?thesis using *(2) unfolding eq by (simp add: distinct_map inj_on_def)
qed

definition ex_move :: "int \<Rightarrow> timestamp \<Rightarrow> head_change" where
  "ex_move n at =
     \<lparr>hc_new_head = n, hc_updated_at = at, hc_last_progress_at = None, hc_lifecycle = None, hc_terminal_reason = None,
      hc_paused_at = None, hc_clear_paused_at = False, hc_add_paused_ms = 0\<rparr>"

definition ex_row :: task_row where
  "ex_row =
     \<lparr>tr_task_id = ''t'', tr_scope = ex_scope, tr_profile_id = ''demo'', tr_profile_version = ''v1'', tr_goal = ''ship'',
      tr_lifecycle = OPEN, tr_head_revision = 1, tr_policy_generation = 1, tr_created_at = 0, tr_updated_at = 0,
      tr_last_progress_at = 0, tr_paused_at = None, tr_no_progress_paused_ms = 0,
      tr_expiry_rule = \<lparr>xp_max_absolute_age_ms = None, xp_max_no_progress_age_ms = None\<rparr>,
      tr_clock_source = ''system'', tr_terminal_reason = None, tr_continues_task_id = None, tr_idempotency_key = ''k''\<rparr>"

theorem head_moves_are_serial_witness:
  "map hc_new_head (fst (attempts (move_head ''t'') [ex_move 2 5, ex_move 2 6, ex_move 3 7]
     (empty_store\<lparr>st_tasks := [ex_row]\<rparr>))) = [2, 3]"
proof -
  let ?st = "empty_store\<lparr>st_tasks := [ex_row]\<rparr>"
  let ?cs = "[ex_move 2 5, ex_move 2 6, ex_move 3 7]"
  obtain ws st' where a: "attempts (move_head ''t'') ?cs ?st = (ws, st')" by fastforce
  have "length (fst (attempts (move_head ''t'') ?cs ?st)) = 2" by code_simp
  then have "length ws = 2" using a by simp
  moreover have "head_of ''t'' ?st = Some 1" by (simp add: head_of_def ex_row_def)
  ultimately show ?thesis using head_moves_are_serial [OF a] a by (simp add: upt_rec)
qed

end
