(* ===== verification/Iso_Time.thy ===== *)
theory Iso_Time
  imports Task_Prelude
begin

text \<open>
  \<^verbatim>\<open>to_iso\<close> of \<^verbatim>\<open>src/atmem/core/time.py\<close>: the text in which every timestamp is stored and compared by SQL.  An
  instant is a number of microseconds counted from \<^verbatim>\<open>datetime.min\<close>; the calendar is the proleptic Gregorian one
  of \<^verbatim>\<open>datetime\<close>, as a walk over years and months, and \<^verbatim>\<open>isoformat\<close> leaves the fraction out when it is zero.
  Lemmas: the text order of two timestamps is their order in time, which is why the other theories keep
  timestamps as integers.
\<close>

section \<open>The calendar\<close>

definition leap :: "nat \<Rightarrow> bool" where
  "leap y \<longleftrightarrow> y mod 4 = 0 \<and> (y mod 100 \<noteq> 0 \<or> y mod 400 = 0)"

definition days_in_year :: "nat \<Rightarrow> nat" where
  "days_in_year y = (if leap y then 366 else 365)"

definition days_in_month :: "nat \<Rightarrow> nat \<Rightarrow> nat" where
  "days_in_month y m = (if m = 2 then (if leap y then 29 else 28) else if m \<in> {4, 6, 9, 11} then 30 else 31)"

text \<open>The year of a day counted from the first day of year \<open>y\<close>, and the day within it.\<close>

function year_split :: "nat \<Rightarrow> nat \<Rightarrow> nat \<times> nat" where
  "year_split y n = (if n < days_in_year y then (y, n) else year_split (y + 1) (n - days_in_year y))"
  by pat_completeness auto
termination
  by (relation "measure snd") (auto simp: days_in_year_def split: if_splits)

declare year_split.simps [simp del]

function month_split :: "nat \<Rightarrow> nat \<Rightarrow> nat \<Rightarrow> nat \<times> nat" where
  "month_split y m n =
     (if 12 \<le> m \<or> n < days_in_month y m then (m, n) else month_split y (m + 1) (n - days_in_month y m))"
  by pat_completeness auto
termination
  by (relation "measure (\<lambda>(y, m, n). 12 - m)") auto

declare month_split.simps [simp del]

definition MAXYEAR :: nat where
  "MAXYEAR = 9999"

definition day_us :: int where
  "day_us = 86400000000"

text \<open>Year, month, day of the date and hour, minute, second, microsecond of the day.\<close>

definition datetime_fields :: "int \<Rightarrow> nat list \<times> nat" where
  "datetime_fields t =
     (let (y, n) = year_split 1 (nat (t div day_us));
          (m, d) = month_split y 1 n;
          us = nat (t mod day_us)
      in ([y, m, d + 1, us div 3600000000, us div 60000000 mod 60, us div 1000000 mod 60], us mod 1000000))"

definition valid_time :: "int \<Rightarrow> bool" where
  "valid_time t \<longleftrightarrow> 0 \<le> t \<and> fst (year_split 1 (nat (t div day_us))) \<le> MAXYEAR"

section \<open>The text\<close>

fun digits :: "nat \<Rightarrow> nat \<Rightarrow> string" where
  "digits 0 n = []"
| "digits (Suc w) n = digits w (n div 10) @ [char_of (48 + n mod 10)]"

definition fraction :: "nat \<Rightarrow> string" where
  "fraction us = (if us = 0 then [] else ''.'' @ digits 6 us)"

definition to_iso :: "int \<Rightarrow> string" where
  "to_iso t =
     (case datetime_fields t of
        ([y, m, d, h, mi, s], us) \<Rightarrow>
          digits 4 y @ ''-'' @ digits 2 m @ ''-'' @ digits 2 d @ ''T'' @ digits 2 h @ '':'' @ digits 2 mi @ '':'' @
          digits 2 s @ fraction us @ ''+00:00''
      | _ \<Rightarrow> [])"

section \<open>Dates are in order\<close>

lemma year_split_less:
  assumes "n < m" and "year_split y n = (a, i)" and "year_split y m = (b, j)"
  shows "a < b \<or> a = b \<and> i < j"
  using assms
proof (induction y n arbitrary: m a i b j rule: year_split.induct)
  case (1 y n)
  have ge: "y \<le> fst (year_split y k)" for y k
    by (induction y k rule: year_split.induct) (subst year_split.simps, auto)
  show ?case
  proof (cases "n < days_in_year y")
    case True
    then have n: "a = y" "i = n" using 1(3) by (simp_all add: year_split.simps [of y n])
    show ?thesis
    proof (cases "m < days_in_year y")
      case False
      then have "y + 1 \<le> b" using 1(4) ge [of "y + 1" "m - days_in_year y"] by (simp add: year_split.simps [of y m])
      then show ?thesis using n by simp
    qed (use 1 n in \<open>simp add: year_split.simps [of y m]\<close>)
  next
    case False
    then have "n - days_in_year y < m - days_in_year y" using 1(2) by simp
    then show ?thesis
      using 1(1) [OF False, of "m - days_in_year y" a i b j] 1(2-4) False by (simp add: year_split.simps [of y n] year_split.simps [of y m])
  qed
qed

lemma month_split_ge: "m \<le> fst (month_split y m n)"
  by (induction y m n rule: month_split.induct) (subst month_split.simps, auto)

lemma month_split_le: "m \<le> 12 \<Longrightarrow> fst (month_split y m n) \<le> 12"
  by (induction y m n rule: month_split.induct) (subst month_split.simps, auto)

lemma month_split_less:
  assumes "n < k" and "month_split y m n = (a, i)" and "month_split y m k = (b, j)"
  shows "a < b \<or> a = b \<and> i < j"
  using assms
proof (induction y m n arbitrary: k a i b j rule: month_split.induct)
  case (1 y m n)
  show ?case
  proof (cases "12 \<le> m \<or> n < days_in_month y m")
    case True
    then have n: "a = m" "i = n" using 1(3) by (simp_all add: month_split.simps [of y m n])
    show ?thesis
    proof (cases "12 \<le> m \<or> k < days_in_month y m")
      case False
      then have "m + 1 \<le> b"
        using 1(4) month_split_ge [of "m + 1" y "k - days_in_month y m"] by (simp add: month_split.simps [of y m k])
      then show ?thesis using n by simp
    qed (use 1 n in \<open>auto simp: month_split.simps [of y m k]\<close>)
  next
    case False
    moreover have "n - days_in_month y m < k - days_in_month y m" using False 1(2) by (simp add: diff_less_mono)
    ultimately show ?thesis
      using 1(1) [OF False, of "k - days_in_month y m" a i b j] 1(2-4)
      by (simp add: month_split.simps [of y m n] month_split.simps [of y m k])
  qed
qed

lemma year_split_day: "year_split y n = (a, i) \<Longrightarrow> i < days_in_year a"
proof (induction y n arbitrary: a i rule: year_split.induct)
  case (1 y n)
  then show ?case by (cases "n < days_in_year y") (auto simp: year_split.simps [of y n])
qed

lemma month_split_day:
  assumes "n < (\<Sum>k = m..12. days_in_month y k)" and "m \<le> 12"
  shows "snd (month_split y m n) < 31"
  using assms
proof (induction y m n rule: month_split.induct)
  case (1 y m n)
  have dim: "days_in_month y m \<le> 31" by (simp add: days_in_month_def)
  show ?case
  proof (cases "12 \<le> m \<or> n < days_in_month y m")
    case True
    then show ?thesis using 1(2,3) dim by (auto simp: month_split.simps [of y m n] days_in_month_def)
  next
    case False
    then have "(\<Sum>k = m..12. days_in_month y k) = days_in_month y m + (\<Sum>k = m + 1..12. days_in_month y k)"
      using sum.atLeast_Suc_atMost [of m 12] by simp
    then have "n - days_in_month y m < (\<Sum>k = m + 1..12. days_in_month y k)" using 1(2) False by linarith
    then show ?thesis using 1(1) [OF False] False by (simp add: month_split.simps [of y m n])
  qed
qed

lemma year_days: "(\<Sum>k = 1..12. days_in_month y k) = days_in_year y"
  by (simp add: days_in_month_def days_in_year_def sum.atLeast_Suc_atMost numeral_eq_Suc)

section \<open>The text is in order\<close>

lemma length_digits [simp]: "length (digits w n) = w"
  by (induction w arbitrary: n) simp_all

lemma append_less:
  "length xs = length ys \<Longrightarrow> xs < ys \<or> xs = ys \<and> us < vs \<Longrightarrow> xs @ us < ys @ (vs :: string)"
  by (induction xs ys rule: list_induct2) auto

lemma digit_less: "b < 10 \<Longrightarrow> a < b \<Longrightarrow> char_of (48 + a :: nat) < (char_of (48 + b) :: char)"
  by (simp add: less_char_def)

lemma digits_less: "n < m \<Longrightarrow> m < 10 ^ w \<Longrightarrow> digits w n < digits w m"
proof (induction w arbitrary: n m)
  case (Suc w)
  have "n div 10 \<le> m div 10" using Suc.prems(1) by (simp add: div_le_mono)
  show ?case
  proof (cases "n div 10 = m div 10")
    case True
    then have "n mod 10 < m mod 10"
      using Suc.prems(1) div_mult_mod_eq [of n 10] div_mult_mod_eq [of m 10] by linarith
    then show ?thesis using True by (auto intro!: append_less digit_less)
  next
    case False
    then have "n div 10 < m div 10" using \<open>n div 10 \<le> m div 10\<close> by simp
    moreover have "m div 10 < 10 ^ w" using Suc.prems(2) by (simp add: less_mult_imp_div_less mult.commute)
    ultimately show ?thesis using Suc.IH by (auto intro!: append_less)
  qed
qed simp

text \<open>One field of the text after another: the fields before it are equal, or decide.\<close>

lemma field_less:
  "a < 10 ^ w \<Longrightarrow> b < 10 ^ w \<Longrightarrow> a < b \<or> a = b \<and> us < vs \<Longrightarrow> digits w a @ us < digits w b @ vs"
  by (auto intro!: append_less digits_less)

lemma fraction_less: "a < b \<Longrightarrow> b < 1000000 \<Longrightarrow> fraction a @ ''+00:00'' < fraction b @ ''+00:00''"
  by (auto simp: fraction_def less_char_def intro!: field_less)

lemma split_less: "a < b \<Longrightarrow> a div k < b div k \<or> a div k = b div k \<and> a mod k < b mod (k :: nat)"
proof -
  assume "a < b"
  then have "a div k \<le> b div k" by (simp add: div_le_mono)
  moreover have "a mod k < b mod k" if "a div k = b div k"
    using \<open>a < b\<close> that div_mult_mod_eq [of a k] div_mult_mod_eq [of b k] by (metis add_less_cancel_left)
  ultimately show ?thesis by linarith
qed

lemma seconds_split:
  "us div 3600000000 = us div 1000000 div 60 div 60" "us div 60000000 mod 60 = us div 1000000 div 60 mod (60 :: nat)"
  by (simp_all add: div_mult2_eq [symmetric])

lemma day_less:
  assumes "a < b" and "b < 86400000000"
  shows "digits 2 (a div 3600000000) @ '':'' @ digits 2 (a div 60000000 mod 60) @ '':'' @
      digits 2 (a div 1000000 mod 60) @ fraction (a mod 1000000) @ ''+00:00'' <
    digits 2 (b div 3600000000) @ '':'' @ digits 2 (b div 60000000 mod 60) @ '':'' @
      digits 2 (b div 1000000 mod 60) @ fraction (b mod 1000000) @ ''+00:00''"
proof -
  let ?A = "a div 1000000" and ?B = "b div 1000000"
  have bounds: "a div 3600000000 < 10 ^ 2" "b div 3600000000 < 10 ^ 2" "x mod 60 < 10 ^ 2" "x mod 1000000 < 1000000" for x :: nat
    using assms by (simp_all add: less_mult_imp_div_less less_trans [OF mod_less_divisor])
  consider "a div 3600000000 < b div 3600000000"
    | "a div 3600000000 = b div 3600000000" "a div 60000000 mod 60 < b div 60000000 mod 60"
    | "a div 3600000000 = b div 3600000000" "a div 60000000 mod 60 = b div 60000000 mod 60" "?A mod 60 < ?B mod 60"
    | "a div 3600000000 = b div 3600000000" "a div 60000000 mod 60 = b div 60000000 mod 60" "?A mod 60 = ?B mod 60"
      "a mod 1000000 < b mod 1000000"
    unfolding seconds_split using split_less [OF assms(1), of 1000000] split_less [of ?A ?B 60] split_less [of "?A div 60" "?B div 60" 60]
    by metis
  then show ?thesis
    using bounds fraction_less by cases (simp_all add: field_less)
qed

lemma date_less:
  assumes "n < m" and "year_split 1 n = (y, i)" and "year_split 1 m = (y', i')" and "y' \<le> MAXYEAR"
    and "month_split y 1 i = (mo, d)" and "month_split y' 1 i' = (mo', d')"
  shows "digits 4 y @ ''-'' @ digits 2 mo @ ''-'' @ digits 2 (d + 1) @ us <
    digits 4 y' @ ''-'' @ digits 2 mo' @ ''-'' @ digits 2 (d' + 1) @ vs"
proof -
  have y: "y < y' \<or> y = y' \<and> i < i'" using year_split_less [OF assms(1-3)] .
  have bounds: "y < 10 ^ 4" "y' < 10 ^ 4" using y assms(4) by (auto simp: MAXYEAR_def)
  have months: "mo < 10 ^ 2" "mo' < 10 ^ 2"
    using month_split_le [of 1 y i] month_split_le [of 1 y' i'] assms(5,6) by simp_all
  have days: "d + 1 < 10 ^ 2" "d' + 1 < 10 ^ 2"
    using month_split_day [of i y 1] month_split_day [of i' y' 1] year_split_day [OF assms(2)] year_split_day [OF assms(3)]
      year_days assms(5,6) by simp_all
  have "mo < mo' \<or> mo = mo' \<and> d + 1 < d' + 1" if "y = y'" "i < i'"
    using month_split_less [OF that(2)] assms(5,6) that(1) by simp
  then show ?thesis using y bounds months days by (auto simp: field_less)
qed

definition day_text :: "nat \<Rightarrow> string" where
  "day_text us =
     digits 2 (us div 3600000000) @ '':'' @ digits 2 (us div 60000000 mod 60) @ '':'' @
       digits 2 (us div 1000000 mod 60) @ fraction (us mod 1000000) @ ''+00:00''"

lemma to_iso_split:
  assumes "year_split 1 (nat (t div day_us)) = (y, i)" and "month_split y 1 i = (mo, d)"
  shows "to_iso t = digits 4 y @ ''-'' @ digits 2 mo @ ''-'' @ digits 2 (d + 1) @ ''T'' @ day_text (nat (t mod day_us))"
  using assms by (simp add: to_iso_def datetime_fields_def day_text_def Let_def)

text \<open>
  [C33] The stored text of timestamps is sortable: for instants that \<^verbatim>\<open>datetime\<close> can represent, one text comes
  before another in code-point order exactly when its instant is earlier, also when one of the two has no
  fraction, and two instants with the same text are the same instant.
\<close>

theorem to_iso_sortable:
  assumes "valid_time t" and "valid_time u"
  shows "(to_iso t < to_iso u \<longleftrightarrow> t < u) \<and> (to_iso t = to_iso u \<longleftrightarrow> t = u)"
proof -
  have less: "to_iso t < to_iso u" if tu: "t < u" and valid: "valid_time t" "valid_time u" for t u
  proof -
    obtain y i y' i' where ys: "year_split 1 (nat (t div day_us)) = (y, i)" "year_split 1 (nat (u div day_us)) = (y', i')"
      by fastforce
    obtain mo d mo' d' where ms: "month_split y 1 i = (mo, d)" "month_split y' 1 i' = (mo', d')" by fastforce
    have pos: "0 \<le> t" "0 \<le> u" "y' \<le> MAXYEAR" using valid ys by (simp_all add: valid_time_def)
    then have div: "0 \<le> t div day_us" "0 \<le> u div day_us" by (simp_all add: day_us_def)
    have le: "t div day_us \<le> u div day_us" using tu by (simp add: zdiv_mono1 day_us_def)
    show ?thesis
    proof (cases "t div day_us = u div day_us")
      case True
      then have "t mod day_us < u mod day_us"
        using tu div_mult_mod_eq [of t day_us] div_mult_mod_eq [of u day_us] by (metis add_less_cancel_left)
      moreover have "0 \<le> t mod day_us" "u mod day_us < 86400000000" by (simp_all add: day_us_def)
      ultimately have "nat (t mod day_us) < nat (u mod day_us)" "nat (u mod day_us) < 86400000000" by simp_all
      then show ?thesis
        using True ys ms day_less [of "nat (t mod day_us)" "nat (u mod day_us)"]
        unfolding to_iso_split [OF ys(1) ms(1)] to_iso_split [OF ys(2) ms(2)] day_text_def [symmetric]
        by (auto intro!: append_less)
    next
      case False
      then have "nat (t div day_us) < nat (u div day_us)" using le div by simp
      then show ?thesis
        unfolding to_iso_split [OF ys(1) ms(1)] to_iso_split [OF ys(2) ms(2)] by (rule date_less [OF _ ys pos(3) ms])
    qed
  qed
  show ?thesis using less [OF _ assms] less [OF _ assms(2,1)] by (metis less_asym neq_iff)
qed

lemma digits_numeral [simp]:
  "digits (numeral k) n = digits (pred_numeral k) (n div 10) @ [char_of (48 + n mod 10)]"
  by (metis digits.simps(2) numeral_eq_Suc)

lemmas iso_eval = to_iso_def datetime_fields_def valid_time_def day_us_def MAXYEAR_def fraction_def
  year_split.simps [of "Suc 0"] month_split.simps [of _ "Suc 0"] days_in_year_def days_in_month_def leap_def

theorem to_iso_sortable_witness:
  "valid_time 1000000 \<and> valid_time 1500000 \<and>
   to_iso 1000000 = ''0001-01-01T00:00:01+00:00'' \<and> to_iso 1500000 = ''0001-01-01T00:00:01.500000+00:00'' \<and>
   to_iso 1000000 < to_iso 1500000"
proof -
  have v: "valid_time 1000000" "valid_time 1500000" by (simp_all add: iso_eval)
  moreover have "to_iso 1000000 = ''0001-01-01T00:00:01+00:00''" by (simp add: iso_eval char_of_def bit_0)
  moreover have "to_iso 1500000 = ''0001-01-01T00:00:01.500000+00:00''" by (simp add: iso_eval char_of_def bit_0)
  ultimately show ?thesis using to_iso_sortable [OF v] by simp
qed

end
