(* ===== verification/Task_Guards.thy ===== *)
theory Task_Guards
  imports Task_Policy Task_Store Iso_Time Task_Samples
begin

text \<open>
  Warnings over one snapshot and the recorded steps (\<^verbatim>\<open>src/atmem/task_state/guards.py\<close>).  Lemmas: the
  completion warning is the one by which the policy refuses completion, the dependency warning names the items
  the policy names, and the warning about repeated actions appears exactly at the threshold of the profile.
\<close>

definition action_fingerprint :: "hashes \<Rightarrow> string \<Rightarrow> string option \<Rightarrow> (string \<times> json) list option \<Rightarrow> string" where
  "action_fingerprint H action target arguments =
     ''sha256:'' @ sha_json H (canonical (JObj
       [(''action'', JStr action), (''target'', opt_json JStr target),
        (''arguments'', JObj (case arguments of None \<Rightarrow> [] | Some kvs \<Rightarrow> kvs))]))"

definition evaluate_no_progress ::
  "store \<Rightarrow> task_state \<Rightarrow> task_profile \<Rightarrow> string \<Rightarrow> timestamp \<Rightarrow> guard_signal option" where
  "evaluate_no_progress st s p fingerprint since =
     (let repeats = count_recent_equivalent_actions st (ts_task_id s) fingerprint since in
      if int repeats < pf_no_progress_action_threshold p then None
      else Some ((guard_signal_of NO_PROGRESS s
             (''The same action has run '' @ show_nat repeats @ '' times since the last accepted progress at '' @
              to_iso since @ ''. Nothing has advanced.'') [])\<lparr>gs_repeated_action_count := int repeats\<rparr>))"

definition evaluate_dependencies :: "task_state \<Rightarrow> guard_signal option" where
  "evaluate_dependencies s =
     (let blocked = map ti_item_id (filter (\<lambda>t. ti_status t \<in> {PENDING, READY} \<and> \<not> dependencies_satisfied s t) (ts_items s)) in
      if blocked = [] then None
      else Some (guard_signal_of DEPENDENCY_UNSATISFIED s
             (show_nat (length blocked) @ '' item(s) cannot start until their dependencies are settled.'') blocked))"

definition evaluate_completion_guard :: "task_state \<Rightarrow> task_profile \<Rightarrow> guard_signal option" where
  "evaluate_completion_guard s p =
     (let blockers = completion_blockers s p in
      if blockers = [] then None
      else Some (guard_signal_of COMPLETION_NOT_ALLOWED s
             (''Completion is not allowed yet: '' @ show_nat (length blockers) @ '' requirement(s) are unsatisfied.'') blockers))"

definition out_of_scope_signal :: "string \<Rightarrow> int \<Rightarrow> guard_signal" where
  "out_of_scope_signal k n =
     \<lparr>gs_guard_type = OUT_OF_SCOPE, gs_task_id = k, gs_revision = max 1 n,
      gs_message = ''This task is outside the requesting authority scope.'', gs_blocking_item_ids = [],
      gs_repeated_action_count = 0, gs_enforced = False\<rparr>"

definition evaluate_all ::
  "store \<Rightarrow> task_state \<Rightarrow> task_profile \<Rightarrow> string option \<Rightarrow> timestamp option \<Rightarrow> guard_signal list" where
  "evaluate_all st s p fingerprint since =
     List.map_filter id
       [evaluate_dependencies s, evaluate_completion_guard s p,
        (case since of
           None \<Rightarrow> None
         | Some t \<Rightarrow> if truthy fingerprint then evaluate_no_progress st s p (py_str fingerprint) t else None)]"

lemma completion_guard_eq:
  "evaluate_completion_guard s p = (if fst (evaluate_completion s p) then None else snd (snd (evaluate_completion s p)))"
  "fst (evaluate_completion s p) \<or> (\<exists>m ids. snd (snd (evaluate_completion s p)) = Some (guard_signal_of COMPLETION_NOT_ALLOWED s m ids))"
  by (auto simp: evaluate_completion_guard_def evaluate_completion_def completion_message_def Let_def)

lemma dependency_guard_eq:
  "\<exists>m. evaluate_dependencies s =
     (if unmet_items s = [] then None else Some (guard_signal_of DEPENDENCY_UNSATISFIED s m (unmet_items s)))"
proof -
  have "(\<lambda>t. ti_status t \<in> {PENDING, READY} \<and> \<not> dependencies_satisfied s t) = waiting s"
    by (auto simp: waiting_def fun_eq_iff)
  then show ?thesis by (auto simp: evaluate_dependencies_def unmet_items_def Let_def)
qed

lemma no_progress_guard_eq:
  "\<exists>m. evaluate_no_progress st s p fp since =
     (let n = int (count_recent_equivalent_actions st (ts_task_id s) fp since) in
      if n < pf_no_progress_action_threshold p then None
      else Some ((guard_signal_of NO_PROGRESS s m [])\<lparr>gs_repeated_action_count := n\<rparr>))"
  by (auto simp: evaluate_no_progress_def Let_def)

text \<open>
  The warnings of one snapshot say what the policy would do: a completion warning is present exactly when
  the policy refuses completion and is then the very signal of that refusal; a dependency warning is present
  exactly when items wait on others and names these items; a warning about repeated actions is present exactly
  when at least the threshold of steps with the fingerprint of the action are recorded since the given time, and
  carries their number; no warning claims to have been enforced, and all are about the snapshot they were asked for.
\<close>

theorem guards_tell_the_policy:
  assumes "fingerprint \<noteq> []"
  shows "(\<forall>g\<in>set (evaluate_all st s p (Some fingerprint) (Some since)).
        \<not> gs_enforced g \<and> gs_task_id g = ts_task_id s \<and> gs_revision g = ts_revision s) \<and>
     filter (\<lambda>g. gs_guard_type g = COMPLETION_NOT_ALLOWED) (evaluate_all st s p (Some fingerprint) (Some since)) =
       (if fst (evaluate_completion s p) then [] else [the (snd (snd (evaluate_completion s p)))]) \<and>
     map gs_blocking_item_ids (filter (\<lambda>g. gs_guard_type g = DEPENDENCY_UNSATISFIED) (evaluate_all st s p (Some fingerprint) (Some since))) =
       (if unmet_items s = [] then [] else [unmet_items s]) \<and>
     map gs_repeated_action_count (filter (\<lambda>g. gs_guard_type g = NO_PROGRESS) (evaluate_all st s p (Some fingerprint) (Some since))) =
       (let n = int (length (filter (\<lambda>r. sp_task_id r = ts_task_id s \<and> sp_action_fingerprint r = Some fingerprint \<and> since \<le> sp_recorded_at r)
                 (st_steps st)))
        in if pf_no_progress_action_threshold p \<le> n then [n] else [])"
proof -
  obtain m where d: "evaluate_dependencies s =
      (if unmet_items s = [] then None else Some (guard_signal_of DEPENDENCY_UNSATISFIED s m (unmet_items s)))"
    using dependency_guard_eq by blast
  obtain m' where n: "evaluate_no_progress st s p fingerprint since =
      (let n = int (count_recent_equivalent_actions st (ts_task_id s) fingerprint since) in
       if n < pf_no_progress_action_threshold p then None
       else Some ((guard_signal_of NO_PROGRESS s m' [])\<lparr>gs_repeated_action_count := n\<rparr>))"
    using no_progress_guard_eq by blast
  show ?thesis
    using assms completion_guard_eq(2) [of s p] unfolding evaluate_all_def completion_guard_eq(1)
    by (auto simp: d n List.map_filter_def guard_signal_of_def Let_def count_recent_equivalent_actions_def)
qed

theorem guards_tell_the_policy_witness:
  "filter (\<lambda>g. gs_guard_type g = COMPLETION_NOT_ALLOWED)
     (evaluate_all empty_store ex_state ex_profile (Some ''f'') (Some 5)) = [the (snd (snd (evaluate_completion ex_state ex_profile)))]"
proof -
  have "\<not> fst (evaluate_completion ex_state ex_profile)" by code_simp
  then show ?thesis using guards_tell_the_policy [of "''f''" empty_store ex_state ex_profile 5] by simp
qed

end
