(* ===== verification/Session_Binding.thy ===== *)
theory Session_Binding
  imports Task_Service Task_Samples
begin

text \<open>
  Session bindings (\<^verbatim>\<open>src/atmem/task_state/binding.py\<close> and the binding methods of
  \<^verbatim>\<open>src/atmem/store/sqlite.py\<close>): registering, revoking, listing and resolving which task a conversation is
  bound to.  The partial unique index on active rows is checked by the insert.  The readings of the trusted
  clock during one resolution are \<open>clk 0\<close> for the exact binding and \<open>clk (i + 1)\<close> for the i-th other one.
  Lemmas: at most one binding per conversation is active, so a lookup is unambiguous; a registered binding
  resolves until it is revoked or its lifetime is over; another generation of the conversation never inherits it.
\<close>

section \<open>The binding table\<close>

definition active_for :: "authority_scope \<Rightarrow> host_session_identity \<Rightarrow> session_binding \<Rightarrow> bool" where
  "active_for sc i b \<longleftrightarrow> binding_key b = (sc, i) \<and> binding_active b"

definition insert_session_binding :: "session_binding \<Rightarrow> store \<Rightarrow> task_error + store" where
  "insert_session_binding b st =
     (if list_ex (\<lambda>x. sb_binding_id x = sb_binding_id b) (st_bindings st) \<or>
         (binding_active b \<and> list_ex (active_for (sb_scope b) (sb_identity b)) (st_bindings st))
      then Inl IntegrityError
      else Inr (st\<lparr>st_bindings := st_bindings st @ [b]\<rparr>))"

definition find_active_session_binding ::
  "store \<Rightarrow> authority_scope \<Rightarrow> host_session_identity \<Rightarrow> session_binding option" where
  "find_active_session_binding st sc i = find (active_for sc i) (st_bindings st)"

definition find_active_bindings_for_session_key ::
  "store \<Rightarrow> authority_scope \<Rightarrow> string \<Rightarrow> string \<Rightarrow> session_binding list" where
  "find_active_bindings_for_session_key st sc host key =
     sort_key (\<lambda>b. - sb_registered_at b)
       (filter (\<lambda>b. sb_scope b = sc \<and> hs_host_type (sb_identity b) = host \<and> hs_session_key (sb_identity b) = key \<and>
                    binding_active b) (st_bindings st))"

definition list_session_bindings :: "store \<Rightarrow> authority_scope \<Rightarrow> string option \<Rightarrow> bool \<Rightarrow> session_binding list" where
  "list_session_bindings st sc k include_revoked =
     sort_key (\<lambda>b. (- sb_registered_at b, sb_binding_id b))
       (filter (\<lambda>b. sb_scope b = sc \<and> (truthy k \<longrightarrow> sb_task_id b = py_str k) \<and>
                    (include_revoked \<or> binding_active b)) (st_bindings st))"

definition revoke_row :: "timestamp \<Rightarrow> string \<Rightarrow> string \<Rightarrow> session_binding \<Rightarrow> session_binding" where
  "revoke_row at who why b =
     b\<lparr>sb_revoked_at := Some at, sb_revoked_by := Some who, sb_revoked_reason := Some why\<rparr>"

text \<open>An \<^verbatim>\<open>UPDATE\<close> of the rows that match, and how many there were.\<close>

definition revoke_where ::
  "(session_binding \<Rightarrow> bool) \<Rightarrow> timestamp \<Rightarrow> string \<Rightarrow> string \<Rightarrow> store \<Rightarrow> store \<times> nat" where
  "revoke_where match at who why st =
     (st\<lparr>st_bindings := map (\<lambda>b. if match b then revoke_row at who why b else b) (st_bindings st)\<rparr>,
      length (filter match (st_bindings st)))"

definition revoke_session_binding ::
  "string \<Rightarrow> authority_scope \<Rightarrow> timestamp \<Rightarrow> string \<Rightarrow> string \<Rightarrow> store \<Rightarrow> store \<times> bool" where
  "revoke_session_binding bid sc at who why st =
     (case revoke_where (\<lambda>b. sb_binding_id b = bid \<and> sb_scope b = sc \<and> binding_active b) at who why st of
        (st', n) \<Rightarrow> (st', 0 < n))"

definition revoke_session_bindings_for_task ::
  "string \<Rightarrow> timestamp \<Rightarrow> string \<Rightarrow> string \<Rightarrow> store \<Rightarrow> store \<times> nat" where
  "revoke_session_bindings_for_task k = revoke_where (\<lambda>b. sb_task_id b = k \<and> binding_active b)"

definition delete_session_bindings_for_task :: "string \<Rightarrow> store \<Rightarrow> store \<times> nat" where
  "delete_session_bindings_for_task k st =
     (st\<lparr>st_bindings := filter (\<lambda>b. sb_task_id b \<noteq> k) (st_bindings st)\<rparr>,
      length (filter (\<lambda>b. sb_task_id b = k) (st_bindings st)))"

section \<open>The binding service\<close>

definition binding_lifetime :: "task_profile option \<Rightarrow> int option" where
  "binding_lifetime p =
     (case p of None \<Rightarrow> None
      | Some q \<Rightarrow> (case pf_binding_lifetime_ms q of None \<Rightarrow> None | Some n \<Rightarrow> if n = 0 then None else Some n))"

definition new_binding ::
  "string \<Rightarrow> authority_scope \<Rightarrow> host_session_identity \<Rightarrow> string \<Rightarrow> string \<Rightarrow> string \<Rightarrow> string \<Rightarrow> evidence_ref list \<Rightarrow>
   timestamp \<Rightarrow> session_binding" where
  "new_binding bid sc i k actor reason source evidence now =
     \<lparr>sb_binding_id = bid, sb_scope = sc, sb_identity = i, sb_task_id = k, sb_actor = actor, sb_reason = reason,
      sb_registered_at = now, sb_source = source, sb_evidence = evidence, sb_expires_at = None,
      sb_revoked_at = None, sb_revoked_by = None, sb_revoked_reason = None\<rparr>"

text \<open>The stored row carries the expiry; the returned binding does not.\<close>

definition register_binding ::
  "timestamp \<Rightarrow> authority_scope \<Rightarrow> host_session_identity \<Rightarrow> string \<Rightarrow> string \<Rightarrow> string \<Rightarrow> string \<Rightarrow>
   task_profile option \<Rightarrow> evidence_ref list \<Rightarrow> store \<Rightarrow> session_binding outcome" where
  "register_binding now sc i k actor reason source p evidence st =
     (let bid = ''binding-'' @ show_nat (st_next_id st);
          b = new_binding bid sc i k actor reason source evidence now;
          expires = map_option (\<lambda>ms. now + ms * 1000) (binding_lifetime p);
          st1 = st\<lparr>st_next_id := st_next_id st + 1\<rparr> in
      if \<not> SessionBinding_ok b then (st1, Inl (ContractError ValueError))
      else (case insert_session_binding (b\<lparr>sb_expires_at := expires\<rparr>) st1 of
              Inl IntegrityError \<Rightarrow> (st1, Inl (BindingError ''binding_already_active''))
            | Inl e \<Rightarrow> (st1, Inl e)
            | Inr st' \<Rightarrow> (st', Inr b)))"

definition revoke_binding ::
  "timestamp \<Rightarrow> authority_scope \<Rightarrow> string \<Rightarrow> string \<Rightarrow> string \<Rightarrow> store \<Rightarrow> unit outcome" where
  "revoke_binding now sc bid actor reason st =
     (case revoke_session_binding bid sc now actor reason st of
        (st', revoked) \<Rightarrow> if revoked then (st', Inr ()) else (st', Inl (BindingError ''binding_not_found'')))"

definition binding_expired :: "timestamp \<Rightarrow> session_binding \<Rightarrow> bool" where
  "binding_expired now b = (case sb_expires_at b of None \<Rightarrow> False | Some t \<Rightarrow> t \<le> now)"

definition active_binding ::
  "store \<Rightarrow> timestamp \<Rightarrow> authority_scope \<Rightarrow> host_session_identity \<Rightarrow> session_binding option" where
  "active_binding st now sc i =
     (case find_active_session_binding st sc i of
        None \<Rightarrow> None
      | Some b \<Rightarrow> if binding_expired now b then None else Some b)"

fun any_stale :: "clock \<Rightarrow> nat \<Rightarrow> string \<Rightarrow> session_binding list \<Rightarrow> bool" where
  "any_stale clk n epoch [] = False"
| "any_stale clk n epoch (b # bs) =
     (hs_session_epoch (sb_identity b) \<noteq> epoch \<or> binding_expired (clk n) b \<or> any_stale clk (n + 1) epoch bs)"

definition stale_generation :: "store \<Rightarrow> clock \<Rightarrow> authority_scope \<Rightarrow> host_session_identity \<Rightarrow> bool" where
  "stale_generation st clk sc i =
     any_stale clk 1 (hs_session_epoch i)
       (find_active_bindings_for_session_key st sc (hs_host_type i) (hs_session_key i))"

record resolved_task =
  rt_resolution :: binding_resolution
  rt_task_id :: "string option"
  rt_reason_code :: "string option"
  rt_binding_id :: "string option"

definition ResolvedTask_ok :: "resolved_task \<Rightarrow> bool" where
  "ResolvedTask_ok r \<longleftrightarrow> (delivers (rt_resolution r) \<longleftrightarrow> truthy (rt_task_id r))"

definition answer :: "binding_resolution \<Rightarrow> string option \<Rightarrow> string option \<Rightarrow> string option \<Rightarrow> task_error + resolved_task" where
  "answer r k why bid =
     (let a = \<lparr>rt_resolution = r, rt_task_id = k, rt_reason_code = why, rt_binding_id = bid\<rparr>
      in if ResolvedTask_ok a then Inr a else Inl (ContractError ValueError))"

definition explicit_id :: "string option \<Rightarrow> string option" where
  "explicit_id k = (case k of None \<Rightarrow> None | Some s \<Rightarrow> if py_strip s = [] then None else Some (py_strip s))"

definition resolve ::
  "store \<Rightarrow> clock \<Rightarrow> authority_scope \<Rightarrow> host_session_identity option \<Rightarrow> string option \<Rightarrow> task_error + resolved_task" where
  "resolve st clk sc identity explicit_task_id =
     (let bound = (case identity of None \<Rightarrow> None | Some i \<Rightarrow> active_binding st (clk 0) sc i) in
      case (explicit_id explicit_task_id, bound) of
        (Some k, Some b) \<Rightarrow>
          if sb_task_id b \<noteq> k then answer CONFLICT_B None (Some ''task_binding_conflict'') None
          else answer EXPLICIT (Some k) None (Some (sb_binding_id b))
      | (Some k, None) \<Rightarrow> answer EXPLICIT (Some k) None None
      | (None, Some b) \<Rightarrow> answer BOUND (Some (sb_task_id b)) None (Some (sb_binding_id b))
      | (None, None) \<Rightarrow>
          (case identity of
             Some i \<Rightarrow>
               if stale_generation st clk sc i then answer STALE_SESSION None (Some ''task_binding_stale_session'') None
               else answer NONE None (Some ''task_context_selection_required'') None
           | None \<Rightarrow> answer NONE None (Some ''task_context_selection_required'') None))"

section \<open>At most one active binding per conversation\<close>

definition bindings_ok :: "session_binding list \<Rightarrow> bool" where
  "bindings_ok bs \<longleftrightarrow>
     distinct (map binding_key (filter binding_active bs)) \<and> (\<forall>b\<in>set bs. sb_task_id b \<noteq> [])"

lemma identifier_nonempty: "identifier_ok s \<Longrightarrow> s \<noteq> []"
  by (auto simp: identifier_ok_def py_strip_def)

lemma insert_session_binding_ok:
  assumes "insert_session_binding b st = Inr st'" and "bindings_ok (st_bindings st)" and "sb_task_id b \<noteq> []"
  shows "bindings_ok (st_bindings st')"
  using assms
  by (auto simp: insert_session_binding_def bindings_ok_def list_ex_iff active_for_def binding_key_def split: if_splits)

lemma revoke_row_fields [simp]:
  "\<not> binding_active (revoke_row at who why b)" "sb_task_id (revoke_row at who why b) = sb_task_id b"
  "binding_key (revoke_row at who why b) = binding_key b"
  by (simp_all add: revoke_row_def binding_active_def binding_key_def)

lemma bindings_ok_filter: "bindings_ok bs \<Longrightarrow> bindings_ok (filter P bs)"
  by (induction bs) (auto simp: bindings_ok_def)

lemma filter_active_revoke:
  "filter binding_active (map (\<lambda>b. if match b then revoke_row at who why b else b) bs) =
     filter (\<lambda>b. \<not> match b) (filter binding_active bs)"
  by (induction bs) auto

lemma bindings_ok_revoke:
  assumes "bindings_ok bs"
  shows "bindings_ok (map (\<lambda>b. if match b then revoke_row at who why b else b) bs)"
  unfolding bindings_ok_def filter_active_revoke
  using assms by (auto simp: bindings_ok_def distinct_map_filter simp del: filter_filter)

inductive binding_step :: "store \<Rightarrow> store \<Rightarrow> bool" where
  registers_binding: "register_binding now sc i k actor reason source p evidence st = (st', x) \<Longrightarrow> binding_step st st'"
| revokes_binding: "revoke_binding now sc bid actor reason st = (st', y) \<Longrightarrow> binding_step st st'"
| revokes_task: "revoke_session_bindings_for_task k at who why st = (st', n) \<Longrightarrow> binding_step st st'"
| deletes_bindings: "delete_session_bindings_for_task k st = (st', n) \<Longrightarrow> binding_step st st'"
| forgets_task: "delete_task sc k st = (st', b, removed) \<Longrightarrow> binding_step st st'"
| resets: "st' = reset_subject_tasks sub st \<Longrightarrow> binding_step st st'"

lemma register_binding_cases:
  assumes "register_binding now sc i k actor reason source p evidence st = (st', x)"
  obtains e where "x = Inl e" "st_bindings st' = st_bindings st"
  | b bid where "x = Inr b" "b = new_binding bid sc i k actor reason source evidence now" "SessionBinding_ok b"
      "\<not> list_ex (active_for sc i) (st_bindings st)" "\<forall>x\<in>set (st_bindings st). sb_binding_id x \<noteq> bid"
      "st_bindings st' = st_bindings st @ [b\<lparr>sb_expires_at := map_option (\<lambda>ms. now + ms * 1000) (binding_lifetime p)\<rparr>]"
  using assms
  by (auto simp: register_binding_def insert_session_binding_def Let_def new_binding_def binding_active_def list_ex_iff
      split: if_splits sum.splits task_error.splits)

lemma binding_step_ok:
  assumes "binding_step st st'" and "bindings_ok (st_bindings st)"
  shows "bindings_ok (st_bindings st')"
  using assms
proof (induction rule: binding_step.induct)
  case (registers_binding now sc i k actor reason source p evidence st st' x)
  from registers_binding(1) show ?case
  proof (cases rule: register_binding_cases)
    case (2 b bid)
    have "sb_task_id b \<noteq> []" using 2(3) identifier_nonempty by (simp add: SessionBinding_ok_def)
    moreover have "binding_key b = (sc, i)" using 2(2) by (simp add: new_binding_def binding_key_def)
    ultimately show ?thesis
      using registers_binding(2) 2(4,6) by (auto simp: bindings_ok_def list_ex_iff active_for_def binding_key_def)
  qed (use registers_binding(2) in simp)
next
  case (revokes_binding now sc bid actor reason st st' y)
  then show ?case
    by (auto simp: revoke_binding_def revoke_session_binding_def revoke_where_def bindings_ok_revoke split: if_splits)
next
  case (revokes_task k at who why st st' n)
  then show ?case
    by (auto simp: revoke_session_bindings_for_task_def revoke_where_def bindings_ok_revoke)
next
  case (deletes_bindings k st st' n)
  then show ?case by (auto simp: delete_session_bindings_for_task_def bindings_ok_filter)
next
  case (forgets_task sc k st st' b removed)
  then show ?case
    by (auto simp: delete_task_def drop_task_rows_def Let_def bindings_ok_filter split: option.splits)
next
  case (resets st' sub st)
  then show ?case by (simp add: reset_subject_tasks_def Let_def drop_task_rows_def bindings_ok_filter)
qed

interpretation binding_table: invariant_system "\<lambda>st. st_bindings st = []" binding_step "\<lambda>st. bindings_ok (st_bindings st)"
  by unfold_locales (simp add: bindings_ok_def, rule binding_step_ok)

lemma find_active_unique:
  assumes "bindings_ok (st_bindings st)"
  shows "find_active_session_binding st sc i = Some b \<longleftrightarrow> b \<in> set (st_bindings st) \<and> active_for sc i b"
proof -
  have "active_for sc i = (\<lambda>b. binding_active b \<and> binding_key b = (sc, i))" by (auto simp: active_for_def)
  then have "find_active_session_binding st sc i = lookup_by binding_key (sc, i) (filter binding_active (st_bindings st))"
    by (simp add: find_active_session_binding_def find_filter)
  then show ?thesis
    using assms by (auto simp: bindings_ok_def lookup_by_Some_distinct active_for_def)
qed

section \<open>Properties of bindings\<close>

text \<open>
  [C31] Whatever registrations, revocations, deletions and resets happen, a conversation has at most one active
  binding: the exact-key lookup finds a row exactly when it is the active row of that key, and resolving the
  conversation names one task with a reason-free delivery or no task with one reason, never an exception.
\<close>

theorem one_active_binding:
  assumes "st_bindings st0 = []" and "binding_step\<^sup>*\<^sup>* st0 st"
  shows "(find_active_session_binding st sc i = Some b \<longleftrightarrow> b \<in> set (st_bindings st) \<and> active_for sc i b) \<and>
     (\<forall>b'\<in>set (st_bindings st). active_for sc i b \<and> b \<in> set (st_bindings st) \<and> active_for sc i b' \<longrightarrow> b' = b) \<and>
     (\<exists>a. resolve st clk sc identity explicit = Inr a \<and> (delivers (rt_resolution a) \<longleftrightarrow> truthy (rt_task_id a)) \<and>
        (delivers (rt_resolution a) \<longleftrightarrow> rt_reason_code a = None))"
proof -
  have ok: "bindings_ok (st_bindings st)" using binding_table.inv_reachable [OF assms] .
  have "\<exists>a. resolve st clk sc identity explicit = Inr a \<and> (delivers (rt_resolution a) \<longleftrightarrow> truthy (rt_task_id a)) \<and>
      (delivers (rt_resolution a) \<longleftrightarrow> rt_reason_code a = None)"
  proof -
    have "sb_task_id b \<noteq> []" if "active_binding st t sc j = Some b" for b t j
      using that ok find_active_unique [OF ok, of sc j]
      by (auto simp: active_binding_def bindings_ok_def split: option.splits if_splits)
    then show ?thesis
      by (auto simp: resolve_def answer_def Let_def ResolvedTask_ok_def delivers_def explicit_id_def split: option.splits)
  qed
  then show ?thesis using find_active_unique [OF ok] by (metis option.inject)
qed


definition ex_conversation :: host_session_identity where
  "ex_conversation = \<lparr>hs_host_type = ''host'', hs_session_key = ''chat'', hs_session_epoch = ''e1''\<rparr>"

definition ex_bound :: "store \<times> (task_error + session_binding)" where
  "ex_bound = register_binding 5 ex_scope ex_conversation ''t'' ''op'' ''work'' [] None [] empty_store"

lemma ex_bound_step: "binding_step empty_store (fst ex_bound)"
  unfolding ex_bound_def by (rule registers_binding) (rule prod.collapse [symmetric])

lemma ex_bound_star: "binding_step\<^sup>*\<^sup>* empty_store (fst ex_bound)"
  using ex_bound_step by (rule r_into_rtranclp)

lemma empty_bindings: "st_bindings empty_store = []"
  by (simp add: empty_store_def)

lemma ex_bound_rows:
  "st_bindings (fst ex_bound) = [new_binding ''binding-0'' ex_scope ex_conversation ''t'' ''op'' ''work'' [] [] 5]"
  by code_simp

theorem one_active_binding_witness:
  "st_bindings empty_store = [] \<and> binding_step\<^sup>*\<^sup>* empty_store (fst ex_bound) \<and>
   find_active_session_binding (fst ex_bound) ex_scope ex_conversation =
     Some (new_binding ''binding-0'' ex_scope ex_conversation ''t'' ''op'' ''work'' [] [] 5)"
  using one_active_binding [OF empty_bindings ex_bound_star, of ex_scope ex_conversation
      "new_binding ''binding-0'' ex_scope ex_conversation ''t'' ''op'' ''work'' [] [] 5"]
  by (simp add: ex_bound_rows active_for_def binding_key_def binding_active_def new_binding_def empty_bindings ex_bound_star)

lemma any_stale_intro:
  assumes "b \<in> set bs" and "hs_session_epoch (sb_identity b) \<noteq> epoch \<or> (\<forall>m. binding_expired (clk m) b)"
  shows "any_stale clk n epoch bs"
  using assms by (induction clk n epoch bs rule: any_stale.induct) auto

lemma revoked_not_found:
  assumes ok: "bindings_ok (st_bindings st)" and "find_active_session_binding st sc i = Some b"
  shows "find_active_session_binding (fst (revoke_binding now sc (sb_binding_id b) actor reason st)) sc i = None"
proof -
  let ?match = "\<lambda>x. sb_binding_id x = sb_binding_id b \<and> sb_scope x = sc \<and> binding_active x"
  have "find_active_session_binding (fst (revoke_where ?match now actor reason st)) sc i = None"
  proof -
    have "x = b" if "x \<in> set (st_bindings st)" "active_for sc i x" for x
      using that assms(2) find_active_unique [OF ok] by (metis option.inject)
    moreover have "?match b" using assms(2) find_active_unique [OF ok]
      by (auto simp: active_for_def binding_key_def)
    ultimately show ?thesis
      by (auto simp: find_active_session_binding_def revoke_where_def find_None_iff active_for_def)
  qed
  then show ?thesis by (auto simp: revoke_binding_def revoke_session_binding_def split: prod.splits)
qed

definition registered :: "timestamp \<Rightarrow> task_profile option \<Rightarrow> session_binding \<Rightarrow> session_binding" where
  "registered now p b = b\<lparr>sb_expires_at := map_option (\<lambda>ms. now + ms * 1000) (binding_lifetime p)\<rparr>"

definition lasts :: "timestamp \<Rightarrow> task_profile option \<Rightarrow> timestamp \<Rightarrow> bool" where
  "lasts now p t \<longleftrightarrow> (\<forall>ms. binding_lifetime p = Some ms \<longrightarrow> t < now + ms * 1000)"

lemma binding_expired_registered:
  "sb_expires_at b = None \<Longrightarrow> binding_expired t (registered now p b) \<longleftrightarrow> \<not> lasts now p t"
  by (auto simp: binding_expired_def registered_def lasts_def split: option.splits)

lemma registered_found:
  assumes ok: "bindings_ok (st_bindings st)"
    and reg: "register_binding now sc i k actor reason source p evidence st = (st1, Inr b)"
  shows "bindings_ok (st_bindings st1)" "sb_task_id b = k" "sb_expires_at b = None" "k \<noteq> []"
    "registered now p b \<in> set (st_bindings st1)" "active_for sc i (registered now p b)"
    "find_active_session_binding st1 sc i = Some (registered now p b)"
    "j \<noteq> i \<Longrightarrow> find_active_session_binding st1 sc j = find_active_session_binding st sc j"
proof -
  show ok1: "bindings_ok (st_bindings st1)" using binding_step_ok [OF registers_binding [OF reg] ok] .
  from reg have rows: "st_bindings st1 = st_bindings st @ [registered now p b]"
    and "\<exists>bid. b = new_binding bid sc i k actor reason source evidence now" and "SessionBinding_ok b"
    by (cases rule: register_binding_cases; simp add: registered_def; blast)+
  then show fields: "sb_task_id b = k" "sb_expires_at b = None" "active_for sc i (registered now p b)" "k \<noteq> []"
    by (auto simp: new_binding_def active_for_def registered_def binding_key_def binding_active_def
        SessionBinding_ok_def dest: identifier_nonempty)
  show mem: "registered now p b \<in> set (st_bindings st1)" by (simp add: rows)
  then show "find_active_session_binding st1 sc i = Some (registered now p b)"
    using fields find_active_unique [OF ok1] by simp
  show "j \<noteq> i \<Longrightarrow> find_active_session_binding st1 sc j = find_active_session_binding st sc j"
    using fields(3) by (auto simp: find_active_session_binding_def rows active_for_def intro: find_snoc_other)
qed

lemma stale_answer:
  assumes "b \<in> set (st_bindings st)" "active_for sc i b" "hs_host_type j = hs_host_type i"
    "hs_session_key j = hs_session_key i" "active_binding st (clk 0) sc j = None"
    "hs_session_epoch j \<noteq> hs_session_epoch i \<or> (\<forall>m. binding_expired (clk m) b)"
  shows "resolve st clk sc (Some j) None = answer STALE_SESSION None (Some ''task_binding_stale_session'') None"
proof -
  have "stale_generation st clk sc j"
    unfolding stale_generation_def
    by (rule any_stale_intro [of b]) (use assms in \<open>auto simp: find_active_bindings_for_session_key_def active_for_def binding_key_def\<close>)
  then show ?thesis using assms(5) by (simp add: resolve_def explicit_id_def)
qed

text \<open>
  A binding that was just registered for a conversation is what the conversation resolves to, by its own
  identifier and with the task it names, at every time before its lifetime is over and not after it; naming
  another task explicitly is then a conflict, registering a second valid binding for the conversation is refused
  and leaves the table as it was, another generation of the same conversation without a binding of its own is told that its
  binding is stale, and once the binding is revoked the conversation is not bound to anything.
\<close>

theorem binding_life:
  assumes st: "st_bindings st0 = []" "binding_step\<^sup>*\<^sup>* st0 st"
    and reg: "register_binding now sc i k actor reason source p evidence st = (st1, Inr b)"
  shows "(lasts now p (clk 0) \<longrightarrow> resolve st1 clk sc (Some i) None =
            Inr \<lparr>rt_resolution = BOUND, rt_task_id = Some k, rt_reason_code = None,
                 rt_binding_id = Some (sb_binding_id b)\<rparr>) \<and>
     ((\<forall>n. \<not> lasts now p (clk n)) \<longrightarrow> resolve st1 clk sc (Some i) None =
            answer STALE_SESSION None (Some ''task_binding_stale_session'') None) \<and>
     (lasts now p (clk 0) \<and> py_strip k' \<noteq> [] \<and> py_strip k' \<noteq> k \<longrightarrow>
        resolve st1 clk sc (Some i) (Some k') = answer CONFLICT_B None (Some ''task_binding_conflict'') None) \<and>
     (SessionBinding_ok (new_binding (''binding-'' @ show_nat (st_next_id st1)) sc i k2 actor2 reason2 source2 evidence2 now2) \<longrightarrow>
        snd (register_binding now2 sc i k2 actor2 reason2 source2 p2 evidence2 st1) =
          Inl (BindingError ''binding_already_active'') \<and>
        st_bindings (fst (register_binding now2 sc i k2 actor2 reason2 source2 p2 evidence2 st1)) = st_bindings st1) \<and>
     (hs_host_type j = hs_host_type i \<and> hs_session_key j = hs_session_key i \<and> hs_session_epoch j \<noteq> hs_session_epoch i \<and>
        find_active_session_binding st sc j = None \<longrightarrow>
        resolve st1 clk sc (Some j) None = answer STALE_SESSION None (Some ''task_binding_stale_session'') None) \<and>
     find_active_session_binding (fst (revoke_binding now3 sc (sb_binding_id b) actor3 reason3 st1)) sc i = None"
proof -
  have ok: "bindings_ok (st_bindings st)" using binding_table.inv_reachable [OF st] .
  note f = registered_found [OF ok reg]
  have act: "active_binding st1 (clk 0) sc i = (if lasts now p (clk 0) then Some (registered now p b) else None)"
    using f binding_expired_registered by (simp add: active_binding_def)
  have fields: "sb_task_id (registered now p b) = k" "sb_binding_id (registered now p b) = sb_binding_id b"
    using f(2) by (simp_all add: registered_def)
  have one: "lasts now p (clk 0) \<longrightarrow> resolve st1 clk sc (Some i) None =
      Inr \<lparr>rt_resolution = BOUND, rt_task_id = Some k, rt_reason_code = None, rt_binding_id = Some (sb_binding_id b)\<rparr>"
    using act fields f(4) by (simp add: resolve_def explicit_id_def answer_def Let_def ResolvedTask_ok_def delivers_def)
  have two: "(\<forall>n. \<not> lasts now p (clk n)) \<longrightarrow> resolve st1 clk sc (Some i) None =
      answer STALE_SESSION None (Some ''task_binding_stale_session'') None"
    using stale_answer [OF f(5,6)] act binding_expired_registered [OF f(3)] by simp
  have three: "lasts now p (clk 0) \<and> py_strip k' \<noteq> [] \<and> py_strip k' \<noteq> k \<longrightarrow>
      resolve st1 clk sc (Some i) (Some k') = answer CONFLICT_B None (Some ''task_binding_conflict'') None"
    using act fields by (simp add: resolve_def explicit_id_def)
  have four: "SessionBinding_ok (new_binding (''binding-'' @ show_nat (st_next_id st1)) sc i k2 actor2 reason2 source2 evidence2 now2) \<longrightarrow>
      snd (register_binding now2 sc i k2 actor2 reason2 source2 p2 evidence2 st1) = Inl (BindingError ''binding_already_active'') \<and>
      st_bindings (fst (register_binding now2 sc i k2 actor2 reason2 source2 p2 evidence2 st1)) = st_bindings st1"
    using f(5,6) by (auto simp: register_binding_def insert_session_binding_def Let_def new_binding_def binding_active_def list_ex_iff)
  have five: "hs_host_type j = hs_host_type i \<and> hs_session_key j = hs_session_key i \<and> hs_session_epoch j \<noteq> hs_session_epoch i \<and>
      find_active_session_binding st sc j = None \<longrightarrow>
      resolve st1 clk sc (Some j) None = answer STALE_SESSION None (Some ''task_binding_stale_session'') None"
  proof
    assume j: "hs_host_type j = hs_host_type i \<and> hs_session_key j = hs_session_key i \<and>
      hs_session_epoch j \<noteq> hs_session_epoch i \<and> find_active_session_binding st sc j = None"
    then have "j \<noteq> i" by auto
    then have "active_binding st1 (clk 0) sc j = None" using f(8) [of j] j by (simp add: active_binding_def)
    then show "resolve st1 clk sc (Some j) None = answer STALE_SESSION None (Some ''task_binding_stale_session'') None"
      using stale_answer [OF f(5,6)] j by blast
  qed
  have six: "find_active_session_binding (fst (revoke_binding now3 sc (sb_binding_id b) actor3 reason3 st1)) sc i = None"
    using revoked_not_found [OF f(1,7)] fields by simp
  show ?thesis using one two three four five six by blast
qed

lemma ex_bound_result:
  "register_binding 5 ex_scope ex_conversation ''t'' ''op'' ''work'' [] None [] empty_store =
     (fst ex_bound, Inr (new_binding ''binding-0'' ex_scope ex_conversation ''t'' ''op'' ''work'' [] [] 5))"
proof -
  have "snd ex_bound = Inr (new_binding ''binding-0'' ex_scope ex_conversation ''t'' ''op'' ''work'' [] [] 5)" by code_simp
  then show ?thesis unfolding ex_bound_def by (metis prod.collapse)
qed

theorem binding_life_witness:
  "resolve (fst ex_bound) (\<lambda>n. 7) ex_scope (Some ex_conversation) None =
     Inr \<lparr>rt_resolution = BOUND, rt_task_id = Some ''t'', rt_reason_code = None, rt_binding_id = Some ''binding-0''\<rparr>"
  using binding_life [OF empty_bindings rtranclp.rtrancl_refl ex_bound_result, where clk = "\<lambda>n. 7"]
  by (auto simp: lasts_def binding_lifetime_def new_binding_def)

end
