(* ===== verification/Scope_Enablement.thy ===== *)
theory Scope_Enablement
  imports Audit_Log Task_Contracts Task_Samples
begin

text \<open>
  The per-scope switch (\<^verbatim>\<open>src/atmem/task_state/enablement.py\<close>), kept as events of the audit log.  Lemmas: on a
  well-formed log the switch is a map from scopes to modes that \<^verbatim>\<open>enable\<close> and \<^verbatim>\<open>disable\<close> update at one scope
  and that no other event changes.
\<close>

definition ENABLED_EVENT :: string where
  "ENABLED_EVENT = ''task_state.scope_enabled''"

definition DISABLED_EVENT :: string where
  "DISABLED_EVENT = ''task_state.scope_disabled''"

record scope_mode =
  sm_enabled :: bool
  sm_shadow :: bool

definition influences_agent :: "scope_mode \<Rightarrow> bool" where
  "influences_agent m \<longleftrightarrow> sm_enabled m \<and> \<not> sm_shadow m"

definition mode_label :: "scope_mode \<Rightarrow> string" where
  "mode_label m = (if \<not> sm_enabled m then ''disabled'' else if sm_shadow m then ''shadow'' else ''active'')"

definition ScopeMode_to_dict :: "scope_mode \<Rightarrow> json" where
  "ScopeMode_to_dict m =
     JObj [(''format'', JStr ''atmem-task-state-mode-v1''), (''mode'', JStr (mode_label m)),
           (''enabled'', JBool (sm_enabled m)), (''shadow'', JBool (sm_shadow m)),
           (''influences_agent'', JBool (influences_agent m))]"

definition DISABLED :: scope_mode where
  "DISABLED = \<lparr>sm_enabled = False, sm_shadow = False\<rparr>"

text \<open>The filter of the loop in \<^verbatim>\<open>mode\<close>: a setting event whose payload names the agent and the workspace.\<close>

definition concerns :: "authority_scope \<Rightarrow> audit_event \<Rightarrow> bool" where
  "concerns sc e \<longleftrightarrow>
     ae_event_type e \<in> {ENABLED_EVENT, DISABLED_EVENT} \<and>
     jget (ae_payload e) ''agent_id'' = Some (JStr (sc_agent_id sc)) \<and>
     jget (ae_payload e) ''workspace_id'' = Some (JStr (sc_workspace_id sc))"

fun latest_setting :: "authority_scope \<Rightarrow> audit_event option \<Rightarrow> audit_event list \<Rightarrow> audit_event option" where
  "latest_setting sc latest [] = latest"
| "latest_setting sc latest (e # es) = latest_setting sc (if concerns sc e then Some e else latest) es"

definition setting_mode :: "audit_event option \<Rightarrow> scope_mode" where
  "setting_mode latest =
     (case latest of
        None \<Rightarrow> DISABLED
      | Some e \<Rightarrow>
          if ae_event_type e = DISABLED_EVENT then DISABLED
          else \<lparr>sm_enabled = True,
                sm_shadow = (case jget (ae_payload e) ''shadow'' of None \<Rightarrow> False | Some v \<Rightarrow> \<not> py_falsy v)\<rparr>)"

definition mode :: "audit_log \<Rightarrow> authority_scope \<Rightarrow> scope_mode" where
  "mode log sc = setting_mode (latest_setting sc None (list_audit_events log (sc_subject_id sc)))"

definition enable ::
  "hashes \<Rightarrow> string \<Rightarrow> timestamp \<Rightarrow> authority_scope \<Rightarrow> string \<Rightarrow> bool \<Rightarrow> audit_log \<Rightarrow> audit_log \<times> scope_mode" where
  "enable H event_id now sc actor shadow log =
     (append_audit_event H event_id now (sc_subject_id sc) ENABLED_EVENT
        (JObj [(''agent_id'', JStr (sc_agent_id sc)), (''workspace_id'', JStr (sc_workspace_id sc)),
               (''shadow'', JBool shadow)]) actor None None None log,
      \<lparr>sm_enabled = True, sm_shadow = shadow\<rparr>)"

definition disable ::
  "hashes \<Rightarrow> string \<Rightarrow> timestamp \<Rightarrow> authority_scope \<Rightarrow> string \<Rightarrow> audit_log \<Rightarrow> audit_log \<times> scope_mode" where
  "disable H event_id now sc actor log =
     (append_audit_event H event_id now (sc_subject_id sc) DISABLED_EVENT
        (JObj [(''agent_id'', JStr (sc_agent_id sc)), (''workspace_id'', JStr (sc_workspace_id sc))])
        actor None None None log,
      DISABLED)"

section \<open>The switch as a map\<close>

lemma latest_setting_append: "latest_setting sc l (xs @ ys) = latest_setting sc (latest_setting sc l xs) ys"
  by (induction sc l xs rule: latest_setting.induct) auto

lemma mode_append:
  assumes "log_ok log"
  shows "mode (append_audit_event H i now sub ty pl ac se tu re log) sc =
     (if sc_subject_id sc = sub \<and> ty \<in> {ENABLED_EVENT, DISABLED_EVENT} \<and>
         jget pl ''agent_id'' = Some (JStr (sc_agent_id sc)) \<and> jget pl ''workspace_id'' = Some (JStr (sc_workspace_id sc))
      then if ty = DISABLED_EVENT then DISABLED
           else \<lparr>sm_enabled = True, sm_shadow = (case jget pl ''shadow'' of None \<Rightarrow> False | Some v \<Rightarrow> \<not> py_falsy v)\<rparr>
      else mode log sc)"
  unfolding mode_def list_audit_events_append [OF assms] latest_setting_append
  by (auto simp: append_audit_event_def Let_def concerns_def setting_mode_def)

lemma scope_fields_eq:
  "sc_subject_id a = sc_subject_id b \<Longrightarrow> sc_agent_id a = sc_agent_id b \<Longrightarrow> sc_workspace_id a = sc_workspace_id b \<Longrightarrow>
     a = (b :: authority_scope)"
  by simp

text \<open>
  [C32] On a well-formed log the switch is exactly a map from scopes to modes: it is off everywhere on the empty
  log, \<^verbatim>\<open>enable\<close> and \<^verbatim>\<open>disable\<close> set it at their scope to the mode they return and leave every other scope, even
  of the same subject, as it was, and an event of a type other than their two changes nothing; an event of these
  types counts whoever appends it.  The settings keep the audit chain of every subject verifiable.
\<close>

theorem switch_is_a_map:
  assumes ok: "log_ok log"
  shows "mode empty_log = (\<lambda>sc. DISABLED) \<and>
     mode (fst (enable H i now sc actor shadow log)) = (mode log)(sc := snd (enable H i now sc actor shadow log)) \<and>
     mode (fst (disable H i now sc actor log)) = (mode log)(sc := snd (disable H i now sc actor log)) \<and>
     influences_agent (snd (enable H i now sc actor shadow log)) = (\<not> shadow) \<and>
     (ty \<noteq> ENABLED_EVENT \<longrightarrow> ty \<noteq> DISABLED_EVENT \<longrightarrow>
        mode (append_audit_event H i now sub ty pl ac se tu re log) = mode log) \<and>
     (verify_audit_chain H log s \<longrightarrow>
        verify_audit_chain H (fst (enable H i now sc actor shadow log)) s \<and>
        verify_audit_chain H (fst (disable H i now sc actor log)) s)"
proof -
  have "ENABLED_EVENT \<noteq> DISABLED_EVENT" by (simp add: ENABLED_EVENT_def DISABLED_EVENT_def)
  then have set: "mode (fst (enable H i now sc actor shadow log)) = (mode log)(sc := snd (enable H i now sc actor shadow log))"
    "mode (fst (disable H i now sc actor log)) = (mode log)(sc := snd (disable H i now sc actor log))"
    by (auto simp: fun_eq_iff enable_def disable_def mode_append [OF ok] intro: scope_fields_eq)
  have "mode empty_log = (\<lambda>sc. DISABLED)"
    by (simp add: fun_eq_iff mode_def empty_log_def list_audit_events_def setting_mode_def)
  then show ?thesis
    using set append_verifies [OF ok]
    by (auto simp: enable_def disable_def fun_eq_iff mode_append [OF ok] influences_agent_def)
qed

theorem switch_is_a_map_witness:
  "mode (fst (enable ex_hashes ''e1'' 5 ex_scope ''op'' True empty_log)) ex_scope =
     \<lparr>sm_enabled = True, sm_shadow = True\<rparr>"
  using switch_is_a_map [OF empty_log_ok, of ex_hashes "''e1''" 5 ex_scope "''op''" True]
  by (simp add: enable_def)

end
