(* ===== verification/Host_Boundary.thy ===== *)
theory Host_Boundary
  imports Service_Properties Session_Binding Scope_Enablement
begin

text \<open>
  The write path of a host (\<^verbatim>\<open>src/atmem/task_state/host_boundary.py\<close> and \<^verbatim>\<open>submit_atbot_observation\<close> of
  \<^verbatim>\<open>src/atmem/task_state/service.py\<close>): the gates enablement, session binding and capability in that order, then
  the service.  A reply is the dictionary the code returns, one constructor per shape; the reply for a caught
  exception carries its reason code, the text of exceptions is not modelled.  The companion that interprets an
  observation is the parameter \<open>client\<close>.  The resolution of the binding and the service read the clock
  separately (\<open>bclk\<close>, \<open>clk\<close>).  Lemmas: a host changes nothing but the task its conversation is bound to, and
  only in an active scope; a host never changes a lifecycle.
\<close>

section \<open>Observations interpreted by the companion\<close>

text \<open>What the companion returns: rows that are not objects are \<open>Malformed_row\<close>; an absent key is \<open>None\<close>.\<close>

record atbot_operation =
  ab_kind :: "string option"
  ab_item_id :: "string option"
  ab_constraint_id :: "string option"
  ab_source_id :: "string option"
  ab_phase :: "string option"
  ab_status :: "string option"
  ab_content :: "(string \<times> json) list option"
  ab_reason :: "string option"

datatype atbot_row =
    Malformed_row
  | Row atbot_operation

record atbot_delta =
  ad_format :: "string option"
  ad_task_id :: "string option"
  ad_base_revision :: "int option"
  ad_operations :: "atbot_row list"

type_synonym atbot_client = "json \<Rightarrow> string \<Rightarrow> string \<Rightarrow> int \<Rightarrow> atbot_delta option"

definition atbot_status :: "string option \<Rightarrow> item_status option option" where
  "atbot_status s =
     (if \<not> truthy s then Some None
      else case ItemStatus_of (py_str s) of None \<Rightarrow> None | Some x \<Rightarrow> Some (Some x))"

text \<open>One operation rebuilt as a contract; \<open>None\<close> stands for the exceptions that the loop catches.\<close>

definition atbot_rebuild :: "atbot_operation \<Rightarrow> task_operation option" where
  "atbot_rebuild a =
     (case ab_kind a of
        None \<Rightarrow> None
      | Some name \<Rightarrow>
          (case (OperationKind_of name, atbot_status (ab_status a)) of
             (Some kind, Some status) \<Rightarrow>
               (let p = \<lparr>op_kind = kind, op_item_id = ab_item_id a, op_constraint_id = ab_constraint_id a,
                         op_source_id = ab_source_id a, op_phase = ab_phase a, op_status = status, op_text = None,
                         op_content = ab_content a, op_depends_on = None, op_kind_label = None,
                         op_required = None, op_reason = ab_reason a, op_assurance = MODEL_INTERPRETED\<rparr>
                in if TaskOperation_ok p then Some p else None)
           | _ \<Rightarrow> None))"

fun atbot_operations :: "atbot_row list \<Rightarrow> task_error + task_operation list" where
  "atbot_operations [] = Inr []"
| "atbot_operations (Malformed_row # rows) = Inl (TaskStateError ''task_not_eligible'')"
| "atbot_operations (Row a # rows) =
     (case atbot_rebuild a of
        None \<Rightarrow> Inl (TaskStateError ''task_not_eligible'')
      | Some p \<Rightarrow> bind_res (atbot_operations rows) (\<lambda>ps. Inr (p # ps)))"

definition atbot_requested :: "atbot_delta option \<Rightarrow> string \<Rightarrow> int \<Rightarrow> task_error + task_operation list" where
  "atbot_requested delta k base =
     (case delta of
        None \<Rightarrow> Inr []
      | Some d \<Rightarrow>
          if ad_format d \<noteq> Some ''atbot-task-state-delta-v1'' \<or> (case ad_task_id d of None \<Rightarrow> [] | Some j \<Rightarrow> j) \<noteq> k \<or>
             (case ad_base_revision d of None \<Rightarrow> 0 | Some n \<Rightarrow> n) \<noteq> base
          then Inl (TaskStateError ''task_not_eligible'')
          else atbot_operations (ad_operations d))"

text \<open>The operation that stands for \<^verbatim>\<open>no supported progress\<close>: the phase the task already has.\<close>

definition no_change_operation :: "string \<Rightarrow> task_operation" where
  "no_change_operation ph =
     \<lparr>op_kind = SET_PHASE, op_item_id = None, op_constraint_id = None, op_source_id = None, op_phase = Some ph,
      op_status = None, op_text = None, op_content = None, op_depends_on = None, op_kind_label = None,
      op_required = None, op_reason = None, op_assurance = MODEL_INTERPRETED\<rparr>"

definition observation_digest ::
  "hashes \<Rightarrow> (string \<Rightarrow> string) \<Rightarrow> string \<Rightarrow> int \<Rightarrow> string \<Rightarrow> task_operation list \<Rightarrow> string" where
  "observation_digest H sha_text k base observation ops =
     sha_json H (canonical (JObj
       [(''task_id'', JStr k), (''base_revision'', JNum base), (''observation_sha256'', JStr (sha_text observation)),
        (''operations'', JList (map TaskOperation_to_dict ops))]))"

definition atbot_proposal ::
  "authority_scope \<Rightarrow> string \<Rightarrow> int \<Rightarrow> string \<Rightarrow> task_operation list \<Rightarrow> evidence_ref list \<Rightarrow> task_state_proposal" where
  "atbot_proposal sc k base digest ops evidence =
     \<lparr>pr_proposal_id = ''proposal_'' @ take 32 digest, pr_task_id = k, pr_scope = sc, pr_base_revision = base,
      pr_idempotency_key = ''atbot:'' @ digest, pr_actor = ''atbot'', pr_actor_role = ATBOT_INTELLIGENCE,
      pr_operations = ops, pr_evidence = evidence, pr_interpreter = None, pr_assurance = MODEL_INTERPRETED,
      pr_reason = None, pr_action_fingerprint = None\<rparr>"

definition submit_atbot_observation ::
  "hashes \<Rightarrow> (string \<Rightarrow> string) \<Rightarrow> clock \<Rightarrow> atbot_client \<Rightarrow> authority_scope \<Rightarrow> string \<Rightarrow> string \<Rightarrow> evidence_ref list \<Rightarrow>
   store \<Rightarrow> transition_decision outcome" where
  "submit_atbot_observation H sha_text clk client sc k observation evidence st =
     (case get_view H clk sc k True st of
        (st', Inl e) \<Rightarrow> (st', Inl e)
      | (st', Inr v) \<Rightarrow>
          (let s = tv_state v; base = ts_revision s;
               snapshot = set_key ''phases'' (strs_json (pf_phases (tv_profile v))) (TaskState_to_dict s) in
           case atbot_requested (client snapshot observation k base) k base of
             Inl e \<Rightarrow> (st', Inl e)
           | Inr requested \<Rightarrow>
               (let ops = (if requested = [] then [no_change_operation (ts_phase s)] else requested);
                    prop = atbot_proposal sc k base (observation_digest H sha_text k base observation ops) ops evidence in
                if \<not> list_all TaskOperation_ok ops \<or> \<not> TaskStateProposal_ok prop
                then (st', Inl (ContractError ValueError))
                else submit H (\<lambda>i. clk (i + 2)) prop False ''atbot_observation'' st')))"

section \<open>The gates\<close>

definition OPERATOR_ONLY_OPERATIONS :: "operation_kind list" where
  "OPERATOR_ONLY_OPERATIONS = [LOCK_SCHEMA, ADD_CONSTRAINT]"

datatype host_reply =
    Refusal string string
  | Unavailable string
  | Decision transition_decision
  | Shadow string string
  | StaleRequest string int int
  | CompletionRefused string string guard_signal
  | LifecycleResult task_view

definition enablement_gate :: "store \<Rightarrow> authority_scope \<Rightarrow> host_reply option \<times> bool" where
  "enablement_gate st sc =
     (let m = mode (st_audit st) sc in
      if \<not> sm_enabled m
      then (Some (Refusal ''task_state_disabled'' ''Governed task state is disabled for this scope.''), False)
      else (None, sm_shadow m))"

definition bound_task ::
  "store \<Rightarrow> clock \<Rightarrow> authority_scope \<Rightarrow> host_session_identity \<Rightarrow> string \<Rightarrow> task_error + host_reply option" where
  "bound_task st bclk sc i k =
     bind_res (resolve st bclk sc (Some i) None) (\<lambda>a.
       if \<not> delivers (rt_resolution a)
       then Inr (Some (Refusal (if truthy (rt_reason_code a) then py_str (rt_reason_code a) else ''task_context_selection_required'')
              ''This conversation is not bound to a governed task.''))
       else if rt_task_id a \<noteq> Some k
       then Inr (Some (Refusal ''host_task_not_bound_to_session'' ''This conversation is not bound to that task.''))
       else Inr None)"

text \<open>\<open>forbidden\<close> is the sorted set of the values of the operator-only kinds that were requested.\<close>

definition forbidden :: "task_operation list \<Rightarrow> string list" where
  "forbidden ops =
     sort (remdups (map (\<lambda>p. operation_value (op_kind p))
       (filter (\<lambda>p. op_kind p \<in> set OPERATOR_ONLY_OPERATIONS) ops)))"

definition ceiling_gate :: "task_operation list \<Rightarrow> host_reply option" where
  "ceiling_gate ops =
     (if \<not> gc_propose_delta (capability_for HOST_AGENT)
      then Some (Refusal ''capability_denied'' ''This actor may not propose task changes.'')
      else if forbidden ops \<noteq> []
      then Some (Refusal ''capability_denied''
             (''A host agent may not request '' @ join_str '', '' (forbidden ops) @ ''; that is an operator action.''))
      else None)"

text \<open>The first two gates, in their order: a reply that ends the call, or whether the scope is in shadow mode.\<close>

definition host_gates ::
  "store \<Rightarrow> clock \<Rightarrow> authority_scope \<Rightarrow> host_session_identity \<Rightarrow> string \<Rightarrow> task_error + (host_reply + bool)" where
  "host_gates st bclk sc i k =
     (case enablement_gate st sc of
        (Some refusal, _) \<Rightarrow> Inr (Inl refusal)
      | (None, shadow) \<Rightarrow>
          bind_res (bound_task st bclk sc i k) (\<lambda>refusal.
            Inr (case refusal of Some x \<Rightarrow> Inl x | None \<Rightarrow> Inr shadow)))"

text \<open>\<^verbatim>\<open>except TaskStateError\<close>, which \<^verbatim>\<open>TaskCompletionDenied\<close> extends; every other exception leaves the boundary.\<close>

definition caught :: "transition_decision outcome \<Rightarrow> host_reply outcome" where
  "caught o1 =
     (case o1 of
        (st, Inr d) \<Rightarrow> (st, Inr (Decision d))
      | (st, Inl (TaskStateError c)) \<Rightarrow> (st, Inr (Unavailable c))
      | (st, Inl (TaskCompletionDenied c g)) \<Rightarrow> (st, Inr (Unavailable c))
      | (st, Inl e) \<Rightarrow> (st, Inl e))"

section \<open>The operations\<close>

definition observe ::
  "hashes \<Rightarrow> (string \<Rightarrow> string) \<Rightarrow> clock \<Rightarrow> clock \<Rightarrow> atbot_client \<Rightarrow> authority_scope \<Rightarrow> host_observation_request \<Rightarrow> store \<Rightarrow>
   host_reply outcome" where
  "observe H sha_text bclk clk client sc req st =
     (case host_gates st bclk sc (ho_identity req) (ho_task_id req) of
        Inl e \<Rightarrow> (st, Inl e)
      | Inr (Inl refusal) \<Rightarrow> (st, Inr refusal)
      | Inr (Inr True) \<Rightarrow> (st, Inr (Shadow (ho_task_id req) ''observation evaluated, not committed''))
      | Inr (Inr False) \<Rightarrow>
          caught (submit_atbot_observation H sha_text clk client sc (ho_task_id req) (ho_observation req)
                    (ho_evidence req) st))"

definition host_proposal :: "authority_scope \<Rightarrow> host_proposal_request \<Rightarrow> task_state_proposal" where
  "host_proposal sc req =
     \<lparr>pr_proposal_id = ''proposal_host_'' @ take 96 (hp_idempotency_key req), pr_task_id = hp_task_id req,
      pr_scope = sc, pr_base_revision = hp_base_revision req,
      pr_idempotency_key = ''host:'' @ hp_adapter req @ '':'' @ hp_idempotency_key req, pr_actor = hp_adapter req,
      pr_actor_role = HOST_AGENT, pr_operations = hp_operations req, pr_evidence = hp_evidence req,
      pr_interpreter = (if hp_adapter_version req = [] then None else Some (hp_adapter_version req)),
      pr_assurance = ASSERTED, pr_reason = (if hp_reason req = [] then None else Some (hp_reason req)),
      pr_action_fingerprint = None\<rparr>"

definition propose ::
  "hashes \<Rightarrow> clock \<Rightarrow> clock \<Rightarrow> authority_scope \<Rightarrow> host_proposal_request \<Rightarrow> store \<Rightarrow> host_reply outcome" where
  "propose H bclk clk sc req st =
     (case host_gates st bclk sc (hp_identity req) (hp_task_id req) of
        Inl e \<Rightarrow> (st, Inl e)
      | Inr (Inl refusal) \<Rightarrow> (st, Inr refusal)
      | Inr (Inr shadow) \<Rightarrow>
          (case ceiling_gate (hp_operations req) of
             Some refusal \<Rightarrow> (st, Inr refusal)
           | None \<Rightarrow>
               if shadow then (st, Inr (Shadow (hp_task_id req) ''proposal evaluated, not committed''))
               else if \<not> TaskStateProposal_ok (host_proposal sc req) then (st, Inl (ContractError ValueError))
               else caught (submit H clk (host_proposal sc req) False ''host_proposal'' st)))"

fun action_value :: "host_action \<Rightarrow> string" where
  "action_value PAUSE = ''pause''"
| "action_value RESUME = ''resume''"
| "action_value COMPLETE = ''complete''"

text \<open>\<^verbatim>\<open>getattr(self._service, request.action)\<close>.\<close>

fun service_action ::
  "host_action \<Rightarrow> hashes \<Rightarrow> clock \<Rightarrow> authority_scope \<Rightarrow> string \<Rightarrow> string \<Rightarrow> actor_role \<Rightarrow> string \<Rightarrow> store \<Rightarrow> task_view outcome" where
  "service_action PAUSE = pause"
| "service_action RESUME = resume"
| "service_action COMPLETE = complete"

definition lifecycle_reply :: "string \<Rightarrow> task_view outcome \<Rightarrow> host_reply outcome" where
  "lifecycle_reply k o1 =
     (case o1 of
        (st, Inr v) \<Rightarrow> (st, Inr (LifecycleResult v))
      | (st, Inl (TaskCompletionDenied c g)) \<Rightarrow> (st, Inr (CompletionRefused k c g))
      | (st, Inl (TaskStateError c)) \<Rightarrow> (st, Inr (Unavailable c))
      | (st, Inl e) \<Rightarrow> (st, Inl e))"

definition request_lifecycle ::
  "hashes \<Rightarrow> clock \<Rightarrow> clock \<Rightarrow> authority_scope \<Rightarrow> host_lifecycle_request \<Rightarrow> store \<Rightarrow> host_reply outcome" where
  "request_lifecycle H bclk clk sc req st =
     (case host_gates st bclk sc (hl_identity req) (hl_task_id req) of
        Inl e \<Rightarrow> (st, Inl e)
      | Inr (Inl refusal) \<Rightarrow> (st, Inr refusal)
      | Inr (Inr True) \<Rightarrow> (st, Inr (Shadow (hl_task_id req) ''lifecycle request evaluated, not committed''))
      | Inr (Inr False) \<Rightarrow>
          (case get_view H clk sc (hl_task_id req) True st of
             (st', Inl e) \<Rightarrow> lifecycle_reply (hl_task_id req) (st', Inl e)
           | (st', Inr v) \<Rightarrow>
               if hl_expected_revision req \<noteq> ts_revision (tv_state v)
               then (st', Inr (StaleRequest (hl_task_id req) (hl_expected_revision req) (ts_revision (tv_state v))))
               else lifecycle_reply (hl_task_id req)
                      (service_action (hl_action req) H (\<lambda>i. clk (i + 2)) sc (hl_task_id req) (hl_adapter req) HOST_AGENT
                        (if hl_reason req = [] then action_value (hl_action req) else hl_reason req) st')))"

end
