(* ===== verification/Text_Escape.thy ===== *)
theory Text_Escape
  imports "HOL-Library.Sublist" Task_Prelude
begin

text \<open>
  \<^verbatim>\<open>escape\<close> of \<^verbatim>\<open>src/atmem/task_state/context.py\<close> on lists of Unicode code points, with the regular expressions it
  uses.  Lemmas: the escaped text matches the fence pattern nowhere and has no line break.
\<close>

section \<open>The operation\<close>

type_synonym utext = "nat list"

definition cps :: "string \<Rightarrow> utext" where
  "cps s = map of_char s"

text \<open>\<^verbatim>\<open>str.isspace\<close> of one code point, which is also \<^verbatim>\<open>\s\<close> of \<^verbatim>\<open>re\<close>.\<close>

definition uni_space :: "nat \<Rightarrow> bool" where
  "uni_space c \<longleftrightarrow>
     9 \<le> c \<and> c \<le> 13 \<or> 28 \<le> c \<and> c \<le> 32 \<or> c = 133 \<or> c = 160 \<or> c = 5760 \<or> 8192 \<le> c \<and> c \<le> 8202 \<or>
     c \<in> {8232, 8233, 8239, 8287, 12288}"

definition is_control :: "nat \<Rightarrow> bool" where
  "is_control c \<longleftrightarrow> c \<le> 8 \<or> c = 11 \<or> c = 12 \<or> 14 \<le> c \<and> c \<le> 31 \<or> c = 127"

definition lower :: "nat \<Rightarrow> nat" where
  "lower c = (if 65 \<le> c \<and> c \<le> 90 then c + 32 else c)"

definition starts :: "utext \<Rightarrow> utext \<Rightarrow> bool" where
  "starts w xs \<longleftrightarrow> map lower (take (length w) xs) = w"

definition skip_slash :: "utext \<Rightarrow> utext" where
  "skip_slash xs = (case xs of [] \<Rightarrow> [] | c # cs \<Rightarrow> if c = 47 then cs else xs)"

text \<open>
  \<open>fence_match\<close> is the match of \<^verbatim>\<open><<<\s*/?\s*(?:atmem|end)[^>]*>>>\<close> at the head of a text: what follows the match.
  The pattern has one way to match: after the blanks and the slash comes a letter, and \<^verbatim>\<open>[^>]*\<close> ends at the first
  \<^verbatim>\<open>>\<close>.
\<close>

definition ATMEM :: utext where
  "ATMEM = cps ''atmem''"

definition END :: utext where
  "END = cps ''end''"

definition LT3 :: utext where
  "LT3 = [60, 60, 60]"

definition GT3 :: utext where
  "GT3 = [62, 62, 62]"

definition fence_match :: "utext \<Rightarrow> utext option" where
  "fence_match xs =
     (if take 3 xs \<noteq> LT3 then None
      else
        let r = dropWhile uni_space (skip_slash (dropWhile uni_space (drop 3 xs)));
            after = (if starts ATMEM r then Some (drop 5 r) else if starts END r then Some (drop 3 r) else None)
        in case after of
             None \<Rightarrow> None
           | Some s \<Rightarrow>
               (let u = dropWhile (\<lambda>c. c \<noteq> 62) s in if take 3 u = GT3 then Some (drop 3 u) else None))"

text \<open>The texts that the pattern matches.\<close>

definition fence_text :: "utext \<Rightarrow> bool" where
  "fence_text m \<longleftrightarrow>
     (\<exists>sp1 sl sp2 w body. m = LT3 @ sp1 @ sl @ sp2 @ w @ body @ GT3 \<and> list_all uni_space sp1 \<and> list_all uni_space sp2 \<and>
        sl \<in> {[], [47]} \<and> map lower w \<in> {ATMEM, END} \<and> 62 \<notin> set body)"

lemma fence_text_parts:
  "list_all uni_space sp1 \<Longrightarrow> list_all uni_space sp2 \<Longrightarrow> sl \<in> {[], [47]} \<Longrightarrow> map lower w \<in> {ATMEM, END} \<Longrightarrow>
     62 \<notin> set body \<Longrightarrow> fence_text (LT3 @ sp1 @ sl @ sp2 @ w @ body @ GT3)"
  unfolding fence_text_def by blast

lemma skip_slash_split: "\<exists>sl. xs = sl @ skip_slash xs \<and> sl \<in> {[], [47]}"
  by (auto simp: skip_slash_def split: list.splits)

lemma starts_split: "starts w xs \<Longrightarrow> \<exists>v. xs = v @ drop (length w) xs \<and> map lower v = w"
  unfolding starts_def by (metis append_take_drop_id)

lemma dropWhile_split: "\<exists>ys. xs = ys @ dropWhile P xs \<and> list_all P ys"
  by (metis takeWhile_dropWhile_id list_all_iff set_takeWhileD)

lemma fence_match_SomeD:
  assumes "fence_match xs = Some rest"
  obtains m where "fence_text m" "xs = m @ rest"
proof -
  let ?r = "dropWhile uni_space (skip_slash (dropWhile uni_space (drop 3 xs)))"
  have xs: "xs = LT3 @ drop 3 xs" using assms by (metis append_take_drop_id fence_match_def option.distinct(1))
  obtain sp1 where 1: "drop 3 xs = sp1 @ dropWhile uni_space (drop 3 xs)" "list_all uni_space sp1"
    using dropWhile_split by blast
  obtain sl where 2: "dropWhile uni_space (drop 3 xs) = sl @ skip_slash (dropWhile uni_space (drop 3 xs))" "sl \<in> {[], [47]}"
    using skip_slash_split by blast
  obtain sp2 where 3: "skip_slash (dropWhile uni_space (drop 3 xs)) = sp2 @ ?r" "list_all uni_space sp2"
    using dropWhile_split by blast
  obtain s where s: "starts ATMEM ?r \<and> s = drop 5 ?r \<or> starts END ?r \<and> s = drop 3 ?r"
      "take 3 (dropWhile (\<lambda>c. c \<noteq> 62) s) = GT3" "rest = drop 3 (dropWhile (\<lambda>c. c \<noteq> 62) s)"
    using assms by (auto simp: fence_match_def Let_def split: if_splits option.splits)
  have "length ATMEM = 5" "length END = 3" by (simp_all add: ATMEM_def END_def cps_def)
  then obtain w where w: "?r = w @ s" "map lower w \<in> {ATMEM, END}" using s(1) starts_split [of _ ?r] by (metis insertCI)
  obtain body where b: "s = body @ dropWhile (\<lambda>c. c \<noteq> 62) s" "list_all (\<lambda>c. c \<noteq> 62) body" using dropWhile_split by blast
  have "dropWhile (\<lambda>c. c \<noteq> 62) s = GT3 @ rest" using s(2,3) by (metis append_take_drop_id)
  then have "xs = (LT3 @ sp1 @ sl @ sp2 @ w @ body @ GT3) @ rest" using xs 1(1) 2(1) 3(1) w(1) b(1) by (metis append.assoc)
  moreover have "fence_text (LT3 @ sp1 @ sl @ sp2 @ w @ body @ GT3)"
    using 1(2) 2(2) 3(2) w(2) b(2) unfolding fence_text_def list_all_iff by blast
  ultimately show thesis using that by blast
qed

lemma fence_match_shorter: "fence_match xs = Some rest \<Longrightarrow> length rest < length xs"
  by (erule fence_match_SomeD) (auto simp: fence_text_def LT3_def)

lemma dropWhile_spaces: "list_all P ys \<Longrightarrow> (zs \<noteq> [] \<Longrightarrow> \<not> P (hd zs)) \<Longrightarrow> dropWhile P (ys @ zs) = zs"
  by (induction ys) (auto simp: dropWhile_eq_self_iff)

lemma word_head:
  assumes "map lower w \<in> {ATMEM, END}"
  obtains c cs where "w = c # cs" "\<not> uni_space c" "c \<noteq> 47" "62 \<notin> set w" "91 \<notin> set w"
    "\<forall>x\<in>set w. \<not> uni_space x"
proof -
  have letter: "97 \<le> lower x \<and> lower x \<le> 122 \<Longrightarrow> \<not> uni_space x \<and> x \<noteq> 47 \<and> x \<noteq> 62 \<and> x \<noteq> 91" for x
    by (auto simp: lower_def uni_space_def split: if_splits)
  have "\<forall>x\<in>set w. 97 \<le> lower x \<and> lower x \<le> 122"
  proof
    fix x assume "x \<in> set w"
    then have "lower x \<in> set (map lower w)" by simp
    then show "97 \<le> lower x \<and> lower x \<le> 122" using assms by (auto simp: ATMEM_def END_def cps_def)
  qed
  moreover have "w \<noteq> []" using assms by (auto simp: ATMEM_def END_def cps_def)
  ultimately show thesis using letter that by (cases w) auto
qed

lemma fence_textI:
  assumes "fence_text m"
  shows "fence_match (m @ rest) = Some rest"
proof -
  obtain sp1 sl sp2 w body where m: "m = LT3 @ sp1 @ sl @ sp2 @ w @ body @ GT3" "list_all uni_space sp1" "list_all uni_space sp2"
    "sl \<in> {[], [47]}" and w: "map lower w \<in> {ATMEM, END}" and body: "62 \<notin> set body"
    using assms unfolding fence_text_def by blast
  obtain c cs where c: "w = c # cs" "\<not> uni_space c" "c \<noteq> 47" using w by (rule word_head)
  let ?tail = "w @ body @ GT3 @ rest"
  have "dropWhile uni_space (skip_slash (dropWhile uni_space (sp1 @ sl @ sp2 @ ?tail))) = ?tail"
  proof (cases "sl = []")
    case True
    then have "dropWhile uni_space (sp1 @ sl @ sp2 @ ?tail) = ?tail"
      using dropWhile_spaces [of uni_space "sp1 @ sp2" ?tail] m(2,3) c by simp
    then show ?thesis using c by (simp add: skip_slash_def)
  next
    case False
    then have "sl = [47]" using m(4) by simp
    then have "dropWhile uni_space (sp1 @ sl @ sp2 @ ?tail) = 47 # sp2 @ ?tail"
      using dropWhile_spaces [of uni_space sp1 "47 # sp2 @ ?tail"] m(2) by (simp add: uni_space_def)
    then show ?thesis using dropWhile_spaces [of uni_space sp2 ?tail] m(3) c by (simp add: skip_slash_def)
  qed
  moreover have "dropWhile (\<lambda>c. c \<noteq> 62) (body @ GT3 @ rest) = GT3 @ rest"
  proof (rule dropWhile_spaces)
    show "list_all (\<lambda>c. c \<noteq> 62) body" using body by (auto simp: list_all_iff)
  qed (simp add: GT3_def)
  moreover have "map lower w = ATMEM \<and> length w = 5 \<and> starts ATMEM ?tail \<or>
      map lower w = END \<and> length w = 3 \<and> starts END ?tail \<and> \<not> starts ATMEM ?tail"
  proof -
    have len: "length ATMEM = 5" "length END = 3" by (simp_all add: ATMEM_def END_def cps_def)
    consider "map lower w = ATMEM" | "map lower w = END" using w by blast
    then show ?thesis
    proof cases
      case 1
      moreover have "length w = 5" using 1 len by (metis length_map)
      ultimately show ?thesis using len by (simp add: starts_def)
    next
      case 2
      then have "lower c = 101" using c by (simp add: END_def cps_def)
      moreover have "length w = 3" using 2 len by (metis length_map)
      ultimately show ?thesis using 2 len c by (auto simp: starts_def ATMEM_def cps_def)
    qed
  qed
  ultimately show ?thesis
    unfolding m(1) by (auto simp: fence_match_def Let_def LT3_def GT3_def)
qed

definition ESCAPED :: utext where
  "ESCAPED = cps ''[escaped-delimiter]''"

text \<open>\<^verbatim>\<open>_FENCE_LIKE.sub\<close>: replace from left to right, continuing after each match.\<close>

function defang :: "utext \<Rightarrow> utext" where
  "defang [] = []"
| "defang (c # cs) = (case fence_match (c # cs) of Some rest \<Rightarrow> ESCAPED @ defang rest | None \<Rightarrow> c # defang cs)"
  by pat_completeness auto
termination
  by (relation "measure length") (auto dest: fence_match_shorter)

text \<open>The three replacements of line ends, in their order: \<^verbatim>\<open>CR LF\<close> first, then each alone.\<close>

fun flatten :: "utext \<Rightarrow> utext" where
  "flatten [] = []"
| "flatten [c] = [if c = 10 \<or> c = 13 then 32 else c]"
| "flatten (c # d # cs) =
     (if c = 13 \<and> d = 10 then 32 # flatten cs else (if c = 10 \<or> c = 13 then 32 else c) # flatten (d # cs))"

text \<open>\<^verbatim>\<open>text.split()\<close>.\<close>

function py_split :: "utext \<Rightarrow> utext list" where
  "py_split xs =
     (let ys = dropWhile uni_space xs in
      if ys = [] then [] else takeWhile (\<lambda>c. \<not> uni_space c) ys # py_split (dropWhile (\<lambda>c. \<not> uni_space c) ys))"
  by pat_completeness auto
termination
proof (relation "measure length")
  fix xs ys :: utext
  assume ys: "ys = dropWhile uni_space xs" "ys \<noteq> []"
  then obtain c cs where c: "ys = c # cs" "\<not> uni_space c" by (metis list.collapse hd_dropWhile)
  then have "length (dropWhile (\<lambda>c. \<not> uni_space c) ys) < length ys" by (simp add: le_imp_less_Suc length_dropWhile_le)
  moreover have "length ys \<le> length xs" using ys(1) by (simp add: length_dropWhile_le)
  ultimately show "(dropWhile (\<lambda>c. \<not> uni_space c) ys, xs) \<in> measure length" by simp
qed simp

declare py_split.simps [simp del]

fun join_text :: "utext \<Rightarrow> utext list \<Rightarrow> utext" where
  "join_text sep [] = []"
| "join_text sep [x] = x"
| "join_text sep (x # y # ys) = x @ sep @ join_text sep (y # ys)"

definition escape :: "nat \<Rightarrow> utext \<Rightarrow> utext" where
  "escape limit value =
     (let t = join_text [32] (py_split (flatten (defang (filter (\<lambda>c. \<not> is_control c) value))))
      in if limit < length t then take (limit - 1) t @ [8230] else t)"

section \<open>No fence survives the replacement\<close>

definition has_fence :: "utext \<Rightarrow> bool" where
  "has_fence xs \<longleftrightarrow> (\<exists>m. fence_text m \<and> sublist m xs)"

lemma fence_head: "fence_text m \<Longrightarrow> \<exists>ys. m = 60 # ys"
  by (auto simp: fence_text_def LT3_def)

lemma has_fence_Nil [simp]: "\<not> has_fence []"
  by (auto simp: has_fence_def dest: fence_head)

lemma has_fence_Cons: "has_fence (c # cs) \<longleftrightarrow> fence_match (c # cs) \<noteq> None \<or> has_fence cs"
proof
  assume "has_fence (c # cs)"
  then obtain m where m: "fence_text m" "sublist m (c # cs)" by (auto simp: has_fence_def)
  then show "fence_match (c # cs) \<noteq> None \<or> has_fence cs"
    using fence_textI by (auto simp: sublist_Cons_right has_fence_def elim!: prefixE)
next
  assume "fence_match (c # cs) \<noteq> None \<or> has_fence cs"
  then show "has_fence (c # cs)"
    by (auto simp: has_fence_def sublist_Cons_right elim!: fence_match_SomeD)
qed

lemma has_fence_sublist: "has_fence xs \<Longrightarrow> sublist xs ys \<Longrightarrow> has_fence ys"
  unfolding has_fence_def using sublist_order.order_trans by blast

lemma fence_match_head: "c \<noteq> 60 \<Longrightarrow> fence_match (c # cs) = None"
  by (simp add: fence_match_def LT3_def)

lemma has_fence_ESCAPED: "has_fence (ESCAPED @ xs) \<longleftrightarrow> has_fence xs"
  by (simp add: ESCAPED_def cps_def has_fence_Cons fence_match_head)

text \<open>A part of the result without the bracket of a replacement is a part of the input.\<close>

lemma defang_Cons:
  assumes "defang xs = c # ys" and "c \<noteq> 91"
  shows "\<exists>xs'. xs = c # xs' \<and> ys = defang xs'"
  using assms by (cases xs) (auto split: option.splits simp: ESCAPED_def cps_def)

lemma defang_append:
  "defang xs = h @ ys \<Longrightarrow> 91 \<notin> set h \<Longrightarrow> \<exists>xs'. xs = h @ xs' \<and> ys = defang xs'"
proof (induction h arbitrary: xs)
  case (Cons c h)
  from Cons.prems obtain zs where "xs = c # zs" "h @ ys = defang zs" using defang_Cons by fastforce
  then show ?case using Cons by fastforce
qed simp

lemma defang_close:
  "defang xs = body @ GT3 @ rest \<Longrightarrow> 62 \<notin> set body \<Longrightarrow> \<exists>body' rest'. xs = body' @ GT3 @ rest' \<and> 62 \<notin> set body'"
proof (induction xs arbitrary: body rule: defang.induct)
  case 1
  then show ?case by (simp add: GT3_def)
next
  case (2 c cs)
  show ?case
  proof (cases "fence_match (c # cs)")
    case (Some r)
    then obtain m where m: "fence_text m" "c # cs = m @ r" by (rule fence_match_SomeD)
    then obtain sp1 sl sp2 w b where parts: "m = LT3 @ sp1 @ sl @ sp2 @ w @ b @ GT3" "62 \<notin> set b"
      "list_all uni_space sp1" "list_all uni_space sp2" "sl \<in> {[], [47]}" and w: "map lower w \<in> {ATMEM, END}"
      unfolding fence_text_def by blast
    have "62 \<notin> set w" using w by (rule word_head)
    then have "62 \<notin> set (LT3 @ sp1 @ sl @ sp2 @ w @ b)"
      using parts(2-5) by (auto simp: LT3_def list_all_iff uni_space_def)
    moreover have "c # cs = (LT3 @ sp1 @ sl @ sp2 @ w @ b) @ GT3 @ r" using m(2) parts(1) by simp
    ultimately show ?thesis by blast
  next
    case None
    then have d: "c # defang cs = body @ GT3 @ rest" using 2(3) by simp
    show ?thesis
    proof (cases body)
      case Nil
      then have "c = 62" "defang cs = [62, 62] @ rest" using d by (simp_all add: GT3_def)
      then obtain zs where "cs = [62, 62] @ zs" using defang_append [of cs "[62, 62]" rest] by auto
      then have "c # cs = [] @ GT3 @ zs" using \<open>c = 62\<close> by (simp add: GT3_def)
      then show ?thesis by (metis empty_iff empty_set)
    next
      case (Cons x b)
      then have "x = c" "defang cs = b @ GT3 @ rest" "62 \<notin> set b" "c \<noteq> 62" using d 2(4) by auto
      then obtain b' r' where "cs = b' @ GT3 @ r'" "62 \<notin> set b'" using 2(1) [OF None] by blast
      then have "c # cs = (c # b') @ GT3 @ r'" "62 \<notin> set (c # b')" using \<open>c \<noteq> 62\<close> by auto
      then show ?thesis by blast
    qed
  qed
qed

lemma defang_no_fence: "\<not> has_fence (defang xs)"
proof (induction xs rule: defang.induct)
  case (2 c cs)
  show ?case
  proof (cases "fence_match (c # cs)")
    case None
    have "fence_match (c # defang cs) = None"
    proof (rule ccontr)
      assume "fence_match (c # defang cs) \<noteq> None"
      then obtain m r where m: "fence_text m" "c # defang cs = m @ r" by (auto elim: fence_match_SomeD)
      then obtain sp1 sl sp2 w body where parts: "m = LT3 @ sp1 @ sl @ sp2 @ w @ body @ GT3" "62 \<notin> set body"
        "list_all uni_space sp1" "list_all uni_space sp2" "sl \<in> {[], [47]}" and w: "map lower w \<in> {ATMEM, END}"
        unfolding fence_text_def by blast
      have "91 \<notin> set w" using w by (rule word_head)
      then have "91 \<notin> set ([60, 60] @ sp1 @ sl @ sp2 @ w)" using parts by (auto simp: list_all_iff uni_space_def)
      moreover have "defang cs = ([60, 60] @ sp1 @ sl @ sp2 @ w) @ body @ GT3 @ r" and "c = 60"
        using m(2) parts(1) by (simp_all add: LT3_def)
      ultimately obtain cs' where cs': "cs = ([60, 60] @ sp1 @ sl @ sp2 @ w) @ cs'" "defang cs' = body @ GT3 @ r"
        using defang_append by metis
      obtain body' r' where b: "cs' = body' @ GT3 @ r'" "62 \<notin> set body'" using defang_close [OF cs'(2) parts(2)] by blast
      have "fence_text (LT3 @ sp1 @ sl @ sp2 @ w @ body' @ GT3)" using parts w b(2) unfolding fence_text_def by blast
      moreover have "c # cs = (LT3 @ sp1 @ sl @ sp2 @ w @ body' @ GT3) @ r'"
        using cs'(1) b(1) \<open>c = 60\<close> by (simp add: LT3_def)
      ultimately show False using None fence_textI by (metis option.distinct(1))
    qed
    then show ?thesis using 2(1) [OF None] None by (simp add: has_fence_Cons)
  next
    case (Some r)
    then show ?thesis using 2(2) [OF Some] Some by (simp add: has_fence_ESCAPED)
  qed
qed simp

section \<open>White space and truncation bring no fence back\<close>

text \<open>Every run of white space as one blank: \<^verbatim>\<open>split\<close> and \<^verbatim>\<open>join\<close> without the blanks at both ends.\<close>

function squeeze :: "utext \<Rightarrow> utext" where
  "squeeze [] = []"
| "squeeze (c # cs) = (if uni_space c then 32 # squeeze (dropWhile uni_space cs) else c # squeeze cs)"
  by pat_completeness auto
termination
  by (relation "measure length") (auto simp: le_imp_less_Suc length_dropWhile_le)

lemma space_32: "uni_space 32"
  by (simp add: uni_space_def)

lemma squeeze_append:
  "squeeze xs = h @ ys \<Longrightarrow> \<exists>h' xs'. xs = h' @ xs' \<and> squeeze xs' = ys \<and> filter (\<lambda>c. \<not> uni_space c) h' = filter (\<lambda>c. \<not> uni_space c) h \<and>
     (list_all uni_space h \<longrightarrow> list_all uni_space h') \<and> ((\<forall>c\<in>set h. \<not> uni_space c) \<longrightarrow> h' = h)"
proof (induction xs arbitrary: h rule: squeeze.induct)
  case 1
  then show ?case by simp
next
  case (2 c cs)
  show ?case
  proof (cases h)
    case Nil
    then show ?thesis using 2(3) by (intro exI [of _ "[]"] exI [of _ "c # cs"]) auto
  next
    case (Cons x g)
    show ?thesis
    proof (cases "uni_space c")
      case True
      then have g: "x = 32" "squeeze (dropWhile uni_space cs) = g @ ys" using 2(3) Cons by simp_all
      obtain s where s: "cs = s @ dropWhile uni_space cs" "list_all uni_space s" using dropWhile_split by blast
      obtain g' xs' where g': "dropWhile uni_space cs = g' @ xs'" "squeeze xs' = ys"
        "filter (\<lambda>c. \<not> uni_space c) g' = filter (\<lambda>c. \<not> uni_space c) g" "list_all uni_space g \<longrightarrow> list_all uni_space g'"
        using 2(1) [OF True g(2)] by blast
      have "filter (\<lambda>c. \<not> uni_space c) s = []" using s(2) by (simp add: filter_empty_conv list_all_iff)
      then show ?thesis
        using True g(1) s g' Cons space_32 by (intro exI [of _ "c # s @ g'"] exI [of _ xs']) auto
    next
      case False
      then have "x = c" "squeeze cs = g @ ys" using 2(3) Cons by simp_all
      then obtain g' xs' where g': "cs = g' @ xs'" "squeeze xs' = ys"
        "filter (\<lambda>c. \<not> uni_space c) g' = filter (\<lambda>c. \<not> uni_space c) g" "(\<forall>c\<in>set g. \<not> uni_space c) \<longrightarrow> g' = g"
        using 2(2) [OF False, of g] by blast
      then show ?thesis using False Cons \<open>x = c\<close> by (intro exI [of _ "c # g'"] exI [of _ xs']) simp
    qed
  qed
qed

lemma squeeze_parts:
  assumes "squeeze xs = (LT3 @ sp1 @ sl @ sp2 @ w @ body @ GT3) @ r" and "list_all uni_space sp1" "list_all uni_space sp2"
    "sl \<in> {[], [47]}" "\<forall>x\<in>set w. \<not> uni_space x" "62 \<notin> set body"
  obtains sp1' sp2' body' r' where "xs = (LT3 @ sp1' @ sl @ sp2' @ w @ body' @ GT3) @ r'"
    "list_all uni_space sp1'" "list_all uni_space sp2'" "62 \<notin> set body'"
proof -
  have ns: "\<forall>c\<in>set LT3. \<not> uni_space c" "\<forall>c\<in>set sl. \<not> uni_space c" "\<forall>c\<in>set GT3. \<not> uni_space c"
    using assms(4) by (auto simp: uni_space_def GT3_def LT3_def)
  have "squeeze xs = LT3 @ sp1 @ sl @ sp2 @ w @ body @ GT3 @ r" using assms(1) by simp
  from squeeze_append [OF this] ns obtain x1 where 1: "xs = LT3 @ x1" "squeeze x1 = sp1 @ sl @ sp2 @ w @ body @ GT3 @ r" by blast
  from squeeze_append [OF 1(2)] assms(2) obtain s1 x2 where 2: "x1 = s1 @ x2" "squeeze x2 = sl @ sp2 @ w @ body @ GT3 @ r"
    "list_all uni_space s1" by blast
  from squeeze_append [OF 2(2)] ns obtain x3 where 3: "x2 = sl @ x3" "squeeze x3 = sp2 @ w @ body @ GT3 @ r" by blast
  from squeeze_append [OF 3(2)] assms(3) obtain s2 x4 where 4: "x3 = s2 @ x4" "squeeze x4 = w @ body @ GT3 @ r"
    "list_all uni_space s2" by blast
  from squeeze_append [OF 4(2)] assms(5) obtain x5 where 5: "x4 = w @ x5" "squeeze x5 = body @ GT3 @ r" by blast
  from squeeze_append [OF 5(2)] obtain b x6 where 6: "x5 = b @ x6" "squeeze x6 = GT3 @ r"
    "filter (\<lambda>c. \<not> uni_space c) b = filter (\<lambda>c. \<not> uni_space c) body" by blast
  from squeeze_append [OF 6(2)] ns obtain r' where 7: "x6 = GT3 @ r'" by blast
  have "62 \<notin> set b"
  proof
    assume "62 \<in> set b"
    then have "62 \<in> set (filter (\<lambda>c. \<not> uni_space c) b)" by (simp add: uni_space_def)
    then show False using 6(3) assms(6) by simp
  qed
  then show thesis using that [of s1 s2 b r'] 1(1) 2(1,3) 3(1) 4(1,3) 5(1) 6(1) 7 by simp
qed

lemma squeeze_suffix: "squeeze xs = ys @ zs \<Longrightarrow> \<exists>xs'. suffix xs' xs \<and> squeeze xs' = zs"
  using squeeze_append [of xs ys zs] by (auto simp: suffix_def)

lemma squeeze_fence: "has_fence (squeeze xs) \<Longrightarrow> has_fence xs"
proof -
  assume "has_fence (squeeze xs)"
  then obtain m ys zs where m: "fence_text m" "squeeze xs = ys @ m @ zs" by (auto simp: has_fence_def sublist_def)
  then obtain xs' where xs': "suffix xs' xs" "squeeze xs' = m @ zs" using squeeze_suffix by blast
  obtain sp1 sl sp2 w body where parts: "m = LT3 @ sp1 @ sl @ sp2 @ w @ body @ GT3" "62 \<notin> set body"
    "list_all uni_space sp1" "list_all uni_space sp2" "sl \<in> {[], [47]}" and w: "map lower w \<in> {ATMEM, END}"
    using m(1) unfolding fence_text_def by blast
  have "\<forall>x\<in>set w. \<not> uni_space x" using w by (rule word_head)
  moreover have "squeeze xs' = (LT3 @ sp1 @ sl @ sp2 @ w @ body @ GT3) @ zs" using xs'(2) parts(1) by simp
  ultimately obtain sp1' sp2' body' r' where "xs' = (LT3 @ sp1' @ sl @ sp2' @ w @ body' @ GT3) @ r'"
    "list_all uni_space sp1'" "list_all uni_space sp2'" "62 \<notin> set body'"
    using squeeze_parts [OF _ parts(3,4,5) _ parts(2)] by blast
  then have "sublist (LT3 @ sp1' @ sl @ sp2' @ w @ body' @ GT3) xs'" "fence_text (LT3 @ sp1' @ sl @ sp2' @ w @ body' @ GT3)"
    using fence_text_parts [OF _ _ parts(5) w] by simp_all
  then show ?thesis
    using xs'(1) has_fence_sublist [of xs' xs] suffix_imp_sublist unfolding has_fence_def by blast
qed

lemma dropWhile_flatten: "dropWhile uni_space (flatten xs) = flatten (dropWhile uni_space xs)"
proof (induction xs rule: flatten.induct)
  case (3 c d cs)
  have sp: "uni_space 13" "uni_space 10" "uni_space 32" by (simp_all add: uni_space_def)
  show ?case
  proof (cases "c = 13 \<and> d = 10")
    case True
    then show ?thesis using 3(1) sp by simp
  next
    case False
    then show ?thesis using 3(2) sp by (cases "uni_space c") (auto split: if_splits)
  qed
qed (auto simp: uni_space_def)

lemma squeeze_flatten: "squeeze (flatten xs) = squeeze xs"
proof (induction xs rule: squeeze.induct)
  case (2 c cs)
  have sp: "uni_space 13" "uni_space 10" "uni_space 32" by (simp_all add: uni_space_def)
  show ?case
  proof (cases "uni_space c")
    case True
    obtain ys where f: "flatten (c # cs) = (if c = 10 \<or> c = 13 then 32 else c) # ys"
      and "dropWhile uni_space ys = flatten (dropWhile uni_space cs)"
    proof (cases cs)
      case (Cons d ds)
      then show thesis using that sp dropWhile_flatten by (cases "c = 13 \<and> d = 10") auto
    qed (use that in simp)
    then show ?thesis using 2(1) [OF True] True sp by simp
  next
    case False
    then have "flatten (c # cs) = c # flatten cs" using sp by (cases cs) auto
    then show ?thesis using 2(2) [OF False] False by simp
  qed
qed simp

lemma squeeze_word: "(\<forall>c\<in>set w. \<not> uni_space c) \<Longrightarrow> squeeze (w @ xs) = w @ squeeze xs"
  by (induction w) auto

lemma join_text_Cons: "ys \<noteq> [] \<Longrightarrow> join_text sep (x # ys) = x @ sep @ join_text sep ys"
  by (cases ys) auto

lemma py_split_empty: "py_split xs = [] \<longleftrightarrow> dropWhile uni_space xs = []"
  by (subst py_split.simps) (simp add: Let_def)

lemma squeeze_split: "\<exists>t. squeeze (dropWhile uni_space xs) = join_text [32] (py_split xs) @ t"
proof (induction xs rule: py_split.induct)
  case (1 xs)
  define ys where "ys = dropWhile uni_space xs"
  let ?word = "takeWhile (\<lambda>c. \<not> uni_space c) ys" and ?zs = "dropWhile (\<lambda>c. \<not> uni_space c) ys"
  show ?case
  proof (cases "ys = []")
    case True
    then show ?thesis using py_split_empty [of xs] by (simp add: ys_def)
  next
    case False
    then obtain t where t: "squeeze (dropWhile uni_space ?zs) = join_text [32] (py_split ?zs) @ t"
      using 1 [OF ys_def] by blast
    have split: "py_split xs = ?word # py_split ?zs" using False by (subst py_split.simps) (simp add: Let_def ys_def)
    have "squeeze ys = ?word @ squeeze ?zs"
      using squeeze_word [of ?word ?zs] by (metis set_takeWhileD takeWhile_dropWhile_id)
    also have "squeeze ?zs = (if ?zs = [] then [] else 32 # squeeze (dropWhile uni_space ?zs))"
    proof (cases ?zs)
      case (Cons c cs)
      then have "uni_space c" using hd_dropWhile [of "\<lambda>c. \<not> uni_space c" ys] by simp
      then show ?thesis by (simp add: Cons)
    qed (simp only: simp_thms if_True squeeze.simps)
    finally have sq: "squeeze ys = ?word @ (if ?zs = [] then [] else 32 # squeeze (dropWhile uni_space ?zs))" .
    show ?thesis
    proof (cases "py_split ?zs = []")
      case True
      then show ?thesis using sq split by (simp add: ys_def)
    next
      case nonempty: False
      then have "?zs \<noteq> []" using py_split_empty by fastforce
      then show ?thesis using sq split t join_text_Cons [OF nonempty] by (simp add: ys_def)
    qed
  qed
qed

lemma join_split_fence: "has_fence (join_text [32] (py_split xs)) \<Longrightarrow> has_fence xs"
proof -
  assume f: "has_fence (join_text [32] (py_split xs))"
  obtain t where "squeeze (dropWhile uni_space xs) = join_text [32] (py_split xs) @ t" using squeeze_split by blast
  then have "has_fence (squeeze (dropWhile uni_space xs))" using has_fence_sublist [OF f] by simp
  then have "has_fence (dropWhile uni_space xs)" by (rule squeeze_fence)
  then show ?thesis using has_fence_sublist suffix_dropWhile suffix_imp_sublist by blast
qed

lemma flatten_fence: "has_fence (join_text [32] (py_split (flatten xs))) \<Longrightarrow> has_fence xs"
proof -
  assume f: "has_fence (join_text [32] (py_split (flatten xs)))"
  obtain t where "squeeze (dropWhile uni_space (flatten xs)) = join_text [32] (py_split (flatten xs)) @ t"
    using squeeze_split by blast
  then have "has_fence (squeeze (flatten (dropWhile uni_space xs)))"
    using has_fence_sublist [OF f] by (simp add: dropWhile_flatten)
  then have "has_fence (dropWhile uni_space xs)" using squeeze_flatten squeeze_fence by simp
  then show ?thesis using has_fence_sublist suffix_dropWhile suffix_imp_sublist by blast
qed

lemma fence_last: "fence_text m \<Longrightarrow> m \<noteq> [] \<and> last m = 62"
  by (auto simp: fence_text_def GT3_def LT3_def)

lemma has_fence_snoc: "c \<noteq> 62 \<Longrightarrow> has_fence (xs @ [c]) \<longleftrightarrow> has_fence xs"
proof
  assume c: "c \<noteq> 62" and "has_fence (xs @ [c])"
  then obtain m ps ss where m: "fence_text m" "xs @ [c] = ps @ m @ ss" by (auto simp: has_fence_def sublist_def)
  then have "ss \<noteq> []" using c fence_last [OF m(1)] by (metis append_Nil2 last_appendR last_snoc)
  then have "xs = ps @ m @ butlast ss" using m(2) by (metis butlast_append butlast_snoc append_is_Nil_conv)
  then show "has_fence xs" using m(1) unfolding has_fence_def sublist_def by blast
next
  assume "has_fence xs"
  then show "has_fence (xs @ [c])" by (rule has_fence_sublist) simp
qed

lemma escape_no_fence: "\<not> has_fence (escape limit value)"
proof -
  let ?d = "defang (filter (\<lambda>c. \<not> is_control c) value)"
  let ?t = "join_text [32] (py_split (flatten ?d))"
  have t: "\<not> has_fence ?t" using flatten_fence defang_no_fence by blast
  have "\<not> has_fence (take n ?t)" for n using t has_fence_sublist [of "take n ?t" ?t] take_is_prefix prefix_imp_sublist by blast
  then show ?thesis using t by (simp add: escape_def Let_def has_fence_snoc)
qed

lemma py_split_Cons:
  assumes "ys = dropWhile uni_space xs" and "ys \<noteq> []"
  shows "py_split xs = takeWhile (\<lambda>c. \<not> uni_space c) ys # py_split (dropWhile (\<lambda>c. \<not> uni_space c) ys)"
  using assms by (simp add: py_split.simps [of xs] Let_def)

lemma py_split_words: "w \<in> set (py_split xs) \<Longrightarrow> \<forall>c\<in>set w. \<not> uni_space c"
proof (induction xs rule: py_split.induct)
  case (1 xs)
  have ne: "dropWhile uni_space xs \<noteq> []" using 1(2) py_split_empty [of xs] by auto
  then consider "w = takeWhile (\<lambda>c. \<not> uni_space c) (dropWhile uni_space xs)"
    | "w \<in> set (py_split (dropWhile (\<lambda>c. \<not> uni_space c) (dropWhile uni_space xs)))"
    using 1(2) py_split_Cons [OF refl ne] by (metis set_ConsD)
  then show ?case
  proof cases
    case 1
    then show ?thesis using set_takeWhileD by fastforce
  next
    case 2
    then show ?thesis using 1(1) [OF refl ne] by blast
  qed
qed

lemma set_join_text: "set (join_text sep ws) \<subseteq> set sep \<union> (\<Union>w\<in>set ws. set w)"
  by (induction sep ws rule: join_text.induct) auto

lemma escape_spaces: "c \<in> set (escape limit value) \<Longrightarrow> uni_space c \<Longrightarrow> c = 32"
proof -
  let ?t = "join_text [32] (py_split (flatten (defang (filter (\<lambda>c. \<not> is_control c) value))))"
  have t: "c = 32" if "c \<in> set ?t" "uni_space c" for c
    using that set_join_text [of "[32]" "py_split (flatten (defang (filter (\<lambda>c. \<not> is_control c) value)))"] py_split_words by fastforce
  have "\<not> uni_space 8230" by (simp add: uni_space_def)
  then show "c \<in> set (escape limit value) \<Longrightarrow> uni_space c \<Longrightarrow> c = 32"
    using t by (auto simp: escape_def Let_def split: if_splits dest: in_set_takeD)
qed

end
