(* ===== verification/Task_Control.thy ===== *)
theory Task_Control
  imports Host_Boundary Task_Context
begin

text \<open>
  The control plane's task operations (\<^verbatim>\<open>src/atmem/control/manager.py\<close>): switching a scope, delivering the context of
  one task at a model boundary, confirming that it reached the model, operator lifecycle changes and proposals.
  The scope is the one \<^verbatim>\<open>_task_scope\<close> builds.  The digest in the context identifier is the parameter
  \<open>ctx_digest\<close>; opening and closing the store is not modelled.  A reply to an operator is a \<open>host_reply\<close>.
\<close>

section \<open>Scopes and modes\<close>

definition task_scope :: "string \<Rightarrow> string option \<Rightarrow> string option \<Rightarrow> string option \<Rightarrow> authority_scope" where
  "task_scope default_subject subject agent workspace =
     \<lparr>sc_subject_id = (if truthy subject then py_str subject else default_subject),
      sc_agent_id = (if truthy agent then py_str agent else ''default-agent''),
      sc_workspace_id = (if truthy workspace then py_str workspace else ''default-workspace'')\<rparr>"

definition set_task_state_mode ::
  "hashes \<Rightarrow> string \<Rightarrow> timestamp \<Rightarrow> string \<Rightarrow> string \<Rightarrow> authority_scope \<Rightarrow> store \<Rightarrow> (scope_mode \<times> bool) outcome" where
  "set_task_state_mode H event_id now action actor sc st =
     (if action \<notin> {''enable'', ''disable''} \<or> py_strip actor = [] then (st, Inl (ContractError ValueError))
      else
        (let before = mode (st_audit st) sc in
         if action = ''enable'' \<and> sm_enabled before \<and> \<not> sm_shadow before \<or> action = ''disable'' \<and> \<not> sm_enabled before
         then (st, Inr (before, False))
         else
           (case (if action = ''enable'' then enable H event_id now sc actor False (st_audit st)
                  else disable H event_id now sc actor (st_audit st)) of
              (log, m) \<Rightarrow> (st\<lparr>st_audit := log\<rparr>, Inr (m, True)))))"

section \<open>Delivering context\<close>

definition host_identity :: "string option \<Rightarrow> string option \<Rightarrow> string option \<Rightarrow> host_session_identity option" where
  "host_identity host key epoch =
     (if \<not> (truthy host \<and> truthy key \<and> truthy epoch) then None
      else let i = \<lparr>hs_host_type = py_str host, hs_session_key = py_str key, hs_session_epoch = py_str epoch\<rparr>
           in if HostSessionIdentity_ok i then Some i else None)"

definition delivery_of ::
  "hashes \<Rightarrow> string \<Rightarrow> authority_scope \<Rightarrow> task_context_package \<Rightarrow> string option \<Rightarrow> timestamp \<Rightarrow> string option \<Rightarrow> delivery_row" where
  "delivery_of H k sc c sha at run =
     \<lparr>dl_delivery_id = [], dl_task_id = k, dl_revision = cp_revision c, dl_scope = sc,
      dl_disposition = cp_disposition c, dl_reason_codes = cp_reason_codes c, dl_context_sha256 = sha,
      dl_cache_key = Some (cache_key H c), dl_preparation_id = run, dl_exposed = False, dl_prepared_at = at,
      dl_sequence = 0\<rparr>"

text \<open>\<^verbatim>\<open>_withheld_task_context\<close>: the refusal is recorded when a task was named, and a failing record is ignored.\<close>

definition withheld_task_context ::
  "hashes \<Rightarrow> authority_scope \<Rightarrow> string \<Rightarrow> string \<Rightarrow> timestamp \<Rightarrow> string list \<Rightarrow> string option \<Rightarrow> store \<Rightarrow>
   (task_context_package \<times> string option) outcome" where
  "withheld_task_context H sc k context_id at reasons run st =
     (case withhold sc (if k = [] then ''unknown'' else k) 1 context_id reasons at [] [] 1 of
        Inl e \<Rightarrow> (st, Inl (ContractError e))
      | Inr c \<Rightarrow>
          ((if k = [] then st
            else case insert_task_delivery (delivery_of H k sc c None at run) st of
                   Inl _ \<Rightarrow> st
                 | Inr (st', _) \<Rightarrow> st'),
           Inr (c, None)))"

definition deliver_view ::
  "hashes \<Rightarrow> (utext \<Rightarrow> string) \<Rightarrow> authority_scope \<Rightarrow> string \<Rightarrow> string \<Rightarrow> timestamp \<Rightarrow> int \<Rightarrow> string option \<Rightarrow> task_view \<Rightarrow> store \<Rightarrow>
   (task_context_package \<times> string option) outcome" where
  "deliver_view H sha_text sc k context_id at budget run v st =
     (case (case eligibility_reason (Some (ts_lifecycle (tv_state v))) True of
              Some reason \<Rightarrow>
                withhold sc k (ts_revision (tv_state v)) context_id [reason] at [] (pf_version (tv_profile v)) 1
            | None \<Rightarrow> prepare sha_text (tv_state v) (tv_profile v) sc context_id at [] budget 1) of
        Inl e \<Rightarrow> (st, Inl (ContractError e))
      | Inr c \<Rightarrow>
          (case insert_task_delivery
                  (delivery_of H k sc c (if cp_context_sha256 c = [] then None else Some (cp_context_sha256 c)) at run) st of
             Inl e \<Rightarrow> (st, Inl e)
           | Inr (st', d) \<Rightarrow> (st', Inr (c, Some d))))"

definition prepare_task_context ::
  "hashes \<Rightarrow> (utext \<Rightarrow> string) \<Rightarrow> (authority_scope \<Rightarrow> string option \<Rightarrow> string option \<Rightarrow> string) \<Rightarrow> timestamp \<Rightarrow> clock \<Rightarrow> clock \<Rightarrow>
   authority_scope \<Rightarrow> string option \<Rightarrow> string option \<Rightarrow> host_session_identity option \<Rightarrow> int \<Rightarrow> store \<Rightarrow>
   (task_context_package \<times> string option) outcome" where
  "prepare_task_context H sha_text ctx_digest at bclk clk sc task_id run identity budget st =
     (let context_id = ''taskctx_'' @ take 32 (ctx_digest sc task_id run);
          named = (case task_id of None \<Rightarrow> [] | Some k \<Rightarrow> k);
          m = mode (st_audit st) sc in
      if \<not> influences_agent m
      then withheld_task_context H sc named context_id at
             [if \<not> sm_enabled m then ''task_state_disabled'' else ''task_state_shadow_mode''] run st
      else
        (case resolve st bclk sc identity task_id of
           Inl e \<Rightarrow> (st, Inl e)
         | Inr a \<Rightarrow>
             if \<not> delivers (rt_resolution a)
             then withheld_task_context H sc named context_id at
                    [if truthy (rt_reason_code a) then py_str (rt_reason_code a) else ''task_context_selection_required''] run st
             else
               (let k = (case rt_task_id a of None \<Rightarrow> [] | Some j \<Rightarrow> j) in
                case get_view H clk sc k True st of
                  (st', Inr v) \<Rightarrow> deliver_view H sha_text sc k context_id at budget run v st'
                | (st', Inl (TaskStateError _)) \<Rightarrow>
                    withheld_task_context H sc k context_id at [''task_context_not_eligible''] run st'
                | (st', Inl (TaskCompletionDenied _ _)) \<Rightarrow>
                    withheld_task_context H sc k context_id at [''task_context_not_eligible''] run st'
                | (st', Inl e) \<Rightarrow> (st', Inl e))))"

definition confirm_task_exposure :: "string \<Rightarrow> store \<Rightarrow> store \<times> bool" where
  "confirm_task_exposure d st = mark_task_delivery_exposed d st"

section \<open>Operator requests\<close>

definition submit_task_proposal :: "hashes \<Rightarrow> clock \<Rightarrow> task_state_proposal \<Rightarrow> store \<Rightarrow> host_reply outcome" where
  "submit_task_proposal H clk prop st =
     (if \<not> sm_enabled (mode (st_audit st) (pr_scope prop))
      then (st, Inr (Refusal ''task_state_disabled'' ''Governed task state is disabled for this scope.''))
      else caught (submit H clk prop False ''host_observation'' st))"

datatype operator_action = Pause | Resume | Complete | Cancel

fun operator_action_value :: "operator_action \<Rightarrow> string" where
  "operator_action_value Pause = ''pause''"
| "operator_action_value Resume = ''resume''"
| "operator_action_value Complete = ''complete''"
| "operator_action_value Cancel = ''cancel''"

fun operator_call ::
  "operator_action \<Rightarrow> hashes \<Rightarrow> clock \<Rightarrow> authority_scope \<Rightarrow> string \<Rightarrow> string \<Rightarrow> actor_role \<Rightarrow> string \<Rightarrow> store \<Rightarrow> task_view outcome" where
  "operator_call Pause = pause"
| "operator_call Resume = resume"
| "operator_call Complete = complete"
| "operator_call Cancel = cancel"

text \<open>The read for the expected revision is outside the handler, so its exceptions leave the call.\<close>

definition change_task_lifecycle ::
  "hashes \<Rightarrow> clock \<Rightarrow> authority_scope \<Rightarrow> string \<Rightarrow> operator_action \<Rightarrow> string \<Rightarrow> string \<Rightarrow> int option \<Rightarrow> store \<Rightarrow> host_reply outcome" where
  "change_task_lifecycle H clk sc k action actor reason expected st =
     (let why = (if reason = [] then operator_action_value action else reason) in
      case expected of
        None \<Rightarrow> lifecycle_reply k (operator_call action H clk sc k actor OPERATOR why st)
      | Some n \<Rightarrow>
          (case get_view H clk sc k True st of
             (st', Inl e) \<Rightarrow> (st', Inl e)
           | (st', Inr v) \<Rightarrow>
               if n \<noteq> ts_revision (tv_state v) then (st', Inr (StaleRequest k n (ts_revision (tv_state v))))
               else lifecycle_reply k (operator_call action H (\<lambda>i. clk (i + 2)) sc k actor OPERATOR why st')))"

end
