(* ===== verification/Task_System.thy ===== *)
theory Task_System
  imports Task_Control
begin

text \<open>
  All task-state components over one store: the service, session bindings, the switch, hosts, and delivery of
  context, as one transition system.  Its invariant joins those of the components.  Properties of the
  composition: what a host can change, and what it takes for task bytes to reach a model.
\<close>

section \<open>The transition system\<close>

text \<open>A call of a host for the task \<open>k\<close> in the conversation \<open>i\<close>, with the clock of the binding lookup.\<close>

inductive host_step ::
  "hashes \<Rightarrow> authority_scope \<Rightarrow> host_session_identity \<Rightarrow> string \<Rightarrow> clock \<Rightarrow> store \<Rightarrow> task_error + host_reply \<Rightarrow> store \<Rightarrow> bool"
  for H where
  observes: "observe H sha bclk clk client sc req st = (st', x) \<Longrightarrow> host_step H sc (ho_identity req) (ho_task_id req) bclk st x st'"
| proposes: "propose H bclk clk sc req' st = (st', x) \<Longrightarrow> host_step H sc (hp_identity req') (hp_task_id req') bclk st x st'"
| requests: "request_lifecycle H bclk clk sc req'' st = (st', x) \<Longrightarrow>
    host_step H sc (hl_identity req'') (hl_task_id req'') bclk st x st'"

inductive system_step :: "hashes \<Rightarrow> store \<Rightarrow> store \<Rightarrow> bool" for H where
  serves: "service_step H st st' \<Longrightarrow> system_step H st st'"
| binds: "binding_step st st' \<Longrightarrow> system_step H st st'"
| switches: "set_task_state_mode H event_id now action actor sc st = (st', y) \<Longrightarrow> system_step H st st'"
| shadows: "st' = st\<lparr>st_audit := fst (enable H event_id now sc actor shadow (st_audit st))\<rparr> \<Longrightarrow> system_step H st st'"
| logs: "st' = st\<lparr>st_audit := log\<rparr> \<Longrightarrow> audit_step H (st_audit st) log \<Longrightarrow> system_step H st st'"
| hosts: "host_step H sc i k bclk st z st' \<Longrightarrow> system_step H st st'"
| prepares: "prepare_task_context H sha ctx_digest at bclk clk sc task_id run identity budget st = (st', w) \<Longrightarrow> system_step H st st'"
| exposes: "confirm_task_exposure d st = (st', b) \<Longrightarrow> system_step H st st'"
| operates: "change_task_lifecycle H clk sc k op actor reason expected st = (st', z) \<Longrightarrow> system_step H st st'"
| submits: "submit_task_proposal H clk prop st = (st', z) \<Longrightarrow> system_step H st st'"

definition system_ok :: "hashes \<Rightarrow> store \<Rightarrow> bool" where
  "system_ok H st \<longleftrightarrow>
     store_ok H st \<and> bindings_ok (st_bindings st) \<and> audit_inv H (st_audit st) \<and>
     distinct (map dl_delivery_id (st_deliveries st))"

section \<open>What each part leaves alone\<close>

lemma caught_eq: "fst (caught o1) = fst o1"
  by (auto simp: caught_def split: prod.splits sum.splits task_error.splits)

lemma lifecycle_reply_eq: "fst (lifecycle_reply k o1) = fst o1"
  by (auto simp: lifecycle_reply_def split: prod.splits sum.splits task_error.splits)

lemma atbot_proposal_task [simp]: "pr_task_id (atbot_proposal sc k n d ops ev) = k"
  by (simp add: atbot_proposal_def)

text \<open>A relation of the service also follows the calls that go through it.\<close>

context service_relation
begin

lemma atbot_rel:
  assumes "submit_atbot_observation H sha clk client sc k observation evidence st = (st', x)" and ok: "store_ok H st" and K: "K k"
  shows "R st st'"
proof -
  obtain u y where v: "get_view H clk sc k True st = (u, y)" by fastforce
  have u: "R st u" "store_ok H u" using get_view_rel [OF v ok K] get_view_okD [OF v ok] .
  have "R u st'" if "submit H clk' p False kind u = (st', x)" "pr_task_id p = k" for clk' p kind
    using submit_rel [OF that(1) u(2)] that(2) K by simp
  then show ?thesis
    using assms(1) v u(1) R_refl R_trans
    by (auto simp: submit_atbot_observation_def Let_def split: sum.splits if_splits)
qed

lemma service_action_rel:
  "service_action a H clk sc k actor role reason st = (st', x) \<Longrightarrow> store_ok H st \<Longrightarrow> K k \<Longrightarrow> R st st'"
  by (cases a) (auto simp: pause_def resume_def dest: lifecycle_rel complete_rel)

lemma operator_call_rel:
  "operator_call a H clk sc k actor role reason st = (st', x) \<Longrightarrow> store_ok H st \<Longrightarrow> K k \<Longrightarrow> R st st'"
  by (cases a) (auto simp: pause_def resume_def cancel_def R_refl dest: lifecycle_rel complete_rel split: if_splits)

lemma host_step_rel:
  assumes "host_step H sc i k bclk st x st'" and ok: "store_ok H st" and K: "K k"
  shows "R st st'"
  using assms
proof (induction rule: host_step.induct)
  case (observes sha bclk clk client sc req st st' x)
  then show ?case
    using caught_eq [of "submit_atbot_observation H sha clk client sc (ho_task_id req) (ho_observation req) (ho_evidence req) st"] R_refl
    by (auto simp: observe_def split: sum.splits bool.splits) (metis atbot_rel prod.collapse fst_conv)
next
  case (proposes bclk clk sc req' st st' x)
  have "R st (fst (caught (submit H clk (host_proposal sc req') False ''host_proposal'' st)))"
    using submit_rel [of clk "host_proposal sc req'" False "''host_proposal''" st] proposes(2,3)
    unfolding caught_eq by (metis host_proposal_def prod.collapse task_state_proposal.select_convs(2))
  then show ?case
    using proposes(1) R_refl by (auto simp: propose_def split: sum.splits option.splits if_splits)
next
  case (requests bclk clk sc req'' st st' x)
  let ?k = "hl_task_id req''"
  have act: "R st (fst (lifecycle_reply ?k (service_action (hl_action req'') H clk' sc ?k a r w st)))" if "store_ok H st" for st clk' a r w
    using service_action_rel [of "hl_action req''" clk' sc ?k a r w st] that requests(3) unfolding lifecycle_reply_eq by (metis prod.collapse)
  obtain u y where v: "get_view H clk sc ?k True st = (u, y)" by fastforce
  have u: "R st u" "store_ok H u" using get_view_rel [OF v requests(2,3)] get_view_okD [OF v requests(2)] .
  have "st' = st \<or> st' = u \<or> R u st'"
    using requests(1) v act [OF u(2)] lifecycle_reply_eq [of ?k "(u, y)"]
    by (auto simp: request_lifecycle_def split: sum.splits bool.splits if_splits) (metis fst_conv lifecycle_reply_eq)+
  then show ?case using u(1) R_refl R_trans by blast
qed

end

section \<open>The invariant\<close>

text \<open>Calls of hosts and operators are made of calls of the service.\<close>

lemma service_then:
  assumes "service_step H st u" and "service_step H u st'"
  shows "(service_step H)\<^sup>*\<^sup>* st st'"
  using assms by (meson converse_rtranclp_into_rtranclp r_into_rtranclp)

lemma service_action_step: "service_action a H clk sc k actor role reason st = (st', x) \<Longrightarrow> service_step H st st'"
  by (cases a) (auto intro: pauses resumes completes)

lemma operator_call_step: "operator_call a H clk sc k actor role reason st = (st', x) \<Longrightarrow> service_step H st st'"
  by (cases a) (auto intro: pauses resumes completes cancels)

lemma step_fst: "(\<And>st' x. f = (st', x) \<Longrightarrow> service_step H st st') \<Longrightarrow> service_step H st (fst f)"
  by (metis prod.collapse)

lemma host_step_service:
  assumes "host_step H sc i k bclk st x st'"
  shows "(service_step H)\<^sup>*\<^sup>* st st'"
  using assms
proof (induction rule: host_step.induct)
  case (observes sha bclk clk client sc req st st' x)
  obtain u y where v: "get_view H clk sc (ho_task_id req) True st = (u, y)" by fastforce
  let ?o = "submit_atbot_observation H sha clk client sc (ho_task_id req) (ho_observation req) (ho_evidence req) st"
  have "fst ?o = u \<or> service_step H u (fst ?o)"
    using v by (auto simp: submit_atbot_observation_def Let_def split: sum.splits intro: step_fst Service_Steps.submits)
  moreover have "service_step H st u" using v by (rule views)
  moreover have "st' = st \<or> st' = fst ?o"
    using observes by (auto simp: observe_def split: sum.splits bool.splits) (metis caught_eq fst_conv)
  ultimately show ?case using service_then by blast
next
  case (proposes bclk clk sc req' st st' x)
  have "fst (propose H bclk clk sc req' st) = st \<or>
      fst (propose H bclk clk sc req' st) = fst (submit H clk (host_proposal sc req') False ''host_proposal'' st)"
    by (auto simp: propose_def caught_eq split: sum.splits option.splits if_splits)
  then have "st' = st \<or> st' = fst (submit H clk (host_proposal sc req') False ''host_proposal'' st)"
    using proposes by simp
  moreover have "service_step H st (fst (submit H clk (host_proposal sc req') False ''host_proposal'' st))"
    by (rule step_fst) (rule Service_Steps.submits)
  ultimately show ?case by auto
next
  case (requests bclk clk sc req'' st st' x)
  let ?k = "hl_task_id req''"
  obtain u y where v: "get_view H clk sc ?k True st = (u, y)" by fastforce
  have "st' = st \<or> st' = u \<or> service_step H u st'"
    using requests v lifecycle_reply_eq
    by (auto simp: request_lifecycle_def split: sum.splits bool.splits if_splits) (metis fst_conv prod.collapse service_action_step)+
  moreover have "service_step H st u" using v by (rule views)
  ultimately show ?case using service_then by (metis r_into_rtranclp rtranclp.rtrancl_refl)
qed

lemma operator_step_service:
  assumes "change_task_lifecycle H clk sc k op actor reason expected st = (st', z)"
  shows "(service_step H)\<^sup>*\<^sup>* st st'"
proof -
  obtain u y where v: "get_view H clk sc k True st = (u, y)" by fastforce
  have "service_step H st st' \<or> st' = u \<or> service_step H u st'"
    using assms v lifecycle_reply_eq
    by (auto simp: change_task_lifecycle_def Let_def split: option.splits sum.splits if_splits)
       (metis fst_conv prod.collapse operator_call_step)+
  moreover have "service_step H st u" using v by (rule views)
  ultimately show ?thesis using service_then by (metis r_into_rtranclp)
qed

text \<open>What the other parts need of a changed store: the rows they refer to, and identifiers used once.\<close>

lemma system_ok_beside:
  assumes "system_ok H st" and "store_ok H st'" and "beside st' = beside st"
  shows "system_ok H st'"
  using assms by (simp add: system_ok_def beside_def)

lemma insert_task_delivery_system:
  assumes "insert_task_delivery r st = Inr (st', d)" and "system_ok H st"
  shows "system_ok H st'"
proof -
  have st': "st' = st\<lparr>st_deliveries := st_deliveries st @ [r\<lparr>dl_delivery_id := new_id ''del'' st, dl_exposed := False,
        dl_sequence := next_delivery_sequence st (dl_task_id r)\<rparr>], st_next_id := st_next_id st + 1\<rparr>"
    and new: "has_task st (dl_task_id r)" "\<forall>x\<in>set (st_deliveries st). dl_delivery_id x \<noteq> new_id ''del'' st"
    using assms(1) by (auto simp: insert_task_delivery_def list_ex_iff split: if_splits)
  have ok: "store_ok H st" using assms(2) by (simp add: system_ok_def)
  have same: "st_tasks st' = st_tasks st" "st_revisions st' = st_revisions st" "st_profiles st' = st_profiles st" by (simp_all add: st')
  have "refs_ok st'" using ok new(1) by (auto simp: st'  store_ok_def refs_ok_def has_task_def)
  then have "store_ok H st'" using store_ok_frame [OF ok] same by blast
  then show ?thesis using assms(2) new(2) by (auto simp: system_ok_def st')
qed

lemma withheld_system: "withheld_task_context H sc k c at reasons run st = (st', x) \<Longrightarrow> system_ok H st \<Longrightarrow> system_ok H st'"
  by (auto simp: withheld_task_context_def split: sum.splits if_splits prod.splits dest: insert_task_delivery_system)

lemma deliver_view_system: "deliver_view H sha sc k c at budget run v st = (st', x) \<Longrightarrow> system_ok H st \<Longrightarrow> system_ok H st'"
  by (auto simp: deliver_view_def split: sum.splits option.splits prod.splits dest: insert_task_delivery_system)

lemma get_view_system: "get_view H clk sc k b st = (st', x) \<Longrightarrow> system_ok H st \<Longrightarrow> system_ok H st'"
  using system_ok_beside get_view_okD apart.get_view_rel by (metis system_ok_def)

lemma prepare_task_context_system:
  assumes "prepare_task_context H sha ctx_digest at bclk clk sc task_id run identity budget st = (st', w)" and ok: "system_ok H st"
  shows "system_ok H st'"
proof -
  have "system_ok H u" if "get_view H clk sc k True st = (u, y)" for k u y using get_view_system [OF that ok] .
  then show ?thesis
    using assms(1) ok withheld_system deliver_view_system
    unfolding prepare_task_context_def Let_def
    by (auto split: if_splits sum.splits prod.splits task_error.splits)
qed

lemma mark_exposed_system:
  assumes "mark_task_delivery_exposed d st = (st', b)" and "system_ok H st"
  shows "system_ok H st'"
proof -
  let ?f = "\<lambda>r. if dl_delivery_id r = d \<and> \<not> dl_exposed r then r\<lparr>dl_exposed := True\<rparr> else r"
  have st': "st' = st\<lparr>st_deliveries := map ?f (st_deliveries st)\<rparr>" using assms(1) by (simp add: mark_task_delivery_exposed_def)
  have ok: "store_ok H st" using assms(2) by (simp add: system_ok_def)
  have same: "st_tasks st' = st_tasks st" "st_revisions st' = st_revisions st" "st_profiles st' = st_profiles st" by (simp_all add: st')
  have "refs_ok st'" using ok by (auto simp: st'  store_ok_def refs_ok_def has_task_def)
  then have "store_ok H st'" using store_ok_frame [OF ok] same by blast
  moreover have "map dl_delivery_id (st_deliveries st') = map dl_delivery_id (st_deliveries st)" by (simp add: st')
  moreover have "st_bindings st' = st_bindings st" "st_audit st' = st_audit st" by (simp_all add: st')
  ultimately show ?thesis using assms(2) unfolding system_ok_def by metis
qed

lemma dropped_system:
  assumes "dropped gone st st'" and "system_ok H st" and "bindings_ok (st_bindings st')"
  shows "system_ok H st'"
proof -
  have "store_ok H st'" using dropped_ok [OF _ assms(1)] assms(2) by (simp add: system_ok_def)
  then show ?thesis using assms by (simp add: system_ok_def dropped_def distinct_map_filter)
qed

lemma delete_task_system:
  assumes "delete_task sc k st = (st', b, removed)" and "system_ok H st"
  shows "system_ok H st'"
proof -
  have bs: "bindings_ok (st_bindings st')" using binding_step_ok [OF forgets_task [OF assms(1)]] assms(2) by (simp add: system_ok_def)
  from assms(1) show ?thesis
    by (cases rule: delete_task_cases) (use assms(2) dropped_system bs in auto)
qed

lemma service_step_beside:
  assumes "service_step H st st'" and "store_ok H st"
  shows "beside st' = beside st \<or> (\<exists>sc k b removed. delete_task sc k st = (st', b, removed))"
  using assms
proof (induction rule: service_step.induct)
  case (cancels clk sc k actor role reason st st' x)
  then show ?case by (auto simp: cancel_def dest: apart.lifecycle_rel split: if_splits)
next
  case (expires clk sc k st st' y)
  then show ?case by (auto simp: evaluate_expiry_def dest: apart.expire_if_due_rel split: option.splits)
next
  case (forgets sc k role st st' z)
  then show ?case by (auto simp: forget_def split: sum.splits prod.splits)
qed (auto simp: pause_def resume_def scan_for_expiry_def
      dest: apart.register_rel apart.start_rel apart.get_view_rel apart.submit_rel apart.correct_rel apart.commit_rel
        apart.lifecycle_rel apart.complete_rel apart.scan_rows_rel)

lemma service_step_system: "service_step H st st' \<Longrightarrow> system_ok H st \<Longrightarrow> system_ok H st'"
  using service_step_beside [of H st st'] service_step_ok [of H st st'] system_ok_beside delete_task_system
  by (metis system_ok_def)

lemma service_steps_system: "(service_step H)\<^sup>*\<^sup>* st st' \<Longrightarrow> system_ok H st \<Longrightarrow> system_ok H st'"
  by (induction rule: rtranclp_induct) (auto intro: service_step_system)

lemma bindings_system:
  assumes "system_ok H st" and "bindings_ok bs" and "st' = st\<lparr>st_bindings := bs, st_next_id := n\<rparr>"
  shows "system_ok H st'"
proof -
  have ok: "store_ok H st" using assms(1) by (simp add: system_ok_def)
  have "refs_ok st'" using ok by (simp add: assms(3) store_ok_def refs_ok_def has_task_def)
  then have "store_ok H st'" using store_ok_frame [OF ok] by (simp add: assms(3))
  then show ?thesis using assms by (simp add: system_ok_def)
qed

lemma reset_dropped:
  assumes "distinct (map tr_task_id (st_tasks st))"
  shows "dropped (\<lambda>k. \<exists>r\<in>set (st_tasks st). tr_task_id r = k \<and> sc_subject_id (tr_scope r) = sub) st (reset_subject_tasks sub st)"
proof -
  have ids: "k \<in> set (map tr_task_id (filter (\<lambda>r. sc_subject_id (tr_scope r) = sub) (st_tasks st))) \<longleftrightarrow>
      (\<exists>r\<in>set (st_tasks st). tr_task_id r = k \<and> sc_subject_id (tr_scope r) = sub)" for k by auto
  have "filter (\<lambda>r. sc_subject_id (tr_scope r) \<noteq> sub) (st_tasks st) =
      filter (\<lambda>r. \<not> (\<exists>x\<in>set (st_tasks st). tr_task_id x = tr_task_id r \<and> sc_subject_id (tr_scope x) = sub)) (st_tasks st)"
    using assms by (intro filter_cong) (auto simp: distinct_map inj_on_def)
  then show ?thesis
    unfolding reset_subject_tasks_def dropped_def Let_def drop_task_rows_def ids by auto
qed

lemma binding_step_system:
  assumes "binding_step st st'" and ok: "system_ok H st"
  shows "system_ok H st'"
proof -
  have bs: "bindings_ok (st_bindings st')" using binding_step_ok [OF assms(1)] ok by (simp add: system_ok_def)
  from assms(1) show ?thesis
  proof cases
    case (registers_binding now sc i k actor reason source p evidence x)
    have "st' = st\<lparr>st_bindings := st_bindings st', st_next_id := st_next_id st + 1\<rparr>"
      using registers_binding by (auto simp: register_binding_def insert_session_binding_def Let_def split: if_splits)
    then show ?thesis by (rule bindings_system [OF ok bs])
  next
    case (revokes_binding now sc bid actor reason y)
    have "st' = st\<lparr>st_bindings := st_bindings st', st_next_id := st_next_id st\<rparr>"
      using revokes_binding by (auto simp: revoke_binding_def revoke_session_binding_def revoke_where_def split: if_splits)
    then show ?thesis by (rule bindings_system [OF ok bs])
  next
    case (revokes_task k at who why n)
    have "st' = st\<lparr>st_bindings := st_bindings st', st_next_id := st_next_id st\<rparr>"
      using revokes_task by (auto simp: revoke_session_bindings_for_task_def revoke_where_def)
    then show ?thesis by (rule bindings_system [OF ok bs])
  next
    case (deletes_bindings k n)
    have "st' = st\<lparr>st_bindings := st_bindings st', st_next_id := st_next_id st\<rparr>"
      using deletes_bindings by (auto simp: delete_session_bindings_for_task_def)
    then show ?thesis by (rule bindings_system [OF ok bs])
  next
    case (forgets_task sc k b removed)
    then show ?thesis using delete_task_system ok by blast
  next
    case (resets sub)
    then show ?thesis
      using dropped_system [OF reset_dropped ok] ok bs by (simp add: system_ok_def store_ok_def)
  qed
qed

lemma audit_system: "system_ok H st \<Longrightarrow> audit_inv H log \<Longrightarrow> system_ok H (st\<lparr>st_audit := log\<rparr>)"
proof -
  assume ok: "system_ok H st" and log: "audit_inv H log"
  let ?st = "st\<lparr>st_audit := log\<rparr>"
  have sok: "store_ok H st" using ok by (simp add: system_ok_def)
  have "refs_ok ?st" using sok by (simp add: store_ok_def refs_ok_def has_task_def)
  then have "store_ok H ?st" using store_ok_frame [OF sok] by simp
  then show ?thesis using ok log by (simp add: system_ok_def)
qed

lemma switch_steps:
  "audit_step H log (fst (enable H event_id now sc actor shadow log))"
  "audit_step H log (fst (disable H event_id now sc actor log))"
  by (simp_all add: enable_def disable_def audit_step.append)

lemma system_step_ok:
  assumes "system_step H st st'" and ok: "system_ok H st"
  shows "system_ok H st'"
proof -
  have log: "system_ok H (st\<lparr>st_audit := log\<rparr>)" if "audit_step H (st_audit st) log" for log
    using audit_system [OF ok] audit.inv_step [OF _ that] ok by (simp add: system_ok_def)
  from assms(1) show ?thesis
  proof cases
    case (switches event_id now action actor sc y)
    have "st' = st \<or> st' = st\<lparr>st_audit := fst (enable H event_id now sc actor False (st_audit st))\<rparr> \<or>
        st' = st\<lparr>st_audit := fst (disable H event_id now sc actor (st_audit st))\<rparr>"
      using switches by (auto simp: set_task_state_mode_def Let_def split: if_splits prod.splits)
    then show ?thesis using ok log switch_steps by metis
  next
    case (shadows event_id now sc actor shadow)
    then show ?thesis using log switch_steps by metis
  next
    case (logs log)
    then show ?thesis using log by blast
  next
    case (exposes d b)
    then show ?thesis using mark_exposed_system ok by (simp add: confirm_task_exposure_def)
  next
    case (submits clk prp z)
    have "fst (submit_task_proposal H clk prp st) = st \<or> fst (submit_task_proposal H clk prp st) = fst (submit H clk prp False ''host_observation'' st)"
      by (simp add: submit_task_proposal_def caught_eq)
    moreover have "service_step H st (fst (submit H clk prp False ''host_observation'' st))"
      by (rule step_fst) (rule Service_Steps.submits)
    ultimately show ?thesis using submits ok service_step_system by (metis fst_conv)
  next
    case serves
    then show ?thesis using service_step_system ok by blast
  next
    case binds
    then show ?thesis using binding_step_system ok by blast
  next
    case (hosts sc i k bclk z)
    then show ?thesis using service_steps_system [OF host_step_service ok] by blast
  next
    case (prepares sha ctx_digest at bclk clk sc task_id run identity budget w)
    then show ?thesis using prepare_task_context_system ok by blast
  next
    case (operates clk sc k op actor reason expected z)
    then show ?thesis using service_steps_system [OF operator_step_service ok] by blast
  qed
qed

lemma empty_system_ok: "system_ok H empty_store"
proof -
  have "st_bindings empty_store = []" "st_deliveries empty_store = []" "st_audit empty_store = empty_log"
    by (simp_all add: empty_store_def)
  then show ?thesis using empty_store_ok audit.inv_init [OF refl] by (simp add: system_ok_def bindings_ok_def)
qed

interpretation system: invariant_system "\<lambda>st. st = empty_store" "system_step H" "system_ok H" for H
  by unfold_locales (auto intro: empty_system_ok system_step_ok)

section \<open>The database as a whole\<close>

text \<open>
  [C2] Every reachable database is well formed.  Task, delivery and active-binding keys are unique; every revision,
  provenance row, proposal, step and delivery belongs to a stored task; every task can be read, its head snapshot and profile
  are valid and the snapshot has the identity, scope, profile version, lifecycle and revision of the row; every
  binding has a task identifier, which nothing ties to a stored task; and the audit chain of every subject verifies.
\<close>

theorem database_is_well_formed:
  assumes "(system_step H)\<^sup>*\<^sup>* empty_store st"
  shows "distinct (map tr_task_id (st_tasks st)) \<and> distinct (map dl_delivery_id (st_deliveries st)) \<and>
    distinct (map binding_key (filter binding_active (st_bindings st))) \<and>
    set (map rr_task_id (st_revisions st)) = set (map tr_task_id (st_tasks st)) \<and>
    set (map pv_task_id (st_provenance st) @ map pp_task_id (st_proposals st) @ map sp_task_id (st_steps st) @
        map dl_task_id (st_deliveries st)) \<subseteq>
      set (map tr_task_id (st_tasks st)) \<and>
    list_all (\<lambda>r. case view_of st r of
        Inl e \<Rightarrow> False
      | Inr v \<Rightarrow> TaskState_ok (tv_state v) \<and> pf_version (tv_profile v) = tr_profile_version r \<and>
          ts_task_id (tv_state v) = tr_task_id r \<and> ts_scope (tv_state v) = tr_scope r \<and>
          ts_profile_version (tv_state v) = tr_profile_version r \<and> ts_lifecycle (tv_state v) = tr_lifecycle r \<and>
          ts_revision (tv_state v) = tr_head_revision r) (st_tasks st) \<and>
    list_all (\<lambda>b. sb_task_id b \<noteq> []) (st_bindings st) \<and> verify_audit_chain H (st_audit st) sub"
proof -
  have sys: "system_ok H st" using system.inv_reachable [OF refl assms] .
  then have ok: "store_ok H st" and refs: "refs_ok st" and bs: "bindings_ok (st_bindings st)"
    by (simp_all add: system_ok_def store_ok_def)
  have view: "case view_of st r of
        Inl e \<Rightarrow> False
      | Inr v \<Rightarrow> TaskState_ok (tv_state v) \<and> pf_version (tv_profile v) = tr_profile_version r \<and>
          ts_task_id (tv_state v) = tr_task_id r \<and> ts_scope (tv_state v) = tr_scope r \<and>
          ts_profile_version (tv_state v) = tr_profile_version r \<and> ts_lifecycle (tv_state v) = tr_lifecycle r \<and>
          ts_revision (tv_state v) = tr_head_revision r" if r: "r \<in> set (st_tasks st)" for r
  proof -
    obtain v where v: "view_of st r = Inr v" "shows_head r (tv_state v)" "registry_require st (tr_profile_version r) = Inr (tv_profile v)"
      using view_ok [OF ok r] by metis
    have "profiles_ok (st_profiles st)" using ok by (simp add: store_ok_def)
    then have "pf_version (tv_profile v) = tr_profile_version r" using registry_require_version v(3) by blast
    then show ?thesis using v(1,2) by (simp add: shows_head_def state_valid_def)
  qed
  have "tr_task_id r \<in> set (map rr_task_id (st_revisions st))" if r: "r \<in> set (st_tasks st)" for r
  proof -
    have "task_revisions st (tr_task_id r) \<noteq> []" using ok r by (auto simp: store_ok_def row_ok_def history_ok_def)
    then obtain v where "v \<in> set (task_revisions st (tr_task_id r))" by (cases "task_revisions st (tr_task_id r)") auto
    then show ?thesis unfolding task_revisions_def by (auto intro: image_eqI [of _ _ v])
  qed
  then have "set (map rr_task_id (st_revisions st)) = set (map tr_task_id (st_tasks st))"
    using refs by (auto simp: refs_ok_def has_task_def)
  moreover have "set (map pv_task_id (st_provenance st) @ map pp_task_id (st_proposals st) @ map sp_task_id (st_steps st) @
        map dl_task_id (st_deliveries st)) \<subseteq>
      set (map tr_task_id (st_tasks st))" using refs by (auto simp: refs_ok_def has_task_def)
  ultimately show ?thesis
    using view sys ok bs by (simp add: system_ok_def store_ok_def bindings_ok_def audit_inv_def list_all_iff)
qed

section \<open>What a host can change\<close>

lemma resolve_bound:
  assumes "resolve st bclk sc (Some i) None = Inr a" and "delivers (rt_resolution a)"
  shows "rt_resolution a = BOUND"
  using assms
  by (auto simp: resolve_def explicit_id_def answer_def Let_def delivers_def split: option.splits if_splits)

lemma host_gates_pass:
  assumes "host_gates st bclk sc i k = Inr (Inr shadow)"
  obtains a where "sm_enabled (mode (st_audit st) sc)" "shadow = sm_shadow (mode (st_audit st) sc)"
    "resolve st bclk sc (Some i) None = Inr a" "rt_resolution a = BOUND" "rt_task_id a = Some k"
proof -
  have "sm_enabled (mode (st_audit st) sc)" "shadow = sm_shadow (mode (st_audit st) sc)" "bound_task st bclk sc i k = Inr None"
    using assms by (auto simp: host_gates_def enablement_gate_def Let_def bind_res_def split: if_splits sum.splits option.splits)
  moreover from this(3) obtain a where "resolve st bclk sc (Some i) None = Inr a" "delivers (rt_resolution a)" "rt_task_id a = Some k"
    by (auto simp: bound_task_def bind_res_def split: sum.splits if_splits)
  ultimately show thesis using that resolve_bound by blast
qed

lemma host_step_gated:
  assumes "host_step H sc i k bclk st x st'" and "st' \<noteq> st"
  shows "host_gates st bclk sc i k = Inr (Inr False)"
  using assms
proof (induction rule: host_step.induct)
  case (observes sha bclk clk client sc req st st' x)
  then show ?case by (auto simp: observe_def split: sum.splits bool.splits)
next
  case (proposes bclk clk sc req' st st' x)
  then show ?case by (auto simp: propose_def split: sum.splits option.splits if_splits)
next
  case (requests bclk clk sc req'' st st' x)
  then show ?case by (auto simp: request_lifecycle_def split: sum.splits bool.splits)
qed

lemma forbidden_iff: "forbidden ops \<noteq> [] \<longleftrightarrow> (\<exists>p\<in>set ops. op_kind p \<in> {LOCK_SCHEMA, ADD_CONSTRAINT})"
proof -
  have "set (forbidden ops) = (\<lambda>p. operation_value (op_kind p)) ` {p \<in> set ops. op_kind p \<in> {LOCK_SCHEMA, ADD_CONSTRAINT}}"
    by (auto simp: forbidden_def OPERATOR_ONLY_OPERATIONS_def)
  then show ?thesis using set_empty [of "forbidden ops"] by auto
qed

lemma host_gates_refusal: "host_gates st bclk sc i k = Inr (Inl r) \<Longrightarrow> \<exists>a b. r = Refusal a b"
  by (auto simp: host_gates_def enablement_gate_def bound_task_def Let_def bind_res_def split: if_splits sum.splits option.splits)

lemma forbidden_refused:
  assumes "\<exists>p\<in>set (hp_operations req). op_kind p \<in> {LOCK_SCHEMA, ADD_CONSTRAINT}"
  shows "fst (propose H bclk clk sc req st) = st \<and> (\<forall>d. snd (propose H bclk clk sc req st) \<noteq> Inr (Decision d))"
proof -
  obtain m where "ceiling_gate (hp_operations req) = Some (Refusal ''capability_denied'' m)"
    using assms forbidden_iff [of "hp_operations req"] by (simp add: ceiling_gate_def no_capability_def)
  then show ?thesis
    using host_gates_refusal [of st bclk sc "hp_identity req" "hp_task_id req"]
    by (cases "host_gates st bclk sc (hp_identity req) (hp_task_id req)") (auto simp: propose_def split: sum.splits)
qed

text \<open>
  [C11] A host changes nothing but the task its conversation is bound to.  Whatever an adapter observes, proposes
  or requests in a reachable store, the rows and revisions of every other task, the bindings, the deliveries and
  the audit log stay as they are, and the history of the task itself only grows; if anything changed at all then
  the scope was active, not disabled or in shadow mode, and the conversation was bound to exactly that task.  A
  proposal with an operation reserved to operators changes nothing and gets no decision.
\<close>

theorem host_writes_only_its_task:
  assumes "(system_step H)\<^sup>*\<^sup>* empty_store st" and "host_step H sc i k bclk st x st'"
  shows "spares k st st' \<and> beside st' = beside st \<and> evolves st st' \<and>
     (st' \<noteq> st \<longrightarrow> influences_agent (mode (st_audit st) sc) \<and>
        (\<exists>bid. resolve st bclk sc (Some i) None =
           Inr \<lparr>rt_resolution = BOUND, rt_task_id = Some k, rt_reason_code = None, rt_binding_id = bid\<rparr>)) \<and>
     (\<forall>clk req. (\<exists>p\<in>set (hp_operations req). op_kind p \<in> {LOCK_SCHEMA, ADD_CONSTRAINT}) \<longrightarrow>
        fst (propose H bclk clk sc req st) = st \<and> (\<forall>d. snd (propose H bclk clk sc req st) \<noteq> Inr (Decision d)))"
proof -
  have "system_ok H st" using system.inv_reachable [OF refl assms(1)] .
  then have ok: "store_ok H st" by (simp add: system_ok_def)
  have bound: "\<exists>bid. a = \<lparr>rt_resolution = BOUND, rt_task_id = Some k, rt_reason_code = None, rt_binding_id = bid\<rparr>"
    if "resolve st bclk sc (Some i) None = Inr a" "rt_resolution a = BOUND" "rt_task_id a = Some k" for a
    using that by (auto simp: resolve_def explicit_id_def answer_def Let_def split: option.splits if_splits)
  have "influences_agent (mode (st_audit st) sc) \<and>
      (\<exists>bid. resolve st bclk sc (Some i) None =
         Inr \<lparr>rt_resolution = BOUND, rt_task_id = Some k, rt_reason_code = None, rt_binding_id = bid\<rparr>)" if "st' \<noteq> st"
    using host_step_gated [OF assms(2) that]
    by (rule host_gates_pass) (use bound in \<open>auto simp: influences_agent_def\<close>)
  then show ?thesis
    using frame.host_step_rel [OF assms(2) ok refl] apart.host_step_rel [OF assms(2) ok TrueI]
      evolution.host_step_rel [OF assms(2) ok TrueI] forbidden_refused by blast
qed

lemma host_role_denied:
  "snd (lifecycle H clk sc k target actor HOST_AGENT reason st) = Inl (CapabilityDenied HOST_AGENT ''change_lifecycle'') \<and>
   fst (lifecycle H clk sc k target actor HOST_AGENT reason st) = st" if "target \<noteq> EXPIRED"
  using that by (simp add: lifecycle_def require_change_lifecycle)

lemma service_action_denied:
  "fst (service_action a H clk sc k actor HOST_AGENT reason st) = st \<and>
   (\<exists>e. snd (service_action a H clk sc k actor HOST_AGENT reason st) = Inl e)"
  using host_role_denied [of PAUSED H clk sc k actor reason st] host_role_denied [of OPEN H clk sc k actor reason st]
    host_role_denied [of COMPLETED_L H clk sc k actor reason st]
  by (cases a) (auto simp: pause_def resume_def complete_def split: sum.splits prod.splits bool.splits option.splits)

lemma lifecycle_reply_denied: "\<exists>e. snd o1 = Inl e \<Longrightarrow> snd (lifecycle_reply k o1) \<noteq> Inr (LifecycleResult v)"
  by (auto simp: lifecycle_reply_def split: prod.splits sum.splits task_error.splits)

text \<open>
  [C38] A host never changes a lifecycle through the boundary: no request is granted, whatever its revision and its
  action, and the store afterwards is the one the read of the task leaves, which differs at most by an expiry
  that was due.  A request to pause or resume that passes every gate with the right revision is not even answered:
  the missing capability leaves the boundary as an exception.  A request to complete is answered with the unsettled
  requirements that the second read finds; when there are none, it ends in the same exception.
\<close>

theorem host_lifecycle_never_granted:
  assumes "request_lifecycle H bclk clk sc req st = (st', x)"
  shows "(\<forall>v. x \<noteq> Inr (LifecycleResult v)) \<and>
     (st' = st \<or> st' = fst (get_view H clk sc (hl_task_id req) True st)) \<and>
     (\<forall>u v. hl_action req \<noteq> COMPLETE \<and> host_gates st bclk sc (hl_identity req) (hl_task_id req) = Inr (Inr False) \<and>
        get_view H clk sc (hl_task_id req) True st = (u, Inr v) \<and> hl_expected_revision req = ts_revision (tv_state v) \<longrightarrow>
        x = Inl (CapabilityDenied HOST_AGENT ''change_lifecycle'') \<and> st' = u) \<and>
     (\<forall>u v w. hl_action req = COMPLETE \<and> host_gates st bclk sc (hl_identity req) (hl_task_id req) = Inr (Inr False) \<and>
        get_view H clk sc (hl_task_id req) True st = (u, Inr v) \<and> hl_expected_revision req = ts_revision (tv_state v) \<and>
        bind_res (require_task u sc (hl_task_id req)) (view_of u) = Inr w \<longrightarrow>
        st' = u \<and>
        (if completion_blockers (tv_state w) (tv_profile w) = []
         then x = Inl (CapabilityDenied HOST_AGENT ''change_lifecycle'')
         else \<exists>g. x = Inr (CompletionRefused (hl_task_id req) ''required_items_incomplete'' g) \<and>
           gs_blocking_item_ids g = completion_blockers (tv_state w) (tv_profile w)))"
proof -
  let ?k = "hl_task_id req"
  let ?call = "\<lambda>u. service_action (hl_action req) H (\<lambda>i. clk (i + 2)) sc ?k (hl_adapter req) HOST_AGENT
      (if hl_reason req = [] then action_value (hl_action req) else hl_reason req) u"
  obtain u y where v: "get_view H clk sc ?k True st = (u, y)" by fastforce
  have reply: "fst (lifecycle_reply ?k (?call u)) = u" "snd (lifecycle_reply ?k (?call u)) \<noteq> Inr (LifecycleResult w)" for u w
    using service_action_denied lifecycle_reply_eq lifecycle_reply_denied by metis+
  have rest: "snd (lifecycle_reply ?k (u, Inl e)) \<noteq> Inr (LifecycleResult w)" "fst (lifecycle_reply ?k (u, Inl e)) = u" for u e w
    using lifecycle_reply_denied [of "(u, Inl e)"] lifecycle_reply_eq [of ?k "(u, Inl e)"] by auto
  have store: "fst (request_lifecycle H bclk clk sc req st) = st \<or> fst (request_lifecycle H bclk clk sc req st) = u"
    using v reply(1) rest(2) by (auto simp: request_lifecycle_def split: sum.splits bool.splits)
  have never: "snd (request_lifecycle H bclk clk sc req st) \<noteq> Inr (LifecycleResult w)" for w
    using v reply(2) rest(1) host_gates_refusal [of st bclk sc "hl_identity req" ?k]
    by (auto simp: request_lifecycle_def split: sum.splits bool.splits)
  have denied: "x = Inl (CapabilityDenied HOST_AGENT ''change_lifecycle'') \<and> st' = u"
    if "hl_action req \<noteq> COMPLETE" "host_gates st bclk sc (hl_identity req) ?k = Inr (Inr False)"
      "get_view H clk sc ?k True st = (u, Inr w)" "hl_expected_revision req = ts_revision (tv_state w)" for u w
    using that assms
    by (cases "hl_action req")
       (simp_all add: request_lifecycle_def pause_def resume_def lifecycle_def require_change_lifecycle lifecycle_reply_def)
  have completes: "st' = u \<and>
        (if completion_blockers (tv_state w) (tv_profile w) = []
         then x = Inl (CapabilityDenied HOST_AGENT ''change_lifecycle'')
         else \<exists>g. x = Inr (CompletionRefused ?k ''required_items_incomplete'' g) \<and>
           gs_blocking_item_ids g = completion_blockers (tv_state w) (tv_profile w))"
    if "hl_action req = COMPLETE" "host_gates st bclk sc (hl_identity req) ?k = Inr (Inr False)"
      "get_view H clk sc ?k True st = (u, Inr w')" "hl_expected_revision req = ts_revision (tv_state w')"
      "bind_res (require_task u sc ?k) (view_of u) = Inr w" for u w w'
    using that assms
    by (auto simp: request_lifecycle_def complete_def evaluate_completion_def Let_def lifecycle_def require_change_lifecycle
        lifecycle_reply_def guard_signal_of_def)
  show ?thesis
  proof (intro conjI)
    show "\<forall>v. x \<noteq> Inr (LifecycleResult v)" using never assms by simp
    show "st' = st \<or> st' = fst (get_view H clk sc ?k True st)" using store assms v by simp
  qed (use denied completes in blast)+
qed

section \<open>An example\<close>

text \<open>The task of the example is bound to a conversation in an active scope, and its host proposes the delta.\<close>

definition ex_active :: store where
  "ex_active = fst (set_task_state_mode ex_hashes ''e1'' 5 ''enable'' ''op'' ex_scope
     (fst (register_binding 5 ex_scope ex_conversation ''t'' ''op'' ''work'' [] None [] ex_started)))"

definition ex_host_proposal :: host_proposal_request where
  "ex_host_proposal =
     \<lparr>hp_identity = ex_conversation, hp_task_id = ''t'', hp_base_revision = 1, hp_idempotency_key = ''p'',
      hp_operations = pr_operations ex_delta, hp_adapter = ''host'', hp_adapter_version = ''1'', hp_evidence = [],
      hp_reason = ''work''\<rparr>"

definition ex_host_pause :: host_lifecycle_request where
  "ex_host_pause =
     \<lparr>hl_identity = ex_conversation, hl_task_id = ''t'', hl_action = PAUSE, hl_expected_revision = 1,
      hl_idempotency_key = ''p'', hl_adapter = ''host'', hl_adapter_version = ''1'', hl_reason = []\<rparr>"

definition ex_proposed :: "host_reply outcome" where
  "ex_proposed = propose ex_hashes (\<lambda>i. 5) (\<lambda>i. 5) ex_scope ex_host_proposal ex_active"

lemma ex_active_star: "(system_step ex_hashes)\<^sup>*\<^sup>* empty_store ex_active"
proof -
  let ?bound = "fst (register_binding 5 ex_scope ex_conversation ''t'' ''op'' ''work'' [] None [] ex_started)"
  have "system_step ex_hashes empty_store ex_started" using ex_started_reachable by (rule serves)
  moreover have "system_step ex_hashes ex_started ?bound"
    by (rule binds, rule registers_binding) (rule prod.collapse [symmetric])
  moreover have "system_step ex_hashes ?bound ex_active"
    unfolding ex_active_def by (rule switches) (rule prod.collapse [symmetric])
  ultimately show ?thesis by (meson rtranclp.rtrancl_into_rtrancl rtranclp.rtrancl_refl)
qed

theorem database_is_well_formed_witness:
  "set (map rr_task_id (st_revisions ex_active)) = set (map tr_task_id (st_tasks ex_active)) \<and>
   verify_audit_chain ex_hashes (st_audit ex_active) (sc_subject_id ex_scope)"
  using database_is_well_formed [OF ex_active_star, of "sc_subject_id ex_scope"] by simp

lemma ex_active_gates: "host_gates ex_active (\<lambda>i. 5) ex_scope ex_conversation ''t'' = Inr (Inr False)"
  by code_simp

lemma ex_proposed_step:
  "host_step ex_hashes ex_scope ex_conversation ''t'' (\<lambda>i. 5) ex_active (snd ex_proposed) (fst ex_proposed)"
  using proposes [of ex_hashes "\<lambda>i. 5" "\<lambda>i. 5" ex_scope ex_host_proposal ex_active "fst ex_proposed" "snd ex_proposed"]
  by (simp add: ex_proposed_def ex_host_proposal_def)

lemma ex_proposed_changes: "fst ex_proposed \<noteq> ex_active"
proof -
  have "length (st_revisions (fst ex_proposed)) \<noteq> length (st_revisions ex_active)" by code_simp
  then show ?thesis by auto
qed

theorem host_writes_only_its_task_witness:
  "fst ex_proposed \<noteq> ex_active \<and> beside (fst ex_proposed) = beside ex_active \<and> evolves ex_active (fst ex_proposed) \<and>
   influences_agent (mode (st_audit ex_active) ex_scope)"
  using host_writes_only_its_task [OF ex_active_star ex_proposed_step] ex_proposed_changes by simp

lemma ex_active_view: "\<exists>v. snd (get_view ex_hashes (\<lambda>i. 5) ex_scope ''t'' True ex_active) = Inr v \<and> ts_revision (tv_state v) = 1"
proof -
  let ?x = "snd (get_view ex_hashes (\<lambda>i. 5) ex_scope ''t'' True ex_active)"
  have "\<not> isl ?x \<and> ts_revision (tv_state (projr ?x)) = 1" by code_simp
  then show ?thesis by (cases ?x) auto
qed

theorem host_lifecycle_never_granted_witness:
  "request_lifecycle ex_hashes (\<lambda>i. 5) (\<lambda>i. 5) ex_scope ex_host_pause ex_active =
     (fst (get_view ex_hashes (\<lambda>i. 5) ex_scope ''t'' True ex_active), Inl (CapabilityDenied HOST_AGENT ''change_lifecycle''))"
proof -
  obtain u v where v: "get_view ex_hashes (\<lambda>i. 5) ex_scope ''t'' True ex_active = (u, Inr v)" "ts_revision (tv_state v) = 1"
    using ex_active_view by (metis prod.collapse)
  obtain st' x where call: "request_lifecycle ex_hashes (\<lambda>i. 5) (\<lambda>i. 5) ex_scope ex_host_pause ex_active = (st', x)" by fastforce
  have "x = Inl (CapabilityDenied HOST_AGENT ''change_lifecycle'') \<and> st' = u"
    using host_lifecycle_never_granted [OF call] ex_active_gates v by (simp add: ex_host_pause_def)
  then show ?thesis using call v(1) by simp
qed

end
