(* ===== verification/Task_Delivery.thy ===== *)
theory Task_Delivery
  imports Task_System
begin

text \<open>
  What it takes for task bytes to reach a model: the delivery of context at a model boundary, from the switch of
  the scope to the recorded row, and the confirmation that a recorded delivery was exposed.
\<close>

section \<open>Authorized and renderable\<close>

text \<open>The scope is active, the request resolves to the task \<open>k\<close>, and the task is visible in the scope and open.\<close>

definition authorized ::
  "hashes \<Rightarrow> clock \<Rightarrow> clock \<Rightarrow> authority_scope \<Rightarrow> string option \<Rightarrow> host_session_identity option \<Rightarrow> store \<Rightarrow> string \<Rightarrow> store \<Rightarrow>
   task_view \<Rightarrow> bool" where
  "authorized H bclk clk sc task_id identity st k u v \<longleftrightarrow>
     influences_agent (mode (st_audit st) sc) \<and>
     (\<exists>a. resolve st bclk sc identity task_id = Inr a \<and> delivers (rt_resolution a) \<and> rt_task_id a = Some k) \<and>
     get_view H clk sc k True st = (u, Inr v) \<and> ts_lifecycle (tv_state v) = OPEN"

text \<open>Some first part of the field order can be left out so that the rest fits the budget.\<close>

definition renderable :: "int \<Rightarrow> task_view \<Rightarrow> bool" where
  "renderable budget v \<longleftrightarrow>
     (\<exists>m\<le>length (field_order (tv_profile v)).
        int (utf8_bytes (serialize (take m (field_order (tv_profile v))) (tv_state v) (tv_profile v))) \<le> budget)"

lemma prepare_cases:
  obtains c where "prepare sha_text (tv_state v) (tv_profile v) sc context_id at [] budget 1 = Inr c"
    "renderable budget v" "cp_disposition c = INJECTED" "cp_context c \<noteq> []" "int (utf8_bytes (cp_context c)) \<le> budget"
    "cp_context c = serialize (cp_omitted_fields c) (tv_state v) (tv_profile v)" "cp_revision c = ts_revision (tv_state v)"
    "cp_context_sha256 c \<noteq> []"
  | c where "prepare sha_text (tv_state v) (tv_profile v) sc context_id at [] budget 1 = Inr c"
    "\<not> renderable budget v" "cp_disposition c = WITHHELD" "cp_context c = []" "cp_context_sha256 c = []"
proof -
  let ?s = "tv_state v" and ?p = "tv_profile v"
  obtain n body where red: "reduce_fields (\<lambda>omit. serialize omit ?s ?p) budget [] (serialize [] ?s ?p) (field_order ?p) = (take n (field_order ?p), body)"
    and n: "body = serialize (take n (field_order ?p)) ?s ?p"
      "budget < int (utf8_bytes body) \<Longrightarrow> \<forall>m\<le>length (field_order ?p). budget < int (utf8_bytes (serialize (take m (field_order ?p)) ?s ?p))"
    using reduce_fields_fits [of ?s ?p budget] by metis
  show thesis
  proof (cases "budget < int (utf8_bytes body)")
    case True
    then have "\<not> renderable budget v" using n(2) by (auto simp: renderable_def not_le)
    then show thesis
      using that(2) red True
      by (simp add: prepare_def withhold_def checked_package_def TaskContextPackage_ok_def context_reason_codes)
  next
    case False
    have "renderable budget v"
      unfolding renderable_def
      by (rule exI [of _ "min n (length (field_order ?p))"]) (use False n(1) in \<open>auto simp: min_def take_all\<close>)
    then show thesis
      using that(1) red False n(1) serialize_nonempty
      by (simp add: prepare_def checked_package_def TaskContextPackage_ok_def)
  qed
qed

lemma eligible_iff: "eligibility_reason (Some l) True = (if l = OPEN then None else Some ''task_context_not_eligible'')"
  by (cases l) (simp_all add: eligibility_reason_def lifecycle_terminal_def)

text \<open>A delivered view leaves one new row, and bytes exactly when the task is open and renderable.\<close>

lemma deliver_view_result:
  assumes "deliver_view H sha_text sc k context_id at budget run v st = (st', Inr (c, d))"
  shows "(\<exists>x. st_deliveries st' = st_deliveries st @ [x] \<and> d = Some (dl_delivery_id x) \<and> \<not> dl_exposed x \<and> dl_task_id x = k \<and>
      dl_scope x = sc \<and> dl_disposition x = cp_disposition c \<and> dl_revision x = cp_revision c \<and>
      dl_context_sha256 x = (if cp_context c = [] then None else Some (cp_context_sha256 c))) \<and>
    st_tasks st' = st_tasks st \<and>
    (cp_context c \<noteq> [] \<longleftrightarrow> ts_lifecycle (tv_state v) = OPEN \<and> renderable budget v) \<and>
    (cp_context c = [] \<longrightarrow> cp_disposition c = WITHHELD) \<and>
    (cp_context c \<noteq> [] \<longrightarrow> cp_disposition c = INJECTED \<and> int (utf8_bytes (cp_context c)) \<le> budget \<and>
      cp_context c = serialize (cp_omitted_fields c) (tv_state v) (tv_profile v) \<and> cp_revision c = ts_revision (tv_state v))"
proof (cases "ts_lifecycle (tv_state v) = OPEN")
  case True
  show ?thesis
    by (rule prepare_cases [of sha_text v sc context_id at budget])
       (use assms True in \<open>auto simp: deliver_view_def eligible_iff insert_task_delivery_def delivery_of_def split: if_splits\<close>)
next
  case False
  then show ?thesis
    using assms
    by (auto simp: deliver_view_def eligible_iff insert_task_delivery_def delivery_of_def withhold_def checked_package_def split: if_splits)
qed

lemma withheld_result:
  assumes "withheld_task_context H sc k context_id at reasons run st = (st', Inr (c, d))"
  shows "cp_context c = [] \<and> d = None \<and>
    (st_deliveries st' = st_deliveries st \<or>
     (\<exists>x. st_deliveries st' = st_deliveries st @ [x] \<and> dl_disposition x = WITHHELD \<and> dl_context_sha256 x = None))"
  using assms
  by (auto simp: withheld_task_context_def insert_task_delivery_def delivery_of_def withhold_def checked_package_def
      split: if_splits sum.splits)

lemma get_view_row:
  assumes "get_view H clk sc k True st = (u, Inr v)" and ok: "store_ok H st"
  shows "tv_task v \<in> set (st_tasks u) \<and> tr_task_id (tv_task v) = k \<and> tr_scope (tv_task v) = sc \<and> shows_head (tv_task v) (tv_state v)"
proof -
  obtain r where r: "r \<in> set (st_tasks st)" "tr_task_id r = k" "tr_scope r = sc" "require_task st sc k = Inr r"
    using assms(1) require_task_Inr by (auto simp: get_view_def split: sum.splits)
  obtain r' where r': "refresh H clk sc r st = (u, Inr r')" "view_of u r' = Inr v"
    using assms(1) r(4) by (auto simp: get_view_def split: prod.splits sum.splits)
  have row: "r' \<in> set (st_tasks u)" "tr_task_id r' = k" "tr_scope r' = sc" using refresh_row [OF r'(1) r(1,3)] r(2) by auto
  then show ?thesis using view_of_stored [OF refresh_okD [OF r'(1) ok] row(1) r'(2)] by simp
qed

lemma answer_task: "resolve st bclk sc identity task_id = Inr a \<Longrightarrow> delivers (rt_resolution a) \<Longrightarrow> \<exists>k. rt_task_id a = Some k"
  by (auto simp: resolve_def answer_def ResolvedTask_ok_def truthy_def Let_def split: option.splits if_splits)

text \<open>The call either withholds before any task is read, or delivers the view of the resolved task.\<close>

lemma prepare_task_context_cases:
  assumes "prepare_task_context H sha_text ctx_digest at bclk clk sc task_id run identity budget st = (st', Inr (c, d))"
    and ok: "system_ok H st"
  obtains (withheld) u j reasons context_id where
      "withheld_task_context H sc j context_id at reasons run u = (st', Inr (c, d))" "st_deliveries u = st_deliveries st"
      "\<not> (\<exists>k u v. authorized H bclk clk sc task_id identity st k u v)"
  | (viewed) a k u v context_id where
      "influences_agent (mode (st_audit st) sc)" "resolve st bclk sc identity task_id = Inr a" "delivers (rt_resolution a)"
      "rt_task_id a = Some k" "get_view H clk sc k True st = (u, Inr v)" "st_deliveries u = st_deliveries st"
      "deliver_view H sha_text sc k context_id at budget run v u = (st', Inr (c, d))"
proof -
  have sok: "store_ok H st" using ok by (simp add: system_ok_def)
  have same: "st_deliveries u = st_deliveries st" if "get_view H clk sc k True st = (u, y)" for k u y
    using apart.get_view_rel [OF that sok TrueI] by (simp add: beside_def)
  show thesis
  proof (cases "influences_agent (mode (st_audit st) sc)")
    case False
    then show thesis
      using assms(1) withheld [of _ _ _ st] by (auto simp: prepare_task_context_def Let_def authorized_def)
  next
    case on: True
    then obtain a where a: "resolve st bclk sc identity task_id = Inr a"
      using assms(1) by (auto simp: prepare_task_context_def Let_def split: sum.splits)
    show thesis
    proof (cases "delivers (rt_resolution a)")
      case False
      then show thesis
        using assms(1) on a withheld [of _ _ _ st] by (auto simp: prepare_task_context_def Let_def authorized_def)
    next
      case True
      then obtain k where k: "rt_task_id a = Some k" using answer_task [OF a] by blast
      obtain u y where v: "get_view H clk sc k True st = (u, y)" by fastforce
      show thesis
      proof (cases y)
        case (Inr v')
        then show thesis
          using assms(1) on a True k v same [OF v] viewed by (auto simp: prepare_task_context_def Let_def)
      next
        case (Inl e)
        then show thesis
          using assms(1) on a True k v same [OF v] withheld [of _ _ _ u]
          by (cases e) (auto simp: prepare_task_context_def Let_def authorized_def)
      qed
    qed
  qed
qed

text \<open>
  [C18] Task bytes reach a model only when they are authorized, and then whenever they can be rendered.  In every
  reachable store a prepared context has bytes exactly when the scope is active, the request resolves to one task
  (named explicitly or bound to the conversation, without conflict), that task is visible in the scope and open
  after an expiry that was due, and some permitted reduction of it fits the budget.  The bytes are then the
  serialized head snapshot of that task, within the budget, and one unexposed delivery of that revision with
  their digest is recorded; without bytes at most one withheld delivery without digest is.
\<close>

theorem delivery_is_authorized:
  assumes "(system_step H)\<^sup>*\<^sup>* empty_store st"
    and "prepare_task_context H sha_text ctx_digest at bclk clk sc task_id run identity budget st = (st', Inr (c, d))"
  shows "(cp_context c \<noteq> [] \<longleftrightarrow>
      (\<exists>k u v. authorized H bclk clk sc task_id identity st k u v \<and> renderable budget v)) \<and>
    (\<forall>k u v. authorized H bclk clk sc task_id identity st k u v \<and> renderable budget v \<longrightarrow>
      tv_task v \<in> set (st_tasks st') \<and> tr_task_id (tv_task v) = k \<and> tr_scope (tv_task v) = sc \<and>
      tr_lifecycle (tv_task v) = OPEN \<and>
      int (utf8_bytes (cp_context c)) \<le> budget \<and> cp_context c = serialize (cp_omitted_fields c) (tv_state v) (tv_profile v) \<and>
      (\<exists>x. st_deliveries st' = st_deliveries st @ [x] \<and> d = Some (dl_delivery_id x) \<and> \<not> dl_exposed x \<and> dl_task_id x = k \<and>
         dl_scope x = sc \<and> dl_disposition x = INJECTED \<and> dl_revision x = tr_head_revision (tv_task v) \<and>
         dl_context_sha256 x = Some (cp_context_sha256 c))) \<and>
    (cp_context c = [] \<longrightarrow> st_deliveries st' = st_deliveries st \<or>
      (\<exists>x. st_deliveries st' = st_deliveries st @ [x] \<and> dl_disposition x = WITHHELD \<and> dl_context_sha256 x = None))"
proof -
  have ok: "system_ok H st" using system.inv_reachable [OF refl assms(1)] .
  then have sok: "store_ok H st" by (simp add: system_ok_def)
  from assms(2) ok show ?thesis
  proof (cases rule: prepare_task_context_cases)
    case (withheld u j reasons context_id)
    then show ?thesis using withheld_result [OF withheld(1)] by auto
  next
    case (viewed a k u v context_id)
    note del = deliver_view_result [OF viewed(7)] and row = get_view_row [OF viewed(5) sok]
    have auth: "authorized H bclk clk sc task_id identity st k' u' v' \<longleftrightarrow>
        k' = k \<and> u' = u \<and> v' = v \<and> ts_lifecycle (tv_state v) = OPEN" for k' u' v'
      using viewed by (auto simp: authorized_def)
    have head: "ts_lifecycle (tv_state v) = tr_lifecycle (tv_task v)" "ts_revision (tv_state v) = tr_head_revision (tv_task v)"
      using row by (simp_all add: shows_head_def)
    show ?thesis
      unfolding auth using del row head viewed(6) by (cases "cp_context c = []") auto
  qed
qed

section \<open>Exposure\<close>

lemma expose_index:
  assumes "distinct (map dl_delivery_id xs)" and "i < length xs" and "dl_delivery_id (xs ! i) = d" and "\<not> dl_exposed (xs ! i)"
  shows "map (\<lambda>r. if dl_delivery_id r = d \<and> \<not> dl_exposed r then r\<lparr>dl_exposed := True\<rparr> else r) xs =
      xs[i := (xs ! i)\<lparr>dl_exposed := True\<rparr>] \<and>
    filter (\<lambda>r. dl_delivery_id r = d \<and> \<not> dl_exposed r) xs = [xs ! i]"
  using assms
proof (induction xs arbitrary: i)
  case (Cons x xs)
  show ?case
  proof (cases i)
    case 0
    then have "dl_delivery_id y \<noteq> d" if "y \<in> set xs" for y
      using Cons.prems that by (simp add: image_iff) metis
    then show ?thesis using 0 Cons.prems by (auto simp: filter_empty_conv intro: map_idI)
  next
    case (Suc j)
    then have "dl_delivery_id x \<noteq> d" using Cons.prems nth_mem [of j xs] by (auto simp: image_iff)
    then show ?thesis using Cons.IH [of j] Cons.prems Suc by simp
  qed
qed simp

text \<open>
  An exposure is confirmed at most once.  Confirming a delivery in a reachable store succeeds exactly when
  there is an unexposed delivery with that identifier; it marks that one row, leaves everything else alone, and
  confirming again changes nothing and reports that nothing was confirmed.
\<close>

theorem exposure_confirmed_once:
  assumes "(system_step H)\<^sup>*\<^sup>* empty_store st" and "confirm_task_exposure d st = (st', b)"
  shows "(b \<longleftrightarrow> (\<exists>r\<in>set (st_deliveries st). dl_delivery_id r = d \<and> \<not> dl_exposed r)) \<and>
    (b \<longrightarrow> (\<exists>i<length (st_deliveries st). dl_delivery_id (st_deliveries st ! i) = d \<and>
       st' = st\<lparr>st_deliveries := (st_deliveries st)[i := (st_deliveries st ! i)\<lparr>dl_exposed := True\<rparr>]\<rparr>)) \<and>
    (\<not> b \<longrightarrow> st' = st) \<and>
    confirm_task_exposure d st' = (st', False)"
proof -
  let ?D = "st_deliveries st" and ?open = "\<lambda>r. dl_delivery_id r = d \<and> \<not> dl_exposed r"
  let ?f = "\<lambda>r. if ?open r then r\<lparr>dl_exposed := True\<rparr> else r"
  have ok: "distinct (map dl_delivery_id ?D)" using system.inv_reachable [OF refl assms(1)] by (simp add: system_ok_def)
  have st': "st' = st\<lparr>st_deliveries := map ?f ?D\<rparr>" and b: "b \<longleftrightarrow> length (filter ?open ?D) = 1"
    using assms(2) by (simp_all add: confirm_task_exposure_def mark_task_delivery_exposed_def)
  have none: "filter ?open (map ?f xs) = []" for xs by (induction xs) auto
  have "?f (?f r) = ?f r" for r by simp
  then have "map ?f (map ?f ?D) = map ?f ?D" by simp
  then have again: "confirm_task_exposure d st' = (st', False)"
    using none [of ?D] by (simp add: confirm_task_exposure_def mark_task_delivery_exposed_def st' del: map_map)
  show ?thesis
  proof (cases "\<exists>r\<in>set ?D. ?open r")
    case True
    then obtain i where i: "i < length ?D" "?open (?D ! i)" by (metis in_set_conv_nth)
    show ?thesis
      using expose_index [OF ok i(1)] i b again st' True by auto
  next
    case False
    then have "filter ?open ?D = []" by (simp add: filter_empty_conv)
    moreover have "map ?f ?D = ?D" using False by (intro map_idI) auto
    ultimately show ?thesis using b st' again False by auto
  qed
qed

section \<open>An example\<close>

text \<open>The context of the task bound to the conversation, with room for all of it.\<close>

definition ex_view :: "task_view outcome" where
  "ex_view = get_view ex_hashes (\<lambda>i. 5) ex_scope ''t'' True ex_active"

definition ex_budget :: int where
  "ex_budget = int (utf8_bytes (serialize [] (tv_state (projr (snd ex_view))) (tv_profile (projr (snd ex_view)))))"

definition ex_delivered :: "(task_context_package \<times> string option) outcome" where
  "ex_delivered = prepare_task_context ex_hashes (\<lambda>t. ''digest'') (\<lambda>s k r. ''id'') 5 (\<lambda>i. 5) (\<lambda>i. 5) ex_scope None (Some ''run'')
     (Some ex_conversation) ex_budget ex_active"

lemma ex_active_resolve:
  "influences_agent (mode (st_audit ex_active) ex_scope) \<and>
   (case resolve ex_active (\<lambda>i. 5) ex_scope (Some ex_conversation) None of
      Inl e \<Rightarrow> False | Inr a \<Rightarrow> delivers (rt_resolution a) \<and> rt_task_id a = Some ''t'')"
  by code_simp

lemma ex_view_facts:
  "case ex_view of
     (u, Inl e) \<Rightarrow> False
   | (u, Inr v) \<Rightarrow> ts_lifecycle (tv_state v) = OPEN \<and> has_task u ''t'' \<and> st_deliveries u = []"
  by code_simp

lemma ex_view_cases:
  obtains u v a where "ex_view = (u, Inr v)" "ts_lifecycle (tv_state v) = OPEN" "has_task u ''t''" "st_deliveries u = []"
    "resolve ex_active (\<lambda>i. 5) ex_scope (Some ex_conversation) None = Inr a" "delivers (rt_resolution a)" "rt_task_id a = Some ''t''"
  using ex_view_facts ex_active_resolve by (auto split: prod.splits sum.splits)

lemma ex_authorized:
  "authorized ex_hashes (\<lambda>i. 5) (\<lambda>i. 5) ex_scope None (Some ex_conversation) ex_active ''t'' (fst ex_view) (projr (snd ex_view))"
proof (rule ex_view_cases)
  fix u v a
  assume v: "ex_view = (u, Inr v)" "ts_lifecycle (tv_state v) = OPEN"
    and a: "resolve ex_active (\<lambda>i. 5) ex_scope (Some ex_conversation) None = Inr a" "delivers (rt_resolution a)" "rt_task_id a = Some ''t''"
  have "get_view ex_hashes (\<lambda>i. 5) ex_scope ''t'' True ex_active = (u, Inr v)" using v(1) by (simp only: ex_view_def)
  then show ?thesis unfolding v(1) using v(2) a ex_active_resolve by (simp add: authorized_def)
qed

lemma ex_renderable: "renderable ex_budget (projr (snd ex_view))"
  unfolding renderable_def ex_budget_def by (rule exI [of _ 0]) simp

lemma ex_delivered_result: "\<exists>c d. ex_delivered = (fst ex_delivered, Inr (c, d))"
proof -
  obtain u v a where v: "ex_view = (u, Inr v)"
    and facts: "ts_lifecycle (tv_state v) = OPEN" "has_task u ''t''" "st_deliveries u = []"
    and a: "resolve ex_active (\<lambda>i. 5) ex_scope (Some ex_conversation) None = Inr a" "delivers (rt_resolution a)" "rt_task_id a = Some ''t''"
    by (rule ex_view_cases)
  have "\<exists>c d. snd (deliver_view ex_hashes (\<lambda>t. ''digest'') ex_scope ''t'' context_id 5 ex_budget (Some ''run'') v u) = Inr (c, d)"
    for context_id
    using facts
    by (cases rule: prepare_cases [of "\<lambda>t. ''digest''" v ex_scope context_id 5 ex_budget])
       (auto simp: deliver_view_def eligible_iff insert_task_delivery_def delivery_of_def)
  moreover have "snd ex_delivered =
      snd (deliver_view ex_hashes (\<lambda>t. ''digest'') ex_scope ''t'' ''taskctx_id'' 5 ex_budget (Some ''run'') v u)"
    using ex_active_resolve a v unfolding ex_delivered_def ex_view_def by (simp add: prepare_task_context_def Let_def)
  ultimately show ?thesis by (metis prod.collapse)
qed

theorem delivery_is_authorized_witness:
  "\<exists>c d. ex_delivered = (fst ex_delivered, Inr (c, d)) \<and> cp_context c \<noteq> [] \<and> int (utf8_bytes (cp_context c)) \<le> ex_budget"
proof -
  obtain c d where cd: "ex_delivered = (fst ex_delivered, Inr (c, d))" using ex_delivered_result by blast
  then have call: "prepare_task_context ex_hashes (\<lambda>t. ''digest'') (\<lambda>s k r. ''id'') 5 (\<lambda>i. 5) (\<lambda>i. 5) ex_scope None (Some ''run'')
     (Some ex_conversation) ex_budget ex_active = (fst ex_delivered, Inr (c, d))" by (simp add: ex_delivered_def)
  show ?thesis using delivery_is_authorized [OF ex_active_star call] cd ex_authorized ex_renderable by blast
qed

text \<open>A refusal in a scope that is not active is recorded too, and can be confirmed once.\<close>

definition ex_refused :: "(task_context_package \<times> string option) outcome" where
  "ex_refused = prepare_task_context ex_hashes (\<lambda>t. ''digest'') (\<lambda>s k r. ''id'') 5 (\<lambda>i. 5) (\<lambda>i. 5) ex_scope (Some ''t'') None None 4000
     ex_started"

lemma ex_refused_star: "(system_step ex_hashes)\<^sup>*\<^sup>* empty_store (fst ex_refused)"
proof -
  have "system_step ex_hashes ex_started (fst ex_refused)"
    unfolding ex_refused_def by (rule prepares) (rule prod.collapse [symmetric])
  then show ?thesis using serves [OF ex_started_reachable] by (meson rtranclp.rtrancl_into_rtrancl rtranclp.rtrancl_refl)
qed

lemma ex_refused_rows: "map (\<lambda>r. (dl_exposed r, dl_task_id r)) (st_deliveries (fst ex_refused)) = [(False, ''t'')]"
  by code_simp

theorem exposure_confirmed_once_witness:
  "\<exists>d. snd (confirm_task_exposure d (fst ex_refused)) \<and>
     \<not> snd (confirm_task_exposure d (fst (confirm_task_exposure d (fst ex_refused))))"
proof -
  obtain r where r: "st_deliveries (fst ex_refused) = [r]" "\<not> dl_exposed r" using ex_refused_rows by auto
  obtain u b where u: "confirm_task_exposure (dl_delivery_id r) (fst ex_refused) = (u, b)" by fastforce
  have "b" "confirm_task_exposure (dl_delivery_id r) u = (u, False)"
    using exposure_confirmed_once [OF ex_refused_star u] r(2) unfolding r(1) by auto
  then show ?thesis using u by (intro exI [of _ "dl_delivery_id r"]) simp
qed

end
