(* ===== verification/Task_Observability.thy ===== *)
theory Task_Observability
  imports Task_System
begin

text \<open>
  What an operator sees across tasks (\<^verbatim>\<open>src/atmem/task_state/observability.py\<close>): counters, ages, latency, integrity.
  The dictionaries of the result are records and association lists in the order the code gives them.  A percentile
  multiplies a double below one by a count, so the product is rounded to 53 bits and then to an integer.
\<close>

section \<open>Percentiles\<close>

fun bit_length :: "nat \<Rightarrow> nat" where
  "bit_length n = (if n = 0 then 0 else Suc (bit_length (n div 2)))"

declare bit_length.simps [simp del]

text \<open>\<^verbatim>\<open>round(fraction * k)\<close>, for the double \<open>m / 2 ^ 53\<close>.\<close>

definition round_times :: "nat \<Rightarrow> nat \<Rightarrow> nat" where
  "round_times m k =
     (let p = m * k; t = bit_length p - 53
      in round_half_even (round_half_even p (2 ^ t) * 2 ^ t) (2 ^ 53))"

definition FRACTION_50 :: nat where "FRACTION_50 = 2 ^ 52"
definition FRACTION_95 :: nat where "FRACTION_95 = round_half_even (95 * 2 ^ 53) 100"

definition percentile :: "int list \<Rightarrow> nat \<Rightarrow> int option" where
  "percentile vs m =
     (if vs = [] then None else Some (sort vs ! min (length vs - 1) (round_times m (length vs - 1))))"

section \<open>The snapshot\<close>

text \<open>\<^verbatim>\<open>_expiry_status\<close>: the report of the service with a reason for live tasks only.\<close>

definition observed_expiry :: "task_row \<Rightarrow> timestamp \<Rightarrow> expiry_report" where
  "observed_expiry r now =
     (let x = expiry_status r now
      in if lifecycle_terminal (tr_lifecycle r) then x\<lparr>xr_due_reason := None\<rparr> else x)"

definition integrity_problems :: "store \<Rightarrow> task_row \<Rightarrow> string list" where
  "integrity_problems st r =
     (let numbers = map rr_revision (list_task_revisions st (tr_task_id r) 1000) in
      if numbers = [] then [tr_task_id r @ '': no revisions'']
      else (if numbers \<noteq> map int [1..<length numbers + 1] then [tr_task_id r @ '': revision chain has a gap''] else []) @
           (if tr_head_revision r \<noteq> fold max numbers (hd numbers)
            then [tr_task_id r @ '': head does not match the latest revision''] else []))"

record overdue_task =
  od_task_id :: string
  od_reason :: "string option"
  od_absolute_age_ms :: int
  od_no_progress_age_ms :: int

record observability =
  ob_observed_at :: timestamp
  ob_scope :: "authority_scope option"
  ob_total :: nat
  ob_by_lifecycle :: "(task_lifecycle \<times> nat) list"
  ob_open_or_paused :: nat
  ob_by_outcome :: "(step_outcome \<times> nat) list"
  ob_by_reason :: "(string \<times> nat) list"
  ob_stale_conflicts :: nat
  ob_fallback_steps :: nat
  ob_guards :: "(guard_type \<times> nat) list"
  ob_prepared :: nat
  ob_exposed :: nat
  ob_withheld :: nat
  ob_p50 :: "int option"
  ob_p95 :: "int option"
  ob_samples :: nat
  ob_last_progress :: "timestamp option"
  ob_no_progress_age_ms :: "int option"
  ob_overdue :: "overdue_task list"
  ob_bindings_active :: nat
  ob_bindings_revoked :: nat
  ob_problems :: "string list"

definition count_where :: "('a \<Rightarrow> bool) \<Rightarrow> 'a list \<Rightarrow> nat" where
  "count_where P xs = length (filter P xs)"

definition observed_tasks :: "store \<Rightarrow> authority_scope option \<Rightarrow> int \<Rightarrow> task_row list" where
  "observed_tasks st sc limit =
     list_tasks st (map_option sc_subject_id sc) (map_option sc_agent_id sc) (map_option sc_workspace_id sc) [] None limit"

definition observed_steps :: "store \<Rightarrow> task_row list \<Rightarrow> step_row list" where
  "observed_steps st tasks = concat (map (\<lambda>r. list_task_steps st (tr_task_id r) 1000) tasks)"

definition observed_deliveries :: "store \<Rightarrow> task_row list \<Rightarrow> delivery_row list" where
  "observed_deliveries st tasks = concat (map (\<lambda>r. list_task_deliveries st (tr_task_id r) 1000) tasks)"

text \<open>The later of two stored texts is the later instant, since the texts sort like the instants.\<close>

definition last_progress :: "task_row list \<Rightarrow> timestamp option" where
  "last_progress tasks =
     fold (\<lambda>r m. case m of None \<Rightarrow> Some (tr_last_progress_at r)
                       | Some p \<Rightarrow> if p < tr_last_progress_at r then Some (tr_last_progress_at r) else m) tasks None"

definition snapshot :: "timestamp \<Rightarrow> store \<Rightarrow> authority_scope option \<Rightarrow> int \<Rightarrow> observability" where
  "snapshot now st sc limit =
     (let tasks = observed_tasks st sc limit;
          steps = observed_steps st tasks;
          dels = observed_deliveries st tasks;
          refused = filter (\<lambda>d. dl_disposition d \<noteq> INJECTED) dels;
          reasons = concat (map sp_reason_codes steps) @ concat (map dl_reason_codes refused);
          bindings = (case sc of None \<Rightarrow> [] | Some s \<Rightarrow> list_session_bindings st s None True);
          open_now = count_where (\<lambda>r. tr_lifecycle r = OPEN) tasks;
          paused = count_where (\<lambda>r. tr_lifecycle r = PAUSED) tasks
      in \<lparr>ob_observed_at = now, ob_scope = sc, ob_total = length tasks,
          ob_by_lifecycle = map (\<lambda>l. (l, count_where (\<lambda>r. tr_lifecycle r = l) tasks)) [OPEN, PAUSED, COMPLETED_L, CANCELLED, EXPIRED],
          ob_open_or_paused = open_now + paused,
          ob_by_outcome = map (\<lambda>x. (x, count_where (\<lambda>s. sp_outcome s = x) steps)) [ACCEPTED, REJECTED, CONFLICT, NO_CHANGE],
          ob_by_reason = map (\<lambda>w. (w, count_where (\<lambda>v. v = w) reasons)) (sort (remdups reasons)),
          ob_stale_conflicts = count_where (\<lambda>w. w = ''stale_base_revision'') (concat (map sp_reason_codes steps)),
          ob_fallback_steps = count_where (\<lambda>s. suffix ''_fallback'' (sp_step_kind s)) steps,
          ob_guards = map (\<lambda>g. (g, 0)) [NO_PROGRESS, DEPENDENCY_UNSATISFIED, OUT_OF_SCOPE, COMPLETION_NOT_ALLOWED],
          ob_prepared = length dels,
          ob_exposed = count_where (\<lambda>d. dl_disposition d = INJECTED \<and> dl_exposed d) dels,
          ob_withheld = length refused,
          ob_p50 = percentile (map sp_duration_ms steps) FRACTION_50,
          ob_p95 = percentile (map sp_duration_ms steps) FRACTION_95,
          ob_samples = length steps,
          ob_last_progress = last_progress tasks,
          ob_no_progress_age_ms = map_option (\<lambda>p. elapsed_ms p now) (last_progress tasks),
          ob_overdue =
            concat (map (\<lambda>r. let x = observed_expiry r now in
              if xr_due_reason x = None then []
              else [\<lparr>od_task_id = tr_task_id r, od_reason = xr_due_reason x, od_absolute_age_ms = xr_absolute_age_ms x,
                     od_no_progress_age_ms = xr_no_progress_age_ms x\<rparr>]) tasks),
          ob_bindings_active = count_where binding_active bindings,
          ob_bindings_revoked = count_where (\<lambda>b. \<not> binding_active b) bindings,
          ob_problems = concat (map (integrity_problems st) tasks)\<rparr>)"

section \<open>The detail of one task\<close>

record task_detail =
  td_lifecycle :: task_lifecycle
  td_revision :: int
  td_last_progress_at :: timestamp
  td_expiry :: expiry_report
  td_decisions :: "(nat \<times> string \<times> step_outcome \<times> string list \<times> int \<times> int option \<times> int \<times> timestamp) list"
  td_deliveries :: "(nat \<times> int \<times> context_disposition \<times> string list \<times> bool \<times> timestamp) list"

definition last_20 :: "'a list \<Rightarrow> 'a list" where
  "last_20 xs = drop (length xs - 20) xs"

definition task_detail_of :: "timestamp \<Rightarrow> store \<Rightarrow> authority_scope \<Rightarrow> string \<Rightarrow> int \<Rightarrow> task_detail option" where
  "task_detail_of now st sc k limit =
     (case get_task st sc k of
        None \<Rightarrow> None
      | Some r \<Rightarrow>
          Some \<lparr>td_lifecycle = tr_lifecycle r, td_revision = tr_head_revision r, td_last_progress_at = tr_last_progress_at r,
                td_expiry = observed_expiry r now,
                td_decisions = map (\<lambda>s. (sp_sequence s, sp_step_kind s, sp_outcome s, sp_reason_codes s, sp_base_revision s,
                    sp_resulting_revision s, sp_duration_ms s, sp_recorded_at s)) (last_20 (list_task_steps st k limit)),
                td_deliveries = map (\<lambda>d. (dl_sequence d, dl_revision d, dl_disposition d, dl_reason_codes d, dl_exposed d,
                    dl_prepared_at d)) (last_20 (list_task_deliveries st k limit))\<rparr>)"

section \<open>Isolation\<close>

text \<open>The store without the other scopes, and without everything that says what a task is about or who acted.\<close>

definition blank_task :: "task_row \<Rightarrow> task_row" where
  "blank_task r =
     r\<lparr>tr_goal := [], tr_profile_id := [], tr_profile_version := [], tr_policy_generation := 0, tr_updated_at := 0,
       tr_clock_source := [], tr_terminal_reason := None, tr_continues_task_id := None, tr_idempotency_key := []\<rparr>"

definition blank_revision :: "revision_row \<Rightarrow> revision_row" where
  "blank_revision v =
     v\<lparr>rr_parent_revision := None, rr_state := JNull, rr_state_sha256 := [], rr_semantic_sha256 := [], rr_actor := [],
       rr_reason_codes := [], rr_evidence := []\<rparr>"

definition blank_step :: "step_row \<Rightarrow> step_row" where
  "blank_step s =
     s\<lparr>sp_step_id := [], sp_proposal_id := None, sp_base_revision := 0, sp_resulting_revision := None,
       sp_action_fingerprint := None, sp_actor := []\<rparr>"

definition blank_delivery :: "delivery_row \<Rightarrow> delivery_row" where
  "blank_delivery d =
     d\<lparr>dl_delivery_id := [], dl_revision := 0, dl_context_sha256 := None, dl_cache_key := None, dl_preparation_id := None\<rparr>"

definition blank_binding :: "session_binding \<Rightarrow> session_binding" where
  "blank_binding b =
     b\<lparr>sb_identity := \<lparr>hs_host_type = [], hs_session_key = [], hs_session_epoch = []\<rparr>, sb_task_id := [], sb_actor := [],
       sb_reason := [], sb_source := [], sb_evidence := [], sb_revoked_by := None, sb_revoked_reason := None\<rparr>"

definition counters_of :: "authority_scope \<Rightarrow> store \<Rightarrow> store" where
  "counters_of sc st =
     (let own = (\<lambda>k. list_ex (\<lambda>r. tr_task_id r = k \<and> tr_scope r = sc) (st_tasks st)) in
      empty_store\<lparr>st_tasks := map blank_task (filter (\<lambda>r. tr_scope r = sc) (st_tasks st)),
                  st_revisions := map blank_revision (filter (\<lambda>v. own (rr_task_id v)) (st_revisions st)),
                  st_steps := map blank_step (filter (\<lambda>s. own (sp_task_id s)) (st_steps st)),
                  st_deliveries := map blank_delivery (filter (\<lambda>d. own (dl_task_id d)) (st_deliveries st)),
                  st_bindings := map blank_binding (filter (\<lambda>b. sb_scope b = sc) (st_bindings st))\<rparr>)"

lemma sort_key_map: "sort_key f (map g xs) = map g (sort_key (\<lambda>x. f (g x)) xs)"
proof -
  have "insort_key f (g x) (map g ys) = map g (insort_key (\<lambda>x. f (g x)) x ys)" for x ys by (induction ys) auto
  then show ?thesis by (induction xs) auto
qed

lemma count_where_map: "count_where P (map g xs) = count_where (\<lambda>x. P (g x)) xs"
  by (simp add: count_where_def filter_map o_def)

lemma blank_fields [simp]:
  "tr_task_id (blank_task r) = tr_task_id r" "tr_scope (blank_task r) = tr_scope r" "tr_lifecycle (blank_task r) = tr_lifecycle r"
  "tr_head_revision (blank_task r) = tr_head_revision r" "tr_last_progress_at (blank_task r) = tr_last_progress_at r"
  "age_order (blank_task r) = age_order r" "observed_expiry (blank_task r) now = observed_expiry r now"
  "rr_task_id (blank_revision v) = rr_task_id v" "rr_revision (blank_revision v) = rr_revision v"
  "sp_task_id (blank_step s) = sp_task_id s" "sp_outcome (blank_step s) = sp_outcome s" "sp_sequence (blank_step s) = sp_sequence s"
  "sp_step_kind (blank_step s) = sp_step_kind s" "sp_reason_codes (blank_step s) = sp_reason_codes s"
  "sp_duration_ms (blank_step s) = sp_duration_ms s"
  "dl_task_id (blank_delivery d) = dl_task_id d" "dl_sequence (blank_delivery d) = dl_sequence d"
  "dl_disposition (blank_delivery d) = dl_disposition d" "dl_reason_codes (blank_delivery d) = dl_reason_codes d"
  "dl_exposed (blank_delivery d) = dl_exposed d"
  "sb_scope (blank_binding b) = sb_scope b" "sb_binding_id (blank_binding b) = sb_binding_id b"
  "sb_registered_at (blank_binding b) = sb_registered_at b" "binding_active (blank_binding b) = binding_active b"
  by (simp_all add: blank_task_def blank_revision_def blank_step_def blank_delivery_def blank_binding_def age_order_def
      observed_expiry_def expiry_status_def binding_active_def cong del: if_weak_cong)

lemma observed_in_scope:
  "observed_tasks st (Some sc) limit = take (clamp limit 500) (sort_key age_order (filter (\<lambda>r. tr_scope r = sc) (st_tasks st)))"
proof -
  have "opt_matches (Some (sc_subject_id sc)) (sc_subject_id s) \<and> opt_matches (Some (sc_agent_id sc)) (sc_agent_id s) \<and>
      opt_matches (Some (sc_workspace_id sc)) (sc_workspace_id s) \<longleftrightarrow> s = sc" for s :: authority_scope
    by (cases s; cases sc) (auto simp: opt_matches_def)
  then show ?thesis by (simp add: observed_tasks_def list_tasks_def)
qed

lemma observed_owned: "r \<in> set (observed_tasks st (Some sc) limit) \<Longrightarrow> tr_scope r = sc \<and> r \<in> set (st_tasks st)"
  by (auto simp: observed_in_scope dest: in_set_takeD)

lemma counters_tasks: "observed_tasks (counters_of sc st) (Some sc) limit = map blank_task (observed_tasks st (Some sc) limit)"
  by (simp add: observed_in_scope counters_of_def Let_def filter_map o_def sort_key_map take_map)

text \<open>The rows of an owned task are kept, up to blanking.\<close>

lemma counters_rows:
  assumes "list_ex (\<lambda>r. tr_task_id r = k \<and> tr_scope r = sc) (st_tasks st)"
  shows "list_task_steps (counters_of sc st) k n = map blank_step (list_task_steps st k n)"
    "list_task_deliveries (counters_of sc st) k n = map blank_delivery (list_task_deliveries st k n)"
    "map rr_revision (list_task_revisions (counters_of sc st) k n) = map rr_revision (list_task_revisions st k n)"
proof -
  have own: "filter (\<lambda>x. f x = k) (filter (\<lambda>x. list_ex (\<lambda>r. tr_task_id r = f x \<and> tr_scope r = sc) (st_tasks st)) xs) =
      filter (\<lambda>x. f x = k) xs" for f :: "'a \<Rightarrow> string" and xs
    unfolding filter_filter by (rule filter_cong) (use assms in auto)
  show "list_task_steps (counters_of sc st) k n = map blank_step (list_task_steps st k n)"
    by (simp add: list_task_steps_def counters_of_def Let_def filter_map o_def sort_key_map take_map own del: filter_filter)
  show "list_task_deliveries (counters_of sc st) k n = map blank_delivery (list_task_deliveries st k n)"
    by (simp add: list_task_deliveries_def counters_of_def Let_def filter_map o_def sort_key_map take_map own del: filter_filter)
  show "map rr_revision (list_task_revisions (counters_of sc st) k n) = map rr_revision (list_task_revisions st k n)"
    by (simp add: list_task_revisions_def task_revisions_def counters_of_def Let_def filter_map o_def sort_key_map take_map own
        del: filter_filter)
qed

lemma counters_bindings:
  "list_session_bindings (counters_of sc st) sc None True = map blank_binding (list_session_bindings st sc None True)"
  by (simp add: list_session_bindings_def counters_of_def Let_def filter_map o_def sort_key_map truthy_def)

lemma concat_map_blank:
  assumes "\<And>r. r \<in> set rs \<Longrightarrow> f (g r) = map h (f' r)"
  shows "concat (map f (map g rs)) = map h (concat (map f' rs))"
  using assms by (induction rs) auto

text \<open>
  [C35] Observability neither blends scopes nor tells what tasks say.  The snapshot of a scope is the same when it is
  computed on a store that has only the rows of that scope, without goals, profiles, snapshots of the task,
  proposals, provenance, actors, reasons for lifecycle changes, digests, conversations and audit events.
\<close>

theorem snapshot_is_isolated:
  "snapshot now st (Some sc) limit = snapshot now (counters_of sc st) (Some sc) limit"
proof -
  let ?T = "observed_tasks st (Some sc) limit" and ?u = "counters_of sc st"
  have own: "list_ex (\<lambda>x. tr_task_id x = tr_task_id r \<and> tr_scope x = sc) (st_tasks st)" if "r \<in> set ?T" for r
    using observed_owned [OF that] by (auto simp: list_ex_iff)
  have steps: "observed_steps ?u (map blank_task ?T) = map blank_step (observed_steps st ?T)"
    unfolding observed_steps_def by (rule concat_map_blank) (simp add: counters_rows own)
  have dels: "observed_deliveries ?u (map blank_task ?T) = map blank_delivery (observed_deliveries st ?T)"
    unfolding observed_deliveries_def by (rule concat_map_blank) (simp add: counters_rows own)
  have probs: "map (integrity_problems ?u) (map blank_task ?T) = map (integrity_problems st) ?T"
    by (auto simp: integrity_problems_def counters_rows own cong del: if_weak_cong)
  have last: "last_progress (map blank_task rs) = last_progress rs" for rs
    by (simp add: last_progress_def fold_map o_def cong del: if_weak_cong option.case_cong_weak)
  show ?thesis
    unfolding snapshot_def Let_def counters_tasks steps dels probs last
    by (simp add: counters_bindings count_where_map filter_map o_def cong del: if_weak_cong)
qed

section \<open>Integrity\<close>

text \<open>
  The integrity check never raises a false alarm for a task of at most a thousand revisions, and always raises
  one beyond: on every reachable store the problems of a snapshot are exactly that the head of each listed task
  with more than a thousand revisions does not match the latest of the thousand that the check reads.
\<close>

theorem integrity_reports_long_tasks:
  assumes "(system_step H)\<^sup>*\<^sup>* empty_store st"
  shows "ob_problems (snapshot now st sc limit) =
    concat (map (\<lambda>r. if tr_head_revision r \<le> 1000 then [] else [tr_task_id r @ '': head does not match the latest revision''])
      (observed_tasks st sc limit))"
proof -
  have ok: "store_ok H st" using system.inv_reachable [OF refl assms] by (simp add: system_ok_def)
  have "integrity_problems st r = (if tr_head_revision r \<le> 1000 then [] else [tr_task_id r @ '': head does not match the latest revision''])"
    if "r \<in> set (observed_tasks st sc limit)" for r
  proof -
    let ?rs = "task_revisions st (tr_task_id r)"
    have "r \<in> set (st_tasks st)" using that by (auto simp: observed_tasks_def list_tasks_def dest: in_set_takeD)
    then have "history_ok H r ?rs" using ok by (simp add: store_ok_def row_ok_def)
    then have rs: "?rs \<noteq> []" "numbered ?rs" "tr_head_revision r = int (length ?rs)" by (auto simp: history_ok_def)
    have "map rr_revision ?rs = map (\<lambda>i. int i + 1) [0..<length ?rs]" using rs(2) by (simp add: numbered_def)
    moreover have "take m (map (\<lambda>i. int i + 1) [0..<n]) = map int [1..<min n m + 1]" for m n
      by (rule nth_equalityI) (auto simp del: upt_Suc)
    ultimately have numbers: "map rr_revision (list_task_revisions st (tr_task_id r) 1000) = map int [1..<min (length ?rs) 1000 + 1]"
      by (simp only: list_task_revisions_def numbered_sorted [OF rs(2)] take_map [symmetric]) (simp add: clamp_def)
    have max: "fold max (map int [1..<n + 1]) 1 = int n" if "1 \<le> n" for n
      using that by (induction n rule: nat_induct_at_least) auto
    define n where "n = min (length ?rs) 1000"
    have n: "1 \<le> n" "int (length ?rs) = int n \<longleftrightarrow> length ?rs \<le> 1000" using rs(1) by (cases ?rs; auto simp: n_def)+
    define xs where "xs = map int [1..<n + 1]"
    have xs: "xs \<noteq> []" "hd xs = 1" "fold max xs 1 = int n" "xs = map int [1..<length xs + 1]"
      using n(1) max [OF n(1)] by (simp_all add: xs_def hd_map del: upt_Suc)
    have same: "map rr_revision (list_task_revisions st (tr_task_id r) 1000) = xs" using numbers by (simp only: xs_def n_def)
    show ?thesis
      unfolding integrity_problems_def same Let_def xs(2,3) using xs(1,4) rs(3) n(2) by auto
  qed
  then have "map (integrity_problems st) (observed_tasks st sc limit) =
      map (\<lambda>r. if tr_head_revision r \<le> 1000 then [] else [tr_task_id r @ '': head does not match the latest revision'']) (observed_tasks st sc limit)"
    by simp
  then show ?thesis by (simp only: snapshot_def Let_def observability.simps)
qed

theorem integrity_reports_long_tasks_witness:
  "(system_step ex_hashes)\<^sup>*\<^sup>* empty_store ex_active \<and>
   ob_problems (snapshot 5 ex_active (Some ex_scope) 500) = [] \<and> length (observed_tasks ex_active (Some ex_scope) 500) = 1"
proof -
  have heads: "map tr_head_revision (observed_tasks ex_active (Some ex_scope) 500) = [1]" by code_simp
  obtain r where r: "observed_tasks ex_active (Some ex_scope) 500 = [r]" "tr_head_revision r = 1" using heads by auto
  show ?thesis using integrity_reports_long_tasks [OF ex_active_star, of 5 "Some ex_scope" 500] ex_active_star r by simp
qed

end
