(* ===== verification/Task_Reading.thy ===== *)
theory Task_Reading
  imports Task_System Iso_Time
begin

text \<open>
  Reading tasks: the paged list and the timeline of the service (\<^verbatim>\<open>list\<close> and \<^verbatim>\<open>timeline\<close> of
  \<^verbatim>\<open>src/atmem/task_state/service.py\<close>), and the provenance of a value in words
  (\<^verbatim>\<open>src/atmem/task_state/provenance.py\<close>).  A cursor is the pair that its text joins.
\<close>

section \<open>The list\<close>

record task_entry =
  te_task_id :: string
  te_goal :: string
  te_lifecycle :: task_lifecycle
  te_revision :: int
  te_profile_version :: string
  te_created_at :: timestamp
  te_last_progress_at :: timestamp

definition entry_of :: "task_row \<Rightarrow> task_entry" where
  "entry_of r =
     \<lparr>te_task_id = tr_task_id r, te_goal = tr_goal r, te_lifecycle = tr_lifecycle r, te_revision = tr_head_revision r,
      te_profile_version = tr_profile_version r, te_created_at = tr_created_at r, te_last_progress_at = tr_last_progress_at r\<rparr>"

record task_page =
  pg_count :: nat
  pg_next_cursor :: "(timestamp \<times> string) option"
  pg_tasks :: "task_entry list"

text \<open>\<^verbatim>\<open>_expire_if_due(...) or row\<close> for the live rows.\<close>

fun refresh_rows :: "hashes \<Rightarrow> (nat \<Rightarrow> clock) \<Rightarrow> nat \<Rightarrow> task_row list \<Rightarrow> store \<Rightarrow> task_row list outcome" where
  "refresh_rows H clks i [] st = (st, Inr [])"
| "refresh_rows H clks i (r # rs) st =
     (case refresh H (clks i) (tr_scope r) r st of
        (st', Inl e) \<Rightarrow> (st', Inl e)
      | (st', Inr r') \<Rightarrow>
          (case refresh_rows H clks (i + 1) rs st' of
             (st'', Inl e) \<Rightarrow> (st'', Inl e)
           | (st'', Inr rs') \<Rightarrow> (st'', Inr (r' # rs'))))"

text \<open>\<^verbatim>\<open>rows[-1]\<close> of no rows, which a limit of zero reaches, is an \<^verbatim>\<open>IndexError\<close>.\<close>

datatype list_answer = Page task_page | IndexError

definition page_of :: "task_row list \<Rightarrow> int \<Rightarrow> list_answer" where
  "page_of rows limit =
     (if int (length rows) \<noteq> limit
      then Page \<lparr>pg_count = length rows, pg_next_cursor = None, pg_tasks = map entry_of rows\<rparr>
      else if rows = [] then IndexError
      else Page \<lparr>pg_count = length rows, pg_next_cursor = Some (age_order (last rows)), pg_tasks = map entry_of rows\<rparr>)"

definition list_service ::
  "hashes \<Rightarrow> (nat \<Rightarrow> clock) \<Rightarrow> authority_scope option \<Rightarrow> task_lifecycle list \<Rightarrow> (timestamp \<times> string) option \<Rightarrow> int \<Rightarrow> bool \<Rightarrow>
   store \<Rightarrow> list_answer outcome" where
  "list_service H clks sc lifecycles cursor limit evaluate_exp st =
     (let rows = list_tasks st (map_option sc_subject_id sc) (map_option sc_agent_id sc) (map_option sc_workspace_id sc)
                   lifecycles cursor limit in
      case (if evaluate_exp then refresh_rows H clks 0 rows st else (st, Inr rows)) of
        (st', Inl e) \<Rightarrow> (st', Inl e)
      | (st', Inr rows') \<Rightarrow> (st', Inr (page_of rows' limit)))"

record timeline_report =
  tl_revisions :: "revision_row list"
  tl_steps :: "step_row list"
  tl_proposals :: "proposal_row list"
  tl_deliveries :: "delivery_row list"

definition timeline :: "store \<Rightarrow> authority_scope \<Rightarrow> string \<Rightarrow> task_error + timeline_report" where
  "timeline st sc k =
     bind_res (require_task st sc k) (\<lambda>_.
       Inr \<lparr>tl_revisions = list_task_revisions st k 200, tl_steps = list_task_steps st k 200,
            tl_proposals = list_task_proposals st k 200, tl_deliveries = list_task_deliveries st k 200\<rparr>)"

section \<open>Provenance in words\<close>

fun describe_assurance :: "assurance \<Rightarrow> string" where
  "describe_assurance ASSERTED = ''stated without supporting evidence''"
| "describe_assurance MODEL_INTERPRETED = ''inferred by a model from an observation''"
| "describe_assurance RULE_EXTRACTED = ''derived by a deterministic AtMem rule''"
| "describe_assurance HOST_REPORTED = ''reported successful by the host's own tool result''"
| "describe_assurance OPERATOR_CONFIRMED = ''confirmed by an authenticated operator''"
| "describe_assurance INDEPENDENTLY_VERIFIED = ''verified by a registered independent verifier''"

fun describe_role :: "actor_role \<Rightarrow> string" where
  "describe_role ATMEM_AUTHORITY = ''AtMem itself''"
| "describe_role POLICY_EVALUATOR = ''AtMem's scoped policy evaluator''"
| "describe_role ATBOT_INTELLIGENCE = ''the AtBot intelligence companion''"
| "describe_role HOST_AGENT = ''the host agent''"
| "describe_role OPERATOR = ''an authenticated operator''"
| "describe_role ADMINISTRATOR = ''an administrator''"
| "describe_role VERIFIER = ''a registered verifier''"
| "describe_role AUDITOR = ''an auditor''"
| "describe_role DELEGATED_PROVIDER = ''a delegated context provider''"

definition METHOD_LANGUAGE :: "(string \<times> string) list" where
  "METHOD_LANGUAGE =
     [(''task_start'', ''recorded when the task was started''),
      (''typed_delta'', ''changed by an accepted typed delta''),
      (''lifecycle_open'', ''the task was opened''),
      (''lifecycle_paused'', ''the task was paused''),
      (''lifecycle_completed'', ''the task was completed''),
      (''lifecycle_cancelled'', ''the task was cancelled''),
      (''lifecycle_expired'', ''the task expired under its bound policy rule'')]"

definition describe_method :: "string \<Rightarrow> string" where
  "describe_method value =
     (case map_of METHOD_LANGUAGE value of
        Some s \<Rightarrow> s
      | None \<Rightarrow> map (\<lambda>c. if c = CHR ''_'' then CHR '' '' else c) value)"

definition upper_char :: "char \<Rightarrow> char" where
  "upper_char c = (let n = of_char c :: nat in if 97 \<le> n \<and> n \<le> 122 then char_of (n - 32) else c)"

definition lower_char :: "char \<Rightarrow> char" where
  "lower_char c = (let n = of_char c :: nat in if 65 \<le> n \<and> n \<le> 90 then char_of (n + 32) else c)"

fun capitalize :: "string \<Rightarrow> string" where
  "capitalize [] = []"
| "capitalize (c # cs) = upper_char c # map lower_char cs"

record described_provenance =
  de_summary :: string
  de_revision :: int
  de_actor :: string
  de_actor_role :: actor_role
  de_actor_description :: string
  de_method :: string
  de_method_description :: string
  de_assurance :: assurance
  de_assurance_description :: string
  de_independently_verified :: bool
  de_interpreter :: "string option"
  de_observed_at :: timestamp
  de_superseded_revision :: "int option"
  de_evidence :: "json list"

definition show_signed :: "int \<Rightarrow> string" where
  "show_signed n = (if n < 0 then ''-'' @ show_nat (nat (- n)) else show_nat (nat n))"

definition summary_of :: "provenance_row \<Rightarrow> string" where
  "summary_of r =
     capitalize (describe_method (pv_method r)) @ '' by '' @ describe_role (pv_actor_role r) @ '' ('' @ pv_actor r @ '') at '' @
     to_iso (pv_observed_at r) @ ''; '' @ describe_assurance (pv_assurance r) @ ''.'' @
     (case pv_superseded_revision r of
        None \<Rightarrow> []
      | Some n \<Rightarrow> if n = 0 then [] else '' This replaced the value from revision '' @ show_signed n @ ''.'')"

definition describe_row :: "provenance_row \<Rightarrow> described_provenance" where
  "describe_row r =
     \<lparr>de_summary = summary_of r, de_revision = pv_revision r, de_actor = pv_actor r, de_actor_role = pv_actor_role r,
      de_actor_description = describe_role (pv_actor_role r), de_method = pv_method r,
      de_method_description = describe_method (pv_method r), de_assurance = pv_assurance r,
      de_assurance_description = describe_assurance (pv_assurance r),
      de_independently_verified = (pv_assurance r = INDEPENDENTLY_VERIFIED), de_interpreter = pv_interpreter r,
      de_observed_at = pv_observed_at r, de_superseded_revision = pv_superseded_revision r, de_evidence = pv_evidence r\<rparr>"

text \<open>A delivery of a revision that carries the value: revision, disposition, reasons, exposure, time and digest.\<close>

definition value_deliveries ::
  "store \<Rightarrow> string \<Rightarrow> provenance_row list \<Rightarrow> (int \<times> context_disposition \<times> string list \<times> bool \<times> timestamp \<times> string option) list" where
  "value_deliveries st k rows =
     map (\<lambda>d. (dl_revision d, dl_disposition d, dl_reason_codes d, dl_exposed d, dl_prepared_at d, dl_context_sha256 d))
       (filter (\<lambda>d. dl_revision d \<in> set (map pv_revision rows)) (list_task_deliveries st k 200))"

record provenance_report =
  vp_found :: bool
  vp_current_revision :: "int option"
  vp_history :: "described_provenance list"
  vp_deliveries :: "(int \<times> context_disposition \<times> string list \<times> bool \<times> timestamp \<times> string option) list"

definition resolve_provenance :: "store \<Rightarrow> authority_scope \<Rightarrow> string \<Rightarrow> string \<Rightarrow> string \<Rightarrow> provenance_report" where
  "resolve_provenance st sc k kind target =
     (case get_task st sc k of
        None \<Rightarrow> \<lparr>vp_found = False, vp_current_revision = None, vp_history = [], vp_deliveries = []\<rparr>
      | Some r \<Rightarrow>
          (let rows = list_task_provenance st k (Some kind) (Some target)
           in \<lparr>vp_found = (rows \<noteq> []), vp_current_revision = Some (tr_head_revision r), vp_history = map describe_row rows,
               vp_deliveries = value_deliveries st k rows\<rparr>))"

definition task_lineage ::
  "store \<Rightarrow> authority_scope \<Rightarrow> string \<Rightarrow> ((string \<times> string) \<times> described_provenance list) list option" where
  "task_lineage st sc k =
     (case get_task st sc k of
        None \<Rightarrow> None
      | Some _ \<Rightarrow>
          (let rows = list_task_provenance st k None None; target = (\<lambda>r. (pv_target_kind r, pv_target_id r))
           in Some (map (\<lambda>t. (t, map describe_row (filter (\<lambda>r. target r = t) rows))) (sort (remdups (map target rows))))))"

section \<open>Pages\<close>

text \<open>Following the cursors until there is none; each page is read, with or without expiry, by a call of its own.\<close>

fun follow ::
  "nat \<Rightarrow> hashes \<Rightarrow> (nat \<Rightarrow> nat \<Rightarrow> clock) \<Rightarrow> authority_scope option \<Rightarrow> task_lifecycle list \<Rightarrow> (timestamp \<times> string) option \<Rightarrow> int \<Rightarrow>
   bool \<Rightarrow> store \<Rightarrow> store \<times> task_entry list option" where
  "follow 0 H clks sc ls cursor limit evaluate_exp st = (st, None)"
| "follow (Suc n) H clks sc ls cursor limit evaluate_exp st =
     (case list_service H (clks n) sc ls cursor limit evaluate_exp st of
        (st1, Inr (Page p)) \<Rightarrow>
          (case pg_next_cursor p of
             None \<Rightarrow> (st1, Some (pg_tasks p))
           | Some c \<Rightarrow>
               (case follow n H clks sc ls (Some c) limit evaluate_exp st1 of
                  (st2, rest) \<Rightarrow> (st2, map_option (\<lambda>es. pg_tasks p @ es) rest)))
      | (st1, _) \<Rightarrow> (st1, None))"

definition listed :: "authority_scope option \<Rightarrow> task_lifecycle list \<Rightarrow> task_row \<Rightarrow> bool" where
  "listed sc ls r \<longleftrightarrow> (case sc of None \<Rightarrow> True | Some s \<Rightarrow> tr_scope r = s) \<and> (ls = [] \<or> tr_lifecycle r \<in> set ls)"

definition after :: "(timestamp \<times> string) option \<Rightarrow> task_row \<Rightarrow> bool" where
  "after cursor r = (case cursor of None \<Rightarrow> True | Some c \<Rightarrow> c < age_order r)"

definition remaining :: "store \<Rightarrow> authority_scope option \<Rightarrow> task_lifecycle list \<Rightarrow> (timestamp \<times> string) option \<Rightarrow> task_row list" where
  "remaining st sc ls cursor = filter (after cursor) (sort_key age_order (filter (listed sc ls) (st_tasks st)))"

lemma scope_parts:
  "opt_matches (map_option sc_subject_id sc) (sc_subject_id s) \<and> opt_matches (map_option sc_agent_id sc) (sc_agent_id s) \<and>
   opt_matches (map_option sc_workspace_id sc) (sc_workspace_id s) \<longleftrightarrow> (case sc of None \<Rightarrow> True | Some x \<Rightarrow> s = x)"
  for s :: authority_scope
  by (cases sc; cases s) (auto simp: opt_matches_def)

lemma list_tasks_remaining:
  "list_tasks st (map_option sc_subject_id sc) (map_option sc_agent_id sc) (map_option sc_workspace_id sc) ls cursor limit =
     take (clamp limit 500) (remaining st sc ls cursor)"
proof -
  have "filter (\<lambda>r. opt_matches (map_option sc_subject_id sc) (sc_subject_id (tr_scope r)) \<and>
        opt_matches (map_option sc_agent_id sc) (sc_agent_id (tr_scope r)) \<and>
        opt_matches (map_option sc_workspace_id sc) (sc_workspace_id (tr_scope r)) \<and> (ls = [] \<or> tr_lifecycle r \<in> set ls) \<and>
        (case cursor of None \<Rightarrow> True | Some c \<Rightarrow> c < age_order r)) (st_tasks st) =
      filter (after cursor) (filter (listed sc ls) (st_tasks st))"
    unfolding filter_filter using scope_parts [of sc] by (intro filter_cong) (auto simp: listed_def after_def)
  then show ?thesis by (simp only: list_tasks_def remaining_def filter_sort)
qed

lemma filter_stronger: "(\<And>x. P x \<Longrightarrow> Q x) \<Longrightarrow> filter P (filter Q xs) = filter P xs"
  unfolding filter_filter by (rule filter_cong) auto

lemma after_trans: "after cursor x \<Longrightarrow> after (Some (age_order x)) r \<Longrightarrow> after cursor r"
  by (cases cursor) (auto simp: after_def intro: order_less_trans)

lemma remaining_sorted:
  assumes "distinct (map tr_task_id (st_tasks st))"
  shows "sorted_wrt (\<lambda>a b. age_order a < age_order b) (remaining st sc ls cursor)"
proof -
  let ?S = "sort_key age_order (filter (listed sc ls) (st_tasks st))"
  have "distinct (map tr_task_id (filter (listed sc ls) (st_tasks st)))" using assms by (simp add: distinct_map_filter)
  then have "distinct (map age_order ?S)" by (auto simp: distinct_map inj_on_def age_order_def)
  then have "sorted_wrt (<) (map age_order ?S)" by (simp add: strict_sorted_iff)
  then show ?thesis by (simp add: remaining_def sorted_wrt_map sorted_wrt_filter)
qed

text \<open>The tasks after the last of a page are those that the page left out.\<close>

lemma remaining_next:
  assumes "distinct (map tr_task_id (st_tasks st))" and "m \<le> length (remaining st sc ls cursor)" and "0 < m"
  shows "remaining st sc ls (Some (age_order (last (take m (remaining st sc ls cursor))))) = drop m (remaining st sc ls cursor)"
proof -
  let ?R = "remaining st sc ls cursor"
  let ?c = "age_order (last (take m ?R))"
  have parts: "?R = take m ?R @ drop m ?R" by simp
  have ne: "take m ?R \<noteq> []" using assms(2,3) by auto
  note sorted = remaining_sorted [OF assms(1), of sc ls cursor]
  then have s: "sorted_wrt (\<lambda>a b. age_order a < age_order b) (take m ?R)"
    "\<forall>a\<in>set (take m ?R). \<forall>b\<in>set (drop m ?R). age_order a < age_order b"
    by (metis parts sorted_wrt_append)+
  have old: "age_order a \<le> ?c" if "a \<in> set (take m ?R)" for a
  proof -
    have "take m ?R = butlast (take m ?R) @ [last (take m ?R)]" using ne by simp
    then have "a \<in> set (butlast (take m ?R)) \<or> a = last (take m ?R)" using that by (metis Un_iff empty_iff empty_set set_append set_ConsD)
    then show ?thesis
    proof
      assume "a \<in> set (butlast (take m ?R))"
      then have "age_order a < ?c"
        using s(1) \<open>take m ?R = butlast (take m ?R) @ [last (take m ?R)]\<close> by (metis list.set_intros(1) sorted_wrt_append)
      then show ?thesis by simp
    qed simp
  qed
  have new: "?c < age_order b" if "b \<in> set (drop m ?R)" for b using s(2) that ne last_in_set by blast
  have "last (take m ?R) \<in> set ?R" using ne last_in_set in_set_takeD by metis
  then have "after cursor (last (take m ?R))" by (simp add: remaining_def)
  then have "after (Some ?c) r \<Longrightarrow> after cursor r" for r by (rule after_trans)
  then have "remaining st sc ls (Some ?c) = filter (after (Some ?c)) ?R"
    unfolding remaining_def by (rule filter_stronger [symmetric])
  also have "\<dots> = filter (after (Some ?c)) (take m ?R) @ filter (after (Some ?c)) (drop m ?R)" by (metis parts filter_append)
  also have "filter (after (Some ?c)) (take m ?R) = []" using old by (auto simp: filter_empty_conv after_def not_less)
  also have "filter (after (Some ?c)) (drop m ?R) = drop m ?R" using new by (simp add: after_def)
  finally show ?thesis by simp
qed

text \<open>What a read with expiry may show of a row: itself, or the row expired; and what it does to the table.\<close>

definition shown :: "task_row \<Rightarrow> task_row \<Rightarrow> bool" where
  "shown r r' \<longleftrightarrow>
     r' = r \<or> \<not> lifecycle_terminal (tr_lifecycle r) \<and> tr_lifecycle r' = EXPIRED \<and> tr_head_revision r' = tr_head_revision r + 1 \<and>
       (\<exists>c. r' = change_head c r)"

definition renewed :: "(string \<Rightarrow> bool) \<Rightarrow> store \<Rightarrow> store \<Rightarrow> bool" where
  "renewed K st st' \<longleftrightarrow>
     (\<exists>f. st_tasks st' = map f (st_tasks st) \<and> (\<forall>x\<in>set (st_tasks st). shown x (f x) \<and> (K (tr_task_id x) \<or> f x = x)))"

lemma shown_refl [simp]: "shown r r"
  by (simp add: shown_def)

lemma shown_trans: "shown r s \<Longrightarrow> shown s u \<Longrightarrow> shown r u"
  by (auto simp: shown_def lifecycle_terminal_def)

lemma shown_order: "shown r r' \<Longrightarrow> tr_task_id r' = tr_task_id r \<and> tr_scope r' = tr_scope r \<and> age_order r' = age_order r"
  by (auto simp: shown_def age_order_def)

lemma renewed_refl [simp]: "renewed K st st"
  unfolding renewed_def by (rule exI [of _ id]) simp

lemma renewed_trans:
  assumes "renewed K st u" and "renewed L u st'" and "\<And>k. K k \<or> L k \<Longrightarrow> M k"
  shows "renewed M st st'"
proof -
  obtain f where f: "st_tasks u = map f (st_tasks st)" "\<forall>x\<in>set (st_tasks st). shown x (f x) \<and> (K (tr_task_id x) \<or> f x = x)"
    using assms(1) by (auto simp: renewed_def)
  obtain g where g: "st_tasks st' = map g (st_tasks u)" "\<forall>x\<in>set (st_tasks u). shown x (g x) \<and> (L (tr_task_id x) \<or> g x = x)"
    using assms(2) by (auto simp: renewed_def)
  have "shown x (g (f x)) \<and> (M (tr_task_id x) \<or> g (f x) = x)" if "x \<in> set (st_tasks st)" for x
  proof -
    have x: "shown x (f x)" "K (tr_task_id x) \<or> f x = x" using f(2) that by simp_all
    have "f x \<in> set (st_tasks u)" using that by (simp add: f(1))
    then have y: "shown (f x) (g (f x))" "L (tr_task_id x) \<or> g (f x) = f x" using g(2) shown_order [OF x(1)] by auto
    show ?thesis using shown_trans [OF x(1) y(1)] x(2) y(2) assms(3) by metis
  qed
  then show ?thesis unfolding renewed_def using f(1) g(1) by (intro exI [of _ "g \<circ> f"]) simp
qed

lemma renewed_keeps: "renewed K st st' \<Longrightarrow> r \<in> set (st_tasks st) \<Longrightarrow> \<not> K (tr_task_id r) \<Longrightarrow> r \<in> set (st_tasks st')"
  unfolding renewed_def by force

text \<open>Rows up to the cursor may expire: the tasks after it are the same.\<close>

lemma renewed_remaining:
  assumes "renewed K st st'" and "\<And>r. r \<in> set (st_tasks st) \<Longrightarrow> K (tr_task_id r) \<Longrightarrow> \<not> after (Some c) r"
  shows "remaining st' sc ls (Some c) = remaining st sc ls (Some c)"
proof -
  obtain f where f: "st_tasks st' = map f (st_tasks st)" "\<forall>x\<in>set (st_tasks st). shown x (f x) \<and> (K (tr_task_id x) \<or> f x = x)"
    using assms(1) by (auto simp: renewed_def)
  let ?P = "\<lambda>r. listed sc ls r \<and> after (Some c) r"
  have same: "?P (f x) = ?P x \<and> (?P x \<longrightarrow> f x = x)" if "x \<in> set (st_tasks st)" for x
    using f(2) that assms(2) shown_order by (fastforce simp: after_def)
  have "filter ?P (st_tasks st') = map f (filter (?P \<circ> f) (st_tasks st))" by (simp add: f(1) filter_map)
  also have "filter (?P \<circ> f) (st_tasks st) = filter ?P (st_tasks st)" using same by (intro filter_cong) auto
  also have "map f (filter ?P (st_tasks st)) = filter ?P (st_tasks st)" using same by (intro map_idI) auto
  finally have "filter ?P (st_tasks st') = filter ?P (st_tasks st)" .
  moreover have "remaining u sc ls (Some c) = sort_key age_order (filter ?P (st_tasks u))" for u
    by (simp add: remaining_def filter_sort conj_commute)
  ultimately show ?thesis by simp
qed

lemma refresh_effect:
  assumes ok: "store_ok H st" and r: "r \<in> set (st_tasks st)"
  obtains st' r' where "refresh H clk (tr_scope r) r st = (st', Inr r')" "store_ok H st'" "renewed (\<lambda>k. k = tr_task_id r) st st'"
    "shown r r'" "r' \<in> set (st_tasks st')"
proof (cases "lifecycle_terminal (tr_lifecycle r) \<or> xr_due_reason (expiry_status r (clk 0)) = None")
  case True
  then show thesis using ok r by (intro that [of st r]) (auto simp: refresh_def expire_if_due_def)
next
  case False
  then obtain why where why: "xr_due_reason (expiry_status r (clk 0)) = Some why" and live: "\<not> lifecycle_terminal (tr_lifecycle r)" by auto
  obtain st' r' c where e: "expire_if_due H clk (tr_scope r) r st = (st', Inr (Some r'))" "r' = change_head c r"
    "lookup_by tr_task_id (tr_task_id r) (st_tasks st') = Some r'" "tr_lifecycle r' = EXPIRED"
    "tr_head_revision r' = tr_head_revision r + 1" "store_ok H st'"
    "st_tasks st' = map (\<lambda>x. if tr_task_id x = tr_task_id r then r' else x) (st_tasks st)"
    by (rule expire_if_due_effect [where clk = clk, OF ok r live why])
  have sh: "shown r r'" using live e(2,4,5) unfolding shown_def by blast
  have "x = r" if "x \<in> set (st_tasks st)" "tr_task_id x = tr_task_id r" for x
    using lookup_tasks_distinct [OF ok, of "tr_task_id r"] that r by (metis option.inject)
  then have "renewed (\<lambda>k. k = tr_task_id r) st st'"
    unfolding renewed_def using sh by (intro exI [of _ "\<lambda>x. if tr_task_id x = tr_task_id r then r' else x"]) (auto simp: e(7))
  then show thesis using live e(1,6) sh lookup_by_SomeD [OF e(3)] by (intro that [of st' r']) (auto simp: refresh_def)
qed

lemma refresh_rows_effect:
  assumes "store_ok H st" and "set rows \<subseteq> set (st_tasks st)" and "distinct (map tr_task_id rows)"
  shows "\<exists>st' rows'. refresh_rows H clks i rows st = (st', Inr rows') \<and> store_ok H st' \<and>
    renewed (\<lambda>k. k \<in> tr_task_id ` set rows) st st' \<and> list_all2 shown rows rows' \<and> set rows' \<subseteq> set (st_tasks st')"
  using assms
proof (induction rows arbitrary: st i)
  case Nil
  then show ?case by simp
next
  case (Cons r rs)
  obtain st1 r' where h: "refresh H (clks i) (tr_scope r) r st = (st1, Inr r')" "store_ok H st1"
    "renewed (\<lambda>k. k = tr_task_id r) st st1" "shown r r'" "r' \<in> set (st_tasks st1)"
    using refresh_effect [OF Cons.prems(1), of r] Cons.prems(2) by (metis insert_subset list.simps(15))
  have "x \<in> set (st_tasks st1)" if "x \<in> set rs" for x
    by (rule renewed_keeps [OF h(3)]) (use that Cons.prems(2,3) in \<open>auto simp: image_iff\<close>)
  then have "set rs \<subseteq> set (st_tasks st1)" by blast
  then obtain st2 rs' where tl: "refresh_rows H clks (i + 1) rs st1 = (st2, Inr rs')" "store_ok H st2"
    "renewed (\<lambda>k. k \<in> tr_task_id ` set rs) st1 st2" "list_all2 shown rs rs'" "set rs' \<subseteq> set (st_tasks st2)"
    using Cons.IH [OF h(2)] Cons.prems(3) by fastforce
  have "r' \<in> set (st_tasks st2)" using renewed_keeps [OF tl(3) h(5)] shown_order [OF h(4)] Cons.prems(3) by auto
  moreover have "renewed (\<lambda>k. k \<in> tr_task_id ` set (r # rs)) st st2" using h(3) tl(3) by (rule renewed_trans) auto
  ultimately show ?case using h(1,4) tl(1,2,4,5) by simp
qed

text \<open>One page: the first rows that remain, as the store shows them afterwards.\<close>

lemma list_service_page:
  assumes ok: "store_ok H st" and limit: "1 \<le> limit" "limit \<le> 500"
  obtains st' rows' where "list_service H clks sc ls cursor limit evaluate_exp st = (st', Inr (page_of rows' limit))" "store_ok H st'"
    "renewed (\<lambda>k. k \<in> tr_task_id ` set (take (nat limit) (remaining st sc ls cursor))) st st'"
    "list_all2 shown (take (nat limit) (remaining st sc ls cursor)) rows'" "set rows' \<subseteq> set (st_tasks st')"
    "\<not> evaluate_exp \<longrightarrow> st' = st \<and> rows' = take (nat limit) (remaining st sc ls cursor)"
proof -
  let ?rows = "take (nat limit) (remaining st sc ls cursor)"
  have clamp: "clamp limit 500 = nat limit" using limit by (simp add: clamp_def)
  have sub: "set ?rows \<subseteq> set (st_tasks st)" by (auto simp: remaining_def dest!: in_set_takeD)
  have "distinct (map tr_task_id (remaining st sc ls cursor))"
    using ok by (auto simp: remaining_def store_ok_def distinct_map intro: inj_on_subset)
  then have dist: "distinct (map tr_task_id ?rows)" by (simp add: take_map [symmetric])
  obtain st' rows' where r: "refresh_rows H clks 0 ?rows st = (st', Inr rows')" "store_ok H st'"
    "renewed (\<lambda>k. k \<in> tr_task_id ` set ?rows) st st'" "list_all2 shown ?rows rows'" "set rows' \<subseteq> set (st_tasks st')"
    using refresh_rows_effect [OF ok sub dist] by blast
  show thesis
  proof (cases evaluate_exp)
    case True
    then show ?thesis using r by (intro that [of st' rows']) (simp_all add: list_service_def list_tasks_remaining clamp)
  next
    case False
    then show ?thesis
      using ok sub by (intro that [of st ?rows]) (simp_all add: list_service_def list_tasks_remaining clamp list_all2_refl)
  qed
qed

lemma list_all2_last: "list_all2 P xs ys \<Longrightarrow> xs \<noteq> [] \<Longrightarrow> P (last xs) (last ys)"
  by (induction rule: list_all2_induct) auto

lemma follow_remaining:
  assumes "1 \<le> limit" and "limit \<le> 500"
  shows "store_ok H st \<Longrightarrow> length (remaining st sc ls cursor) < n \<Longrightarrow>
    \<exists>st' rows. follow n H clks sc ls cursor limit evaluate_exp st = (st', Some (map entry_of rows)) \<and>
      renewed (\<lambda>k. k \<in> tr_task_id ` set (remaining st sc ls cursor)) st st' \<and>
      list_all2 shown (remaining st sc ls cursor) rows \<and> set rows \<subseteq> set (st_tasks st') \<and>
      (\<not> evaluate_exp \<longrightarrow> st' = st \<and> rows = remaining st sc ls cursor)"
proof (induction n arbitrary: cursor st)
  case (Suc n)
  let ?R = "remaining st sc ls cursor" and ?m = "nat limit"
  have dist: "distinct (map tr_task_id (st_tasks st))" using Suc.prems(1) by (simp add: store_ok_def)
  obtain st1 rows where p: "list_service H (clks n) sc ls cursor limit evaluate_exp st = (st1, Inr (page_of rows limit))"
    "store_ok H st1" "renewed (\<lambda>k. k \<in> tr_task_id ` set (take ?m ?R)) st st1" "list_all2 shown (take ?m ?R) rows"
    "set rows \<subseteq> set (st_tasks st1)" "\<not> evaluate_exp \<longrightarrow> st1 = st \<and> rows = take ?m ?R"
    by (rule list_service_page [where clks = "clks n" and sc = sc and ls = ls and cursor = cursor and evaluate_exp = evaluate_exp,
        OF Suc.prems(1) assms])
  have len: "length rows = min (length ?R) ?m" using list_all2_lengthD [OF p(4)] by simp
  show ?case
  proof (cases "?m \<le> length ?R")
    case False
    then have all: "take ?m ?R = ?R" "int (length rows) \<noteq> limit" using assms(1) len by auto
    show ?thesis using p all by (intro exI [of _ st1] exI [of _ rows]) (simp add: page_of_def)
  next
    case True
    have m: "0 < ?m" using assms(1) by simp
    let ?c = "age_order (last (take ?m ?R))" and ?D = "drop ?m ?R"
    have ne: "take ?m ?R \<noteq> []" "rows \<noteq> []" "int (length rows) = limit" using True m len assms(1) by auto
    have "shown (last (take ?m ?R)) (last rows)" using list_all2_last [OF p(4) ne(1)] .
    then have cursor: "age_order (last rows) = ?c" using shown_order by blast
    note next_eq = remaining_next [OF dist True m]
    have ids: "tr_task_id x \<noteq> tr_task_id y" if "x \<in> set (take ?m ?R)" "y \<in> set ?D" for x y
    proof -
      have "distinct (map tr_task_id ?R)" using dist by (auto simp: remaining_def distinct_map intro: inj_on_subset)
      then have "distinct (map tr_task_id (take ?m ?R) @ map tr_task_id ?D)" by (metis append_take_drop_id map_append)
      then show ?thesis using that by auto
    qed
    have old: "\<not> after (Some ?c) r" if r: "r \<in> set (st_tasks st)" "tr_task_id r \<in> tr_task_id ` set (take ?m ?R)" for r
    proof
      assume "after (Some ?c) r"
      obtain x where x: "x \<in> set (take ?m ?R)" "tr_task_id x = tr_task_id r" using r(2) by auto
      then have "x \<in> set (st_tasks st)" by (auto simp: remaining_def dest!: in_set_takeD)
      then have "x = r" using r(1) x(2) dist by (auto simp: distinct_map dest: inj_onD)
      moreover have "x \<in> set ?R" using x(1) by (rule in_set_takeD)
      ultimately have "r \<in> set (remaining st sc ls (Some ?c))" using \<open>after (Some ?c) r\<close> by (simp add: remaining_def)
      then show False using next_eq ids [OF x(1)] x(2) by auto
    qed
    have rem: "remaining st1 sc ls (Some ?c) = ?D" using renewed_remaining [OF p(3) old] next_eq by simp
    have "length ?D < n" using Suc.prems(2) m True by simp
    then obtain st2 rs where q: "follow n H clks sc ls (Some ?c) limit evaluate_exp st1 = (st2, Some (map entry_of rs))"
      "renewed (\<lambda>k. k \<in> tr_task_id ` set ?D) st1 st2" "list_all2 shown ?D rs" "set rs \<subseteq> set (st_tasks st2)"
      "\<not> evaluate_exp \<longrightarrow> st2 = st1 \<and> rs = ?D"
      using Suc.IH [OF p(2), of "Some ?c"] unfolding rem by blast
    have "r' \<in> set (st_tasks st2)" if r': "r' \<in> set rows" for r'
    proof -
      obtain x where "x \<in> set (take ?m ?R)" "shown x r'" using p(4) r' by (metis in_set_conv_nth list_all2_conv_all_nth)
      then have "tr_task_id r' \<notin> tr_task_id ` set ?D" using ids shown_order by fastforce
      then show ?thesis using renewed_keeps [OF q(2)] p(5) r' by blast
    qed
    moreover have "renewed (\<lambda>k. k \<in> tr_task_id ` set ?R) st st2"
      using p(3) q(2) by (rule renewed_trans) (auto dest: in_set_takeD in_set_dropD)
    moreover have "list_all2 shown ?R (rows @ rs)" using list_all2_appendI [OF p(4) q(3)] by simp
    moreover have "follow (Suc n) H clks sc ls cursor limit evaluate_exp st = (st2, Some (map entry_of (rows @ rs)))"
      using p(1) q(1) ne(2,3) cursor by (simp add: page_of_def)
    ultimately show ?thesis using q(4,5) p(6) by (intro exI [of _ st2] exI [of _ "rows @ rs"]) auto
  qed
qed simp

text \<open>
  [C24] Pages cover the list.  On every reachable store, following the cursors from the first page with a limit from
  1 to 500 ends after at most one page per task, without an error.  The pages together have one entry for each task
  that was in the scope and in the chosen lifecycles when the first page was read, oldest first.  An entry shows its
  task as the store has it after the last page: unchanged, or, when the pages are read with expiry, expired since, so
  that a list of open tasks can show an expired one.  Read without expiry the pages are exactly those rows and the
  store does not change.
\<close>

theorem pages_cover_the_list:
  assumes "(system_step H)\<^sup>*\<^sup>* empty_store st" and "1 \<le> limit" and "limit \<le> 500" and "length (st_tasks st) < n"
    and "chosen = sort_key age_order (filter (listed sc ls) (st_tasks st))"
  shows "\<exists>st' rows. follow n H clks sc ls None limit evaluate_exp st = (st', Some (map entry_of rows)) \<and>
    list_all2 shown chosen rows \<and> set rows \<subseteq> set (st_tasks st') \<and> (\<not> evaluate_exp \<longrightarrow> st' = st \<and> rows = chosen)"
proof -
  have "store_ok H st" using system.inv_reachable [OF refl assms(1)] by (simp add: system_ok_def)
  moreover have all: "remaining st sc ls None = chosen" by (simp add: remaining_def after_def assms(5))
  moreover have "length (remaining st sc ls None) < n"
    using assms(4) length_filter_le [of "listed sc ls" "st_tasks st"] unfolding all assms(5) length_sort by linarith
  ultimately show ?thesis using follow_remaining [OF assms(2,3)] by metis
qed

theorem pages_cover_the_list_witness:
  "\<exists>st' rows. follow 2 ex_hashes (\<lambda>n i j. 5) (Some ex_scope) [OPEN] None 1 True ex_active = (st', Some (map entry_of rows)) \<and>
     length rows = 1"
proof -
  have one: "length (st_tasks ex_active) = 1" "list_all (listed (Some ex_scope) [OPEN]) (st_tasks ex_active)" by code_simp+
  then have all: "filter (listed (Some ex_scope) [OPEN]) (st_tasks ex_active) = st_tasks ex_active" by (simp add: list_all_iff filter_id_conv)
  obtain st' rows where "follow 2 ex_hashes (\<lambda>n i j. 5) (Some ex_scope) [OPEN] None 1 True ex_active = (st', Some (map entry_of rows))"
    "list_all2 shown (sort_key age_order (filter (listed (Some ex_scope) [OPEN]) (st_tasks ex_active))) rows"
    using pages_cover_the_list [OF ex_active_star, of 1 2 _ "Some ex_scope" "[OPEN]" "\<lambda>n i j. 5" True] one(1) by auto
  then show ?thesis using one(1) list_all2_lengthD unfolding all by fastforce
qed

end
