(* ===== verification/Guard_Enforcement.thy ===== *)
theory Guard_Enforcement
  imports Json_Values "HOL-Library.AList"
begin

text \<open>
  Which adapters can really block an action, bind a session, submit a host proposal or show the delta tool
  (\<^verbatim>\<open>src/atmem/task_state/enforcement.py\<close>), and the part of the capability response that is derived from them
  (\<^verbatim>\<open>src/atmem/contracts/versions.py\<close>).  A registry is an association list in the order of the Python dictionary; the
  protocol check \<^verbatim>\<open>isinstance(enforcer, GuardEnforcer)\<close> is an argument.
\<close>

record 'e enforcement_registration =
  er_adapter :: string
  er_enforcer :: 'e
  er_evidence :: "(unit \<Rightarrow> json) option"

record 'e registries =
  rg_enforcers :: "(string \<times> 'e enforcement_registration) list"
  rg_session_binding :: "(string \<times> string) list"
  rg_host_proposal :: "(string \<times> string) list"
  rg_agent_delta_tool :: "(string \<times> string) list"

definition given_name :: "string option \<Rightarrow> string" where
  "given_name adapter = py_strip (case adapter of None \<Rightarrow> [] | Some s \<Rightarrow> s)"

definition register_enforcer ::
  "('e \<Rightarrow> bool) \<Rightarrow> string option \<Rightarrow> 'e \<Rightarrow> (unit \<Rightarrow> json) option \<Rightarrow> 'e registries \<Rightarrow> py_error + 'e registries" where
  "register_enforcer is_enforcer adapter enforcer evidence R =
     (let name = given_name adapter in
      if name = [] then Inl ValueError
      else if \<not> is_enforcer enforcer then Inl TypeError
      else Inr (R\<lparr>rg_enforcers := AList.update name
                    \<lparr>er_adapter = name, er_enforcer = enforcer, er_evidence = evidence\<rparr> (rg_enforcers R)\<rparr>))"

definition unregister_enforcer :: "string option \<Rightarrow> 'e registries \<Rightarrow> 'e registries" where
  "unregister_enforcer adapter R = R\<lparr>rg_enforcers := AList.delete (py_str adapter) (rg_enforcers R)\<rparr>"

definition sorted_keys :: "(string \<times> 'v) list \<Rightarrow> string list" where
  "sorted_keys kvs = sort (map fst kvs)"

definition enforcing_adapters :: "'e registries \<Rightarrow> string list" where
  "enforcing_adapters R = sorted_keys (rg_enforcers R)"

definition guard_enforcement_available :: "'e registries \<Rightarrow> bool" where
  "guard_enforcement_available R \<longleftrightarrow> rg_enforcers R \<noteq> []"

definition register_session_binding :: "string option \<Rightarrow> string option \<Rightarrow> 'e registries \<Rightarrow> py_error + 'e registries" where
  "register_session_binding adapter reset_signal R =
     (let name = given_name adapter in
      if name = [] then Inl ValueError
      else if given_name reset_signal = [] then Inl ValueError
      else Inr (R\<lparr>rg_session_binding := AList.update name (py_str reset_signal) (rg_session_binding R)\<rparr>))"

definition register_host_proposal :: "string option \<Rightarrow> 'e registries \<Rightarrow> py_error + 'e registries" where
  "register_host_proposal adapter R =
     (let name = given_name adapter in
      if name = [] then Inl ValueError
      else Inr (R\<lparr>rg_host_proposal := AList.update name name (rg_host_proposal R)\<rparr>))"

definition register_agent_delta_tool :: "string option \<Rightarrow> string option \<Rightarrow> 'e registries \<Rightarrow> py_error + 'e registries" where
  "register_agent_delta_tool adapter tool_name R =
     (let name = given_name adapter in
      if name = [] then Inl ValueError
      else if given_name tool_name = [] then Inl ValueError
      else Inr (R\<lparr>rg_agent_delta_tool := AList.update name (py_str tool_name) (rg_agent_delta_tool R)\<rparr>))"

definition session_binding_adapters :: "'e registries \<Rightarrow> string list" where
  "session_binding_adapters R = sorted_keys (rg_session_binding R)"

definition host_proposal_adapters :: "'e registries \<Rightarrow> string list" where
  "host_proposal_adapters R = sorted_keys (rg_host_proposal R)"

definition agent_delta_tool_adapters :: "'e registries \<Rightarrow> string list" where
  "agent_delta_tool_adapters R = sorted_keys (rg_agent_delta_tool R)"

definition unregister_amendment_capabilities :: "string option \<Rightarrow> 'e registries \<Rightarrow> 'e registries" where
  "unregister_amendment_capabilities adapter R =
     (let name = py_str adapter in
      R\<lparr>rg_session_binding := AList.delete name (rg_session_binding R),
        rg_host_proposal := AList.delete name (rg_host_proposal R),
        rg_agent_delta_tool := AList.delete name (rg_agent_delta_tool R)\<rparr>)"

text \<open>The registrations that the module itself makes when it is loaded.\<close>

definition loaded :: "py_error + 'e registries" where
  "loaded =
     bind_res (register_session_binding (Some ''openclaw'') (Some ''sessionId'')
       \<lparr>rg_enforcers = [], rg_session_binding = [], rg_host_proposal = [], rg_agent_delta_tool = []\<rparr>) (\<lambda>R.
     bind_res (register_host_proposal (Some ''openclaw'') R)
       (register_agent_delta_tool (Some ''openclaw'') (Some ''task_report_progress'')))"

text \<open>The entries of the capability response that are not constants.\<close>

record derived_capabilities =
  dc_guard_enforcement :: bool
  dc_session_binding :: bool
  dc_host_proposal :: bool
  dc_agent_delta_tool :: bool
  dc_enforcing_adapters :: "string list"
  dc_session_binding_adapters :: "string list"
  dc_host_proposal_adapters :: "string list"
  dc_agent_delta_tool_adapters :: "string list"

definition capabilities :: "'e registries \<Rightarrow> derived_capabilities" where
  "capabilities R =
     \<lparr>dc_guard_enforcement = guard_enforcement_available R,
      dc_session_binding = (session_binding_adapters R \<noteq> []),
      dc_host_proposal = (host_proposal_adapters R \<noteq> []),
      dc_agent_delta_tool = (agent_delta_tool_adapters R \<noteq> []),
      dc_enforcing_adapters = enforcing_adapters R,
      dc_session_binding_adapters = session_binding_adapters R,
      dc_host_proposal_adapters = host_proposal_adapters R,
      dc_agent_delta_tool_adapters = agent_delta_tool_adapters R\<rparr>"

section \<open>What is advertised\<close>

lemma set_sorted_keys [simp]: "set (sorted_keys kvs) = fst ` set kvs"
  by (simp add: sorted_keys_def)

lemma sorted_keys_Nil [simp]: "sorted_keys kvs = [] \<longleftrightarrow> kvs = []"
  by (metis image_is_empty set_empty set_sorted_keys)

lemma set_adapters [simp]:
  "set (enforcing_adapters R) = fst ` set (rg_enforcers R)"
  "set (session_binding_adapters R) = fst ` set (rg_session_binding R)"
  by (simp_all add: enforcing_adapters_def session_binding_adapters_def)

text \<open>The response claims enforcement exactly while some adapter is listed.\<close>

lemma enforcement_is_derived:
  "dc_guard_enforcement (capabilities R) \<longleftrightarrow> dc_enforcing_adapters (capabilities R) \<noteq> []"
  by (simp add: capabilities_def guard_enforcement_available_def enforcing_adapters_def)

text \<open>At start no adapter enforces, and one binds, proposes and shows the tool.\<close>

lemma loaded_capabilities:
  "map_sum id capabilities loaded =
     Inr \<lparr>dc_guard_enforcement = False, dc_session_binding = True, dc_host_proposal = True, dc_agent_delta_tool = True,
          dc_enforcing_adapters = [], dc_session_binding_adapters = [''openclaw''],
          dc_host_proposal_adapters = [''openclaw''], dc_agent_delta_tool_adapters = [''openclaw'']\<rparr>"
  by code_simp

lemma keys_update: "fst ` set (AList.update k v kvs) = insert k (fst ` set kvs)"
  by (induction kvs) auto

lemma keys_delete: "fst ` set (AList.delete k kvs) = fst ` set kvs - {k}"
  by (induction kvs) auto

lemma registered_enforcer_listed:
  assumes "register_enforcer chk adapter x ev R = Inr R'"
  shows "set (enforcing_adapters R') = insert (given_name adapter) (set (enforcing_adapters R))" and "chk x"
  using assms keys_update [of "given_name adapter" _ "rg_enforcers R"]
  by (simp_all add: register_enforcer_def Let_def split: if_splits) (metis registries.select_convs(1) registries.surjective registries.update_convs(1))

text \<open>
  A registration strips the name and a removal does not: removing an enforcer by the name it was registered with
  leaves it listed when that name has outer white space, and the response goes on claiming enforcement.
\<close>

theorem removal_is_exact:
  assumes "register_enforcer chk (Some a) x ev R = Inr R'"
  shows "py_strip a \<in> set (enforcing_adapters (unregister_enforcer (Some a) R')) \<longleftrightarrow> py_strip a \<noteq> a"
    and "guard_enforcement_available (unregister_enforcer (Some a) R') \<longleftrightarrow>
      py_strip a \<noteq> a \<or> set (enforcing_adapters R) - {a} \<noteq> {}"
proof -
  have names: "fst ` set (rg_enforcers (unregister_enforcer (Some a) R')) =
      insert (py_strip a) (fst ` set (rg_enforcers R)) - {a}"
    using registered_enforcer_listed(1) [OF assms]
    by (simp add: unregister_enforcer_def keys_delete given_name_def)
  then show "py_strip a \<in> set (enforcing_adapters (unregister_enforcer (Some a) R')) \<longleftrightarrow> py_strip a \<noteq> a" by simp
  show "guard_enforcement_available (unregister_enforcer (Some a) R') \<longleftrightarrow>
      py_strip a \<noteq> a \<or> set (enforcing_adapters R) - {a} \<noteq> {}"
    using names by (auto simp: guard_enforcement_available_def simp flip: image_is_empty [of fst "set _"] set_empty)
qed

end
