(* ===== verification/Audit_Checkpoint.thy ===== *)
theory Audit_Checkpoint
  imports Audit_Log
begin

text \<open>
  Anchored checkpoints (\<^verbatim>\<open>checkpoint\<close> and \<^verbatim>\<open>verify\<close> of \<^verbatim>\<open>src/atmem/memory.py\<close>, \<^verbatim>\<open>chain_heads\<close> of
  \<^verbatim>\<open>src/atmem/store/sqlite.py\<close>): a document with the head of every chain, kept where the owner of the
  database cannot rewrite it, and the verification of a log against such documents.  The documents are the JSON
  values of the lines of the checkpoint file.  The check of the record rows is an argument of \<open>verify\<close>.
\<close>

record chain_head =
  ch_sequence :: nat
  ch_event_hash :: string
  ch_event_count :: nat

definition chain_heads :: "audit_log \<Rightarrow> (string \<times> chain_head) list" where
  "chain_heads log =
     map (\<lambda>sub. let es = list_audit_events log sub in
            (sub, \<lparr>ch_sequence = ae_sequence (last es), ch_event_hash = ae_event_hash (last es), ch_event_count = length es\<rparr>))
       (dedup (map ae_subject_id (al_events log)))"

definition head_json :: "chain_head \<Rightarrow> json" where
  "head_json h =
     JObj [(''sequence'', JNum (int (ch_sequence h))), (''event_hash'', JStr (ch_event_hash h)),
           (''event_count'', JNum (int (ch_event_count h)))]"

definition checkpoint_body :: "int \<Rightarrow> audit_log \<Rightarrow> (string \<times> json) list" where
  "checkpoint_body now log =
     [(''format'', JStr ''atmem-checkpoint-v1''), (''created_at'', JTime now),
      (''subjects'', JObj (map (\<lambda>(sub, h). (sub, head_json h)) (chain_heads log)))]"

definition checkpoint :: "hashes \<Rightarrow> int \<Rightarrow> audit_log \<Rightarrow> json" where
  "checkpoint H now log =
     JObj (checkpoint_body now log @
       [(''checkpoint_sha256'', JStr (sha_json H (canonical (JObj (checkpoint_body now log)))))])"

record integrity_report =
  ir_enabled :: bool
  ir_valid :: bool
  ir_committed_records :: nat
  ir_records_checked :: nat
  ir_failures :: "(string \<times> string) list"

text \<open>A failure names the time of a checkpoint, a record, or neither, and the reason.\<close>

record verify_failure =
  vf_checkpoint :: "json option"
  vf_record_id :: "string option"
  vf_reason :: string

record subject_report =
  sr_chain_valid :: bool
  sr_incremental :: "verification_report option"
  sr_record_integrity :: integrity_report
  sr_checkpoints_checked :: nat
  sr_failures :: "verify_failure list"

record verify_report =
  rp_valid :: bool
  rp_subjects :: "(string \<times> subject_report) list"

definition chain_failures :: "verification_report option \<Rightarrow> verify_failure list" where
  "chain_failures inc =
     (case inc of
        None \<Rightarrow> []
      | Some r \<Rightarrow> if vr_valid r then []
                  else [\<lparr>vf_checkpoint = None, vf_record_id = None, vf_reason = py_str (vr_failure r)\<rparr>])"

definition subject_report_of ::
  "hashes \<Rightarrow> int \<Rightarrow> (string \<Rightarrow> integrity_report) \<Rightarrow> bool \<Rightarrow> string \<Rightarrow> audit_log \<Rightarrow> audit_log \<times> subject_report" where
  "subject_report_of H now integrity incremental sid log =
     (let (log', inc) =
            (if incremental then map_prod id Some (verify_audit_chain_incremental H now False log sid) else (log, None));
          ir = integrity sid
      in (log', \<lparr>sr_chain_valid = (case inc of None \<Rightarrow> verify_audit_chain H log' sid | Some r \<Rightarrow> vr_valid r),
                 sr_incremental = inc, sr_record_integrity = ir, sr_checkpoints_checked = 0,
                 sr_failures = chain_failures inc @
                   map (\<lambda>(r, why). \<lparr>vf_checkpoint = None, vf_record_id = Some r, vf_reason = why\<rparr>) (ir_failures ir)\<rparr>))"

fun subject_reports ::
  "hashes \<Rightarrow> int \<Rightarrow> (string \<Rightarrow> integrity_report) \<Rightarrow> bool \<Rightarrow> string list \<Rightarrow> audit_log \<Rightarrow>
   audit_log \<times> (string \<times> subject_report) list" where
  "subject_reports H now integrity incremental [] log = (log, [])"
| "subject_reports H now integrity incremental (sid # sids) log =
     (let (log', r) = subject_report_of H now integrity incremental sid log;
          (log'', rs) = subject_reports H now integrity incremental sids log'
      in (log'', (sid, r) # rs))"

definition add_failure :: "json \<Rightarrow> string \<Rightarrow> subject_report \<Rightarrow> subject_report" where
  "add_failure doc reason r =
     r\<lparr>sr_failures := sr_failures r @
        [\<lparr>vf_checkpoint = jget doc ''created_at'', vf_record_id = None, vf_reason = reason\<rparr>]\<rparr>"

fun as_int :: "json \<Rightarrow> int option" where
  "as_int (JNum n) = Some n"
| "as_int _ = None"

text \<open>One pinned head against the log.\<close>

definition check_pin :: "audit_log \<Rightarrow> json \<Rightarrow> string \<Rightarrow> json \<Rightarrow> subject_report \<Rightarrow> py_error + subject_report" where
  "check_pin log doc sid pinned r0 =
     (let r = r0\<lparr>sr_checkpoints_checked := sr_checkpoints_checked r0 + 1\<rparr> in
      bind_res (jfield pinned ''sequence'' as_int) (\<lambda>n.
        case (if n < 0 then None else event_at_sequence log sid (nat n)) of
          None \<Rightarrow>
            Inr (add_failure doc
              (''pinned event at sequence '' @ (if n < 0 then ''-'' else []) @ show_nat (nat \<bar>n\<bar>) @
               '' is missing (tail truncated?)'') r)
        | Some e \<Rightarrow>
            bind_res (jfield pinned ''event_hash'' Some) (\<lambda>h.
              if JStr (ae_event_hash e) \<noteq> h
              then Inr (add_failure doc
                     (''event hash at sequence '' @ show_nat (nat n) @ '' does not match checkpoint'') r)
              else Inr r)))"

fun check_pins ::
  "audit_log \<Rightarrow> json \<Rightarrow> (string \<times> json) list \<Rightarrow> (string \<times> subject_report) list \<Rightarrow> py_error + (string \<times> subject_report) list"
where
  "check_pins log doc [] reports = Inr reports"
| "check_pins log doc ((sid, pinned) # pins) reports =
     (case map_of reports sid of
        None \<Rightarrow> check_pins log doc pins reports
      | Some r \<Rightarrow>
          bind_res (check_pin log doc sid pinned r) (\<lambda>r'.
            check_pins log doc pins (map (\<lambda>(s, x). if s = sid then (s, r') else (s, x)) reports)))"

definition check_document ::
  "hashes \<Rightarrow> audit_log \<Rightarrow> json \<Rightarrow> (string \<times> subject_report) list \<Rightarrow> py_error + (string \<times> subject_report) list" where
  "check_document H log doc reports =
     (case doc of
        JObj kvs \<Rightarrow>
          (if Some (JStr (sha_json H (canonical (JObj (filter (\<lambda>kv. fst kv \<noteq> ''checkpoint_sha256'') kvs))))) \<noteq>
              jget doc ''checkpoint_sha256''
           then Inr (map (\<lambda>(s, r). (s, add_failure doc ''checkpoint digest mismatch'' r)) reports)
           else
             (case jget doc ''subjects'' of
                None \<Rightarrow> Inr reports
              | Some (JObj pins) \<Rightarrow> check_pins log doc pins reports
              | Some _ \<Rightarrow> Inl TypeError))
      | _ \<Rightarrow> Inl TypeError)"

definition verify ::
  "hashes \<Rightarrow> int \<Rightarrow> (string \<Rightarrow> integrity_report) \<Rightarrow> string option \<Rightarrow> json list \<Rightarrow> bool \<Rightarrow> audit_log \<Rightarrow>
   audit_log \<times> (py_error + verify_report)" where
  "verify H now integrity subject docs incremental log =
     (let sids = (case subject of Some s \<Rightarrow> [s] | None \<Rightarrow> sort (map fst (chain_heads log)));
          (log', reports) = subject_reports H now integrity incremental sids log
      in (log', bind_res (fold_res (check_document H log') docs reports) (\<lambda>rs.
            Inr \<lparr>rp_valid = list_all (\<lambda>(s, r). sr_chain_valid r \<and> sr_failures r = []) rs, rp_subjects = rs\<rparr>)))"

section \<open>What a valid report says\<close>

lemma subject_reports_full:
  "subject_reports H now integrity False sids log =
     (log, map (\<lambda>s. (s, snd (subject_report_of H now integrity False s log))) sids)"
  by (induction sids) (simp_all add: subject_report_of_def Let_def)

text \<open>Checking a document keeps the subjects and only adds failures.\<close>

definition grown :: "(string \<times> subject_report) list \<Rightarrow> (string \<times> subject_report) list \<Rightarrow> bool" where
  "grown rs rs' \<longleftrightarrow> map fst rs' = map fst rs \<and>
     (\<forall>s r r'. map_of rs s = Some r \<longrightarrow> map_of rs' s = Some r' \<longrightarrow>
        sr_chain_valid r' = sr_chain_valid r \<and> (sr_failures r' = [] \<longrightarrow> sr_failures r = []))"

lemma grown_refl [simp]: "grown rs rs"
  by (simp add: grown_def)

lemma map_of_keys: "map fst rs' = map fst rs \<Longrightarrow> map_of rs' s = None \<longleftrightarrow> map_of rs s = None"
  by (metis map_of_eq_None_iff list.set_map)

lemma grown_trans:
  assumes "grown rs rs'" and "grown rs' rs''"
  shows "grown rs rs''"
proof -
  have "\<exists>r'. map_of rs' s = Some r'" if "map_of rs s = Some r" for s r
    using assms(1) that map_of_keys [of rs' rs s] by (auto simp: grown_def)
  then show ?thesis using assms unfolding grown_def by metis
qed

lemma map_of_mapped:
  "(\<And>s x. (s, x) \<in> set rs \<Longrightarrow> fst (f (s, x)) = s) \<Longrightarrow>
     map_of (map f rs) k = map_option (\<lambda>x. snd (f (k, x))) (map_of rs k)"
proof (induction rs)
  case (Cons p rs)
  obtain s x where p: "p = (s, x)" by (cases p)
  have "fst (f (s, x)) = s" using Cons.prems [of s x] p by simp
  moreover have "map_of (map f rs) k = map_option (\<lambda>x. snd (f (k, x))) (map_of rs k)"
    using Cons.prems by (intro Cons.IH) simp
  ultimately show ?case using p by (cases "f (s, x)") auto
qed simp

lemma map_of_put:
  "map_of (map (\<lambda>(s, x). if s = sid then (s, r') else (s, x)) rs) k =
     (if k = sid then map_option (\<lambda>_. r') (map_of rs k) else map_of rs k)"
  by (subst map_of_mapped) (auto simp: option.map_ident)

lemma check_pin_result:
  assumes "check_pin log doc sid pinned r = Inr r'"
  shows "sr_chain_valid r' = sr_chain_valid r" "sr_failures r' = [] \<Longrightarrow> sr_failures r = []"
    "sr_failures r' = [] \<Longrightarrow> \<exists>n e. jget pinned ''sequence'' = Some (JNum n) \<and> 0 \<le> n \<and>
       event_at_sequence log sid (nat n) = Some e \<and> jget pinned ''event_hash'' = Some (JStr (ae_event_hash e))"
proof -
  have "\<exists>n. jget pinned ''sequence'' = Some (JNum n)"
    using assms by (auto simp: check_pin_def jfield_def Let_def split: option.splits elim!: as_int.elims)
  then obtain n where n: "jget pinned ''sequence'' = Some (JNum n)" by blast
  show "sr_chain_valid r' = sr_chain_valid r" "sr_failures r' = [] \<Longrightarrow> sr_failures r = []"
    using assms n by (auto simp: check_pin_def jfield_def Let_def add_failure_def split: option.splits if_splits)
  show "\<exists>n e. jget pinned ''sequence'' = Some (JNum n) \<and> 0 \<le> n \<and>
       event_at_sequence log sid (nat n) = Some e \<and> jget pinned ''event_hash'' = Some (JStr (ae_event_hash e))"
    if "sr_failures r' = []"
    using assms n that
    by (auto simp: check_pin_def jfield_def Let_def add_failure_def not_less split: option.splits if_splits)
qed

lemma check_pins_grown: "check_pins log doc pins rs = Inr rs' \<Longrightarrow> grown rs rs'"
proof (induction pins arbitrary: rs)
  case (Cons p pins)
  obtain sid pinned where p: "p = (sid, pinned)" by (cases p)
  show ?case
  proof (cases "map_of rs sid")
    case None
    then show ?thesis using Cons p by simp
  next
    case (Some r)
    with Cons.prems p obtain r1 where r1: "check_pin log doc sid pinned r = Inr r1"
      "check_pins log doc pins (map (\<lambda>(s, x). if s = sid then (s, r1) else (s, x)) rs) = Inr rs'" by auto
    have "grown rs (map (\<lambda>(s, x). if s = sid then (s, r1) else (s, x)) rs)"
      using check_pin_result(1,2) [OF r1(1)] Some by (auto simp: grown_def map_of_put intro: map_cong split: if_splits)
    then show ?thesis using Cons.IH [OF r1(2)] by (rule grown_trans)
  qed
qed simp

lemma check_pins_hold:
  assumes "check_pins log doc pins rs = Inr rs'" and "(sid, pinned) \<in> set pins" and "map_of rs' sid = Some r'"
    and "sr_failures r' = []"
  shows "\<exists>n e. jget pinned ''sequence'' = Some (JNum n) \<and> 0 \<le> n \<and>
     event_at_sequence log sid (nat n) = Some e \<and> jget pinned ''event_hash'' = Some (JStr (ae_event_hash e))"
  using assms(1,2)
proof (induction pins arbitrary: rs)
  case (Cons p pins)
  obtain s q where p: "p = (s, q)" by (cases p)
  have sid: "map_of rs sid \<noteq> None"
    using check_pins_grown [OF Cons.prems(1)] assms(3) map_of_keys [of rs' rs sid] by (auto simp: grown_def)
  show ?case
  proof (cases "map_of rs s")
    case None
    then show ?thesis using Cons p sid by auto
  next
    case (Some r)
    let ?rs1 = "\<lambda>r1. map (\<lambda>(s', x). if s' = s then (s', r1) else (s', x)) rs"
    from Some Cons.prems(1) p obtain r1 where r1: "check_pin log doc s q r = Inr r1"
      "check_pins log doc pins (?rs1 r1) = Inr rs'" by auto
    show ?thesis
    proof (cases "(sid, pinned) = p")
      case True
      have "map_of (?rs1 r1) sid = Some r1" using Some True p by (simp add: map_of_put)
      then have "sr_failures r1 = []"
        using check_pins_grown [OF r1(2)] assms(3,4) unfolding grown_def by blast
      then show ?thesis using check_pin_result(3) [OF r1(1)] True p by simp
    next
      case False
      then show ?thesis using Cons.IH [OF r1(2)] Cons.prems(2) by simp
    qed
  qed
qed simp

lemma check_document_grown: "check_document H log doc rs = Inr rs' \<Longrightarrow> grown rs rs'"
proof -
  assume run: "check_document H log doc rs = Inr rs'"
  let ?marked = "map (\<lambda>(s, r). (s, add_failure doc ''checkpoint digest mismatch'' r)) rs"
  from run have "rs' = ?marked \<or> rs' = rs \<or> (\<exists>pins. check_pins log doc pins rs = Inr rs')"
    by (simp add: check_document_def split: json.splits if_splits option.splits) auto
  moreover have "grown rs ?marked"
  proof -
    have "map_of ?marked s = map_option (add_failure doc ''checkpoint digest mismatch'') (map_of rs s)" for s
      by (subst map_of_mapped) auto
    moreover have "map fst ?marked = map fst rs" by auto
    ultimately show ?thesis by (auto simp: grown_def add_failure_def)
  qed
  ultimately show "grown rs rs'" using check_pins_grown by auto
qed

lemma check_documents_grown: "fold_res (check_document H log) docs rs = Inr rs' \<Longrightarrow> grown rs rs'"
  by (induction docs arbitrary: rs) (auto intro: grown_trans check_document_grown)

lemma valid_reports:
  assumes "verify H now integrity subject docs False log = (log', Inr rp)" and "rp_valid rp"
    and "sub \<in> set (map fst (rp_subjects rp))"
  shows "verify_audit_chain H log sub" "log' = log"
    "doc \<in> set docs \<Longrightarrow> \<exists>rs rs' r'. check_document H log doc rs = Inr rs' \<and> map_of rs' sub = Some r' \<and> sr_failures r' = []"
proof -
  define sids where "sids = (case subject of Some s \<Rightarrow> [s] | None \<Rightarrow> sort (map fst (chain_heads log)))"
  define rs0 where "rs0 = map (\<lambda>s. (s, snd (subject_report_of H now integrity False s log))) sids"
  note parts = assms(1) [unfolded verify_def Let_def sids_def [symmetric] subject_reports_full rs0_def [symmetric]]
  then show "log' = log" by simp
  from parts have run: "fold_res (check_document H log) docs rs0 = Inr (rp_subjects rp)"
    and valid: "rp_valid rp = list_all (\<lambda>(s, r). sr_chain_valid r \<and> sr_failures r = []) (rp_subjects rp)" by auto
  obtain r where r: "map_of (rp_subjects rp) sub = Some r"
    using assms(3) by (metis list.set_map map_of_eq_None_iff not_Some_eq)
  have ok: "sr_chain_valid r" "sr_failures r = []"
    using map_of_SomeD [OF r] valid assms(2) by (auto simp: list_all_iff)
  have g: "grown rs0 (rp_subjects rp)" using run by (rule check_documents_grown)
  have "map_of rs0 sub \<noteq> None" using g r map_of_keys [of "rp_subjects rp" rs0 sub] by (auto simp: grown_def)
  then obtain r0 where r0: "map_of rs0 sub = Some r0" by blast
  have "r0 = snd (subject_report_of H now integrity False sub log)"
    using map_of_SomeD [OF r0] by (auto simp: rs0_def)
  moreover have "sr_chain_valid r0" using g r0 r ok(1) unfolding grown_def by blast
  ultimately show "verify_audit_chain H log sub" by (simp add: subject_report_of_def Let_def)
  show "\<exists>rs rs' r'. check_document H log doc rs = Inr rs' \<and> map_of rs' sub = Some r' \<and> sr_failures r' = []"
    if mem: "doc \<in> set docs"
  proof -
    obtain ds1 ds2 where ds: "docs = ds1 @ doc # ds2" using split_list [OF mem] by blast
    with run obtain rs rs' where "check_document H log doc rs = Inr rs'"
      and rest: "fold_res (check_document H log) ds2 rs' = Inr (rp_subjects rp)" by (auto simp: fold_res_append)
    moreover have g': "grown rs' (rp_subjects rp)" using rest by (rule check_documents_grown)
    moreover obtain r' where "map_of rs' sub = Some r'"
      using g' r map_of_keys [of "rp_subjects rp" rs' sub] by (auto simp: grown_def)
    ultimately show ?thesis using r ok(2) unfolding grown_def by blast
  qed
qed

section \<open>Checkpoints of a log\<close>

lemma head_of_chain:
  assumes "(sub, h) \<in> set (chain_heads log)"
  obtains es e where "list_audit_events log sub = es @ [e]" "ch_sequence h = ae_sequence e"
    "ch_event_hash h = ae_event_hash e" "ch_event_count h = length (es @ [e])"
proof -
  from assms have sub: "sub \<in> ae_subject_id ` set (al_events log)"
    and h: "h = \<lparr>ch_sequence = ae_sequence (last (list_audit_events log sub)),
      ch_event_hash = ae_event_hash (last (list_audit_events log sub)), ch_event_count = length (list_audit_events log sub)\<rparr>"
    by (auto simp: chain_heads_def Let_def)
  from sub have "set (list_audit_events log sub) \<noteq> {}" by (auto simp: list_audit_events_def)
  then obtain es e where "list_audit_events log sub = es @ [e]" by (cases "list_audit_events log sub" rule: rev_cases) auto
  then show thesis using h by (intro that [of es e]) simp_all
qed

lemma checkpoint_fields:
  "checkpoint H t log = JObj (checkpoint_body t log @
     [(''checkpoint_sha256'', JStr (sha_json H (canonical (JObj (checkpoint_body t log)))))])"
  "filter (\<lambda>kv. fst kv \<noteq> ''checkpoint_sha256'') (checkpoint_body t log @ [(''checkpoint_sha256'', v)]) = checkpoint_body t log"
  "jget (checkpoint H t log) ''subjects'' = Some (JObj (map (\<lambda>(sub, h). (sub, head_json h)) (chain_heads log)))"
  "jget (checkpoint H t log) ''checkpoint_sha256'' = Some (JStr (sha_json H (canonical (JObj (checkpoint_body t log)))))"
  by (simp_all add: checkpoint_def checkpoint_body_def)

lemma check_own_document:
  "check_document H log' (checkpoint H t log) rs =
     check_pins log' (checkpoint H t log) (map (\<lambda>(sub, h). (sub, head_json h)) (chain_heads log)) rs"
proof -
  obtain kvs where doc: "checkpoint H t log = JObj kvs"
    and body: "filter (\<lambda>kv. fst kv \<noteq> ''checkpoint_sha256'') kvs = checkpoint_body t log"
    using checkpoint_fields(1,2) by metis
  note fields = checkpoint_fields(3,4) [of H t log, unfolded doc]
  show ?thesis unfolding check_document_def doc by (simp add: body fields del: canonical.simps jget.simps)
qed

text \<open>The pinned head of a subject is still an event of its chain.\<close>

lemma pinned_event:
  assumes "verify H now integrity subject docs False log = (log', Inr rp)" and "rp_valid rp"
    and "checkpoint H t old \<in> set docs" and "sub \<in> set (map fst (rp_subjects rp))"
    and "(sub, h) \<in> set (chain_heads old)"
  obtains e where "e \<in> set (list_audit_events log sub)" "ae_event_hash e = ch_event_hash h"
proof -
  obtain rs rs' r' where run: "check_document H log (checkpoint H t old) rs = Inr rs'" "map_of rs' sub = Some r'"
    "sr_failures r' = []" using valid_reports(3) [OF assms(1,2,4,3)] by blast
  have "(sub, head_json h) \<in> set (map (\<lambda>(sub, h). (sub, head_json h)) (chain_heads old))" using assms(5) by force
  from check_pins_hold [OF run(1) [unfolded check_own_document] this run(2,3)]
  obtain n e where "jget (head_json h) ''event_hash'' = Some (JStr (ae_event_hash e))" "event_at_sequence log sub n = Some e"
    by blast
  then show thesis
    by (intro that [of e]) (auto simp: head_json_def event_at_sequence_def list_audit_events_def find_Some_iff)
qed

text \<open>
  [C19] A checkpoint pins the history below it.  Let a document be taken of a log that the store built.  If any
  log, however it was edited, verifies in full against a set of documents with this one, then for every subject of
  the document that the verification reports on, the events of the document's log are the first events of the
  verified log, unless the hash collides on one of the event bodies.
\<close>

theorem checkpoint_pins_history:
  assumes "(audit_step H)\<^sup>*\<^sup>* empty_log old" and "checkpoint H t old \<in> set docs"
    and "verify H now integrity subject docs False log = (log', Inr rp)" and "rp_valid rp"
    and "sub \<in> set (map fst (rp_subjects rp))" and "sub \<in> ae_subject_id ` set (al_events old)"
    and "inj_on (sha_json H) (hashed_body ` (set (list_audit_events old sub) \<union> set (list_audit_events log sub)))"
  shows "\<exists>later. map event_content (list_audit_events log sub) = map event_content (list_audit_events old sub) @ later"
proof -
  from assms(6) obtain h where h: "(sub, h) \<in> set (chain_heads old)" by (auto simp: chain_heads_def Let_def)
  obtain es l where old: "list_audit_events old sub = es @ [l]" and hash: "ch_event_hash h = ae_event_hash l"
    using head_of_chain [OF h] by metis
  obtain e where e: "e \<in> set (list_audit_events log sub)" "ae_event_hash e = ch_event_hash h"
    using pinned_event [OF assms(3,4,2,5) h] by blast
  obtain xs ys where split: "list_audit_events log sub = (xs @ [e]) @ ys" using split_list [OF e(1)] by auto
  have "chain_valid H None (xs @ [e])"
    using valid_reports(1) [OF assms(3-5)] unfolding verify_audit_chain_iff split by (simp add: chain_valid_append)
  moreover have "chain_valid H None (es @ [l])"
    using audit.inv_reachable [OF refl assms(1)] unfolding old [symmetric] by (simp add: audit_inv_def verify_audit_chain_iff)
  moreover have "head_hash (es @ [l]) = head_hash (xs @ [e])" using e(2) hash by simp
  moreover have "inj_on (sha_json H) (hashed_body ` (set (es @ [l]) \<union> set (xs @ [e])))"
    using assms(7) unfolding split old by (rule inj_on_subset) auto
  ultimately have "map event_content (es @ [l]) = map event_content (xs @ [e])"
    using audit_chain_tamper_evident [of H "es @ [l]" "xs @ [e]"] by blast
  then show ?thesis unfolding split old by (metis map_append)
qed

definition ex_audit_log :: audit_log where
  "ex_audit_log = append_audit_event ex_audit_hashes ''e1'' 3 ''alice'' ''t'' (JObj []) ''op'' None None None empty_log"

definition no_findings :: "string \<Rightarrow> integrity_report" where
  "no_findings s = \<lparr>ir_enabled = False, ir_valid = True, ir_committed_records = 0, ir_records_checked = 0, ir_failures = []\<rparr>"

lemma ex_audit_log_star: "(audit_step ex_audit_hashes)\<^sup>*\<^sup>* empty_log ex_audit_log"
  unfolding ex_audit_log_def by (intro r_into_rtranclp append)

lemma ex_audit_log_events:
  "list_audit_events ex_audit_log ''alice'' = [ex_event]" "al_events ex_audit_log = [ex_event]"
  by code_simp+

theorem checkpoint_pins_history_witness:
  "\<exists>later. map event_content (list_audit_events ex_audit_log ''alice'') =
     map event_content (list_audit_events ex_audit_log ''alice'') @ later"
proof -
  let ?v = "verify ex_audit_hashes 5 no_findings (Some ''alice'') [checkpoint ex_audit_hashes 4 ex_audit_log] False ex_audit_log"
  have "case snd ?v of Inl _ \<Rightarrow> False | Inr rp \<Rightarrow> rp_valid rp \<and> map fst (rp_subjects rp) = [''alice'']" by code_simp
  then obtain log' rp where v: "?v = (log', Inr rp)" and ok: "rp_valid rp" and subs: "map fst (rp_subjects rp) = [''alice'']"
    by (cases ?v) (auto split: sum.splits)
  show ?thesis
    by (rule checkpoint_pins_history [OF ex_audit_log_star _ v ok, where t = 4])
       (simp_all add: subs ex_audit_log_events ex_event_def)
qed

section \<open>What a checkpoint does not show\<close>

lemma check_pins_passes:
  assumes "\<And>sid pinned. (sid, pinned) \<in> set pins \<Longrightarrow> map_of rs sid \<noteq> None \<Longrightarrow>
      \<exists>n e. jget pinned ''sequence'' = Some (JNum n) \<and> 0 \<le> n \<and>
       event_at_sequence log sid (nat n) = Some e \<and> jget pinned ''event_hash'' = Some (JStr (ae_event_hash e))"
    and "list_all (\<lambda>(s, r). sr_chain_valid r \<and> sr_failures r = []) rs"
  shows "\<exists>rs'. check_pins log doc pins rs = Inr rs' \<and> list_all (\<lambda>(s, r). sr_chain_valid r \<and> sr_failures r = []) rs'"
  using assms
proof (induction pins arbitrary: rs)
  case (Cons p pins)
  obtain sid pinned where p: "p = (sid, pinned)" by (cases p)
  show ?case
  proof (cases "map_of rs sid")
    case None
    then show ?thesis using Cons p by simp
  next
    case (Some r)
    then have r: "sr_chain_valid r" "sr_failures r = []"
      using map_of_SomeD [OF Some] Cons.prems(2) by (auto simp: list_all_iff)
    let ?r1 = "r\<lparr>sr_checkpoints_checked := Suc (sr_checkpoints_checked r)\<rparr>"
    let ?rs1 = "map (\<lambda>(s, x). if s = sid then (s, ?r1) else (s, x)) rs"
    have "check_pin log doc sid pinned r = Inr ?r1"
      using Cons.prems(1) [of sid pinned] Some p by (auto simp: check_pin_def jfield_def Let_def)
    moreover have "list_all (\<lambda>(s, r). sr_chain_valid r \<and> sr_failures r = []) ?rs1"
      using Cons.prems(2) r by (auto simp: list_all_iff split: if_splits)
    moreover have "map_of ?rs1 s = None \<longleftrightarrow> map_of rs s = None" for s by (simp add: map_of_put)
    ultimately show ?thesis using Some p Cons.IH [of ?rs1] Cons.prems(1) by simp
  qed
qed simp

definition without_subject :: "string \<Rightarrow> audit_log \<Rightarrow> audit_log" where
  "without_subject sub log = log\<lparr>al_events := filter (\<lambda>e. ae_subject_id e \<noteq> sub) (al_events log)\<rparr>"

lemma list_without_subject:
  "list_audit_events (without_subject sub log) s = (if s = sub then [] else list_audit_events log s)"
  by (auto simp: list_audit_events_def without_subject_def intro!: arg_cong [of _ _ "sort_key ae_sequence"] filter_cong)

text \<open>
  [C27] A subject erased as a whole goes unnoticed.  Take a document of a log that the store built and delete all
  events of one subject: verifying every subject against that document still reports the log valid, because the
  verification reports only on subjects that still have events.
\<close>

theorem erased_subject_goes_unnoticed:
  assumes "(audit_step H)\<^sup>*\<^sup>* empty_log old" and "\<And>s. ir_failures (integrity s) = []"
  shows "\<exists>rp. verify H now integrity None [checkpoint H t old] False (without_subject sub old) =
     (without_subject sub old, Inr rp) \<and> rp_valid rp"
proof -
  let ?log = "without_subject sub old"
  define sids where "sids = sort (map fst (chain_heads ?log))"
  define rs0 where "rs0 = map (\<lambda>s. (s, snd (subject_report_of H now integrity False s ?log))) sids"
  have inv: "audit_inv H old" using audit.inv_reachable [OF refl assms(1)] .
  have valid: "verify_audit_chain H ?log s" for s
    using inv by (cases "s = sub") (simp_all add: audit_inv_def verify_audit_chain_iff list_without_subject)
  have good: "list_all (\<lambda>(s, r). sr_chain_valid r \<and> sr_failures r = []) rs0"
    using valid assms(2) by (auto simp: rs0_def list_all_iff subject_report_of_def Let_def chain_failures_def)
  have pins: "\<exists>n e. jget pinned ''sequence'' = Some (JNum n) \<and> 0 \<le> n \<and> event_at_sequence ?log sid (nat n) = Some e \<and>
      jget pinned ''event_hash'' = Some (JStr (ae_event_hash e))"
    if pin: "(sid, pinned) \<in> set (map (\<lambda>(sub, h). (sub, head_json h)) (chain_heads old))" "map_of rs0 sid \<noteq> None" for sid pinned
  proof -
    from pin(1) obtain h where h: "(sid, h) \<in> set (chain_heads old)" "pinned = head_json h" by auto
    obtain es e where e: "list_audit_events old sid = es @ [e]" "ch_sequence h = ae_sequence e" "ch_event_hash h = ae_event_hash e"
      using head_of_chain [OF h(1)] by metis
    from pin(2) obtain r where "(sid, r) \<in> set rs0" by (meson map_of_SomeD not_None_eq)
    then have "sid \<noteq> sub" by (auto simp: rs0_def sids_def chain_heads_def Let_def without_subject_def)
    then have "e \<in> set (list_audit_events ?log sid)" using e(1) by (simp add: list_without_subject)
    moreover have "log_ok ?log"
      using inv by (auto simp: audit_inv_def log_ok_def without_subject_def sorted_wrt_map intro: sorted_wrt_filter)
    ultimately have "event_at_sequence ?log sid (ae_sequence e) = Some e" by (intro event_at_sequence_eq)
    then show ?thesis using h(2) e(2,3) by (simp add: head_json_def)
  qed
  obtain rs where "check_document H ?log (checkpoint H t old) rs0 = Inr rs"
    "list_all (\<lambda>(s, r). sr_chain_valid r \<and> sr_failures r = []) rs"
    unfolding check_own_document using check_pins_passes [OF pins good] by blast
  then show ?thesis
    by (simp add: verify_def subject_reports_full sids_def [symmetric] rs0_def [symmetric])
qed

theorem erased_subject_goes_unnoticed_witness:
  "\<exists>rp. verify ex_audit_hashes 5 no_findings None [checkpoint ex_audit_hashes 4 ex_audit_log] False
     (without_subject ''alice'' ex_audit_log) = (without_subject ''alice'' ex_audit_log, Inr rp) \<and> rp_valid rp"
  by (rule erased_subject_goes_unnoticed [OF ex_audit_log_star]) (simp add: no_findings_def)

end
