(* ===== verification/Review_Authority.thy ===== *)
theory Review_Authority
  imports Json_Values "HOL-Library.AList"
begin

text \<open>
  Authorizations for reviews (\<^verbatim>\<open>issue_review_authorization\<close>, \<^verbatim>\<open>verify_review_authorization\<close> and the configuration in
  \<^verbatim>\<open>Memory.__init__\<close> of \<^verbatim>\<open>src/atmem/memory.py\<close>, \<^verbatim>\<open>ReviewAuthorization\<close> of \<^verbatim>\<open>src/atmem/extract/review.py\<close>).  A
  process issues tokens for its configured authorities and takes each back once.  The keyed hash with the secret of
  the process is the argument \<open>mac\<close>, a nonce is an argument of the issue.
\<close>

datatype authority_error = PermissionError | BadValue

record review_authority =
  ra_principal_id :: string
  ra_subject_id :: string
  ra_agent_id :: string
  ra_workspace_id :: string
  ra_scopes :: "string list"
  ra_assurance :: string

record review_authorization =
  rz_principal_id :: string
  rz_subject_id :: string
  rz_agent_id :: "string option"
  rz_workspace_id :: "string option"
  rz_scopes :: "string list"
  rz_assurance :: string
  rz_nonce :: string
  rz_token :: string

definition ReviewAuthorization_ok :: "review_authorization \<Rightarrow> bool" where
  "ReviewAuthorization_ok a \<longleftrightarrow>
     py_strip (rz_principal_id a) \<noteq> [] \<and> py_strip (rz_subject_id a) \<noteq> [] \<and> rz_scopes a \<noteq> [] \<and> py_strip (rz_nonce a) \<noteq> []"

record review_state =
  rs_authorities :: "(string \<times> review_authority) list"
  rs_issued :: "string list"

definition sorted_set :: "string list \<Rightarrow> string list" where
  "sorted_set xs = sort (remdups xs)"

text \<open>One entry of the configuration, with the defaults of its missing fields.\<close>

record authority_config =
  ac_principal_id :: "string option"
  ac_subject_id :: "string option"
  ac_agent_id :: "string option"
  ac_workspace_id :: "string option"
  ac_scopes :: "string list"
  ac_assurance :: "string option"

definition field_of :: "string option \<Rightarrow> string" where
  "field_of v = py_strip (case v of None \<Rightarrow> [] | Some s \<Rightarrow> s)"

definition configure_one :: "authority_config \<Rightarrow> review_state \<Rightarrow> authority_error + review_state" where
  "configure_one c st =
     (let p = field_of (ac_principal_id c); s = field_of (ac_subject_id c); a = field_of (ac_agent_id c);
          w = field_of (ac_workspace_id c); scopes = sorted_set (ac_scopes c)
      in if p = [] \<or> s = [] \<or> a = [] \<or> w = [] \<or> scopes = [] then Inl BadValue
         else Inr (st\<lparr>rs_authorities := AList.update p
                \<lparr>ra_principal_id = p, ra_subject_id = s, ra_agent_id = a, ra_workspace_id = w, ra_scopes = scopes,
                 ra_assurance = (if truthy (ac_assurance c) then py_str (ac_assurance c) else ''configured_authority'')\<rparr>
                (rs_authorities st)\<rparr>))"

definition configure :: "authority_config list \<Rightarrow> authority_error + review_state" where
  "configure cs = fold_res configure_one cs \<lparr>rs_authorities = [], rs_issued = []\<rparr>"

definition payload_of :: "review_authority \<Rightarrow> string list \<Rightarrow> string \<Rightarrow> json" where
  "payload_of c scopes nonce =
     JObj [(''principal_id'', JStr (ra_principal_id c)), (''subject_id'', JStr (ra_subject_id c)),
           (''agent_id'', JStr (ra_agent_id c)), (''workspace_id'', JStr (ra_workspace_id c)),
           (''scopes'', strs_json scopes), (''assurance'', JStr (ra_assurance c)), (''nonce'', JStr nonce)]"

definition issue_review_authorization ::
  "(json \<Rightarrow> string) \<Rightarrow> string \<Rightarrow> string \<Rightarrow> string list \<Rightarrow> review_state \<Rightarrow>
   review_state \<times> (authority_error + review_authorization)" where
  "issue_review_authorization mac nonce pid scopes st =
     (case map_of (rs_authorities st) pid of
        None \<Rightarrow> (st, Inl PermissionError)
      | Some c \<Rightarrow>
          (let requested = sorted_set scopes in
           if requested = [] \<or> \<not> set requested \<subseteq> set (ra_scopes c) then (st, Inl PermissionError)
           else
             (let token = mac (canonical (payload_of c requested nonce));
                  a = \<lparr>rz_principal_id = ra_principal_id c, rz_subject_id = ra_subject_id c, rz_agent_id = Some (ra_agent_id c),
                       rz_workspace_id = Some (ra_workspace_id c), rz_scopes = requested, rz_assurance = ra_assurance c,
                       rz_nonce = nonce, rz_token = token\<rparr>
              in (st\<lparr>rs_issued := List.insert token (rs_issued st)\<rparr>,
                  if ReviewAuthorization_ok a then Inr a else Inl BadValue))))"

text \<open>The scope of the stored proposal that is reviewed.\<close>

record stored_scope =
  so_subject_id :: string
  so_agent_id :: "string option"
  so_workspace_id :: "string option"

definition satisfied :: "string list \<Rightarrow> string \<Rightarrow> bool" where
  "satisfied available required \<longleftrightarrow>
     required \<in> set available \<or> required = ''procedure:review'' \<and> ''procedure'' \<in> set available"

definition verify_review_authorization ::
  "(json \<Rightarrow> string) \<Rightarrow> string list \<Rightarrow> review_authorization \<Rightarrow> stored_scope \<Rightarrow> review_state \<Rightarrow>
   review_state \<times> (authority_error + string)" where
  "verify_review_authorization mac required a stored st =
     (case map_of (rs_authorities st) (rz_principal_id a) of
        None \<Rightarrow> (st, Inl PermissionError)
      | Some c \<Rightarrow>
          if mac (canonical (payload_of c (sorted_set (rz_scopes a)) (rz_nonce a))) \<noteq> rz_token a then (st, Inl PermissionError)
          else if rz_token a \<notin> set (rs_issued st) then (st, Inl PermissionError)
          else if rz_subject_id a \<noteq> ra_subject_id c \<or> rz_agent_id a \<noteq> Some (ra_agent_id c) \<or>
                  rz_workspace_id a \<noteq> Some (ra_workspace_id c) \<or> rz_assurance a \<noteq> ra_assurance c
          then (st, Inl PermissionError)
          else if \<not> list_all (satisfied (rz_scopes a)) required then (st, Inl PermissionError)
          else if rz_subject_id a \<noteq> so_subject_id stored then (st, Inl PermissionError)
          else if rz_agent_id a \<noteq> so_agent_id stored then (st, Inl PermissionError)
          else if rz_workspace_id a \<noteq> so_workspace_id stored then (st, Inl PermissionError)
          else (st\<lparr>rs_issued := removeAll (rz_token a) (rs_issued st)\<rparr>, Inr (rz_principal_id a)))"

section \<open>Runs\<close>

datatype review_event = Issued review_authorization | Used review_authorization

fun issued :: "review_event list \<Rightarrow> review_authorization list" where
  "issued [] = []"
| "issued (Issued a # tr) = a # issued tr"
| "issued (Used a # tr) = issued tr"

fun used :: "review_event list \<Rightarrow> review_authorization list" where
  "used [] = []"
| "used (Issued a # tr) = used tr"
| "used (Used a # tr) = a # used tr"

definition issues_of :: "string \<Rightarrow> review_event list \<Rightarrow> nat" where
  "issues_of t tr = count_list (map rz_token (issued tr)) t"

definition uses_of :: "string \<Rightarrow> review_event list \<Rightarrow> nat" where
  "uses_of t tr = count_list (map rz_token (used tr)) t"

inductive review_step ::
  "(json \<Rightarrow> string) \<Rightarrow> review_state \<times> review_event list \<Rightarrow> review_state \<times> review_event list \<Rightarrow> bool"
  for mac :: "json \<Rightarrow> string" where
  issue: "issue_review_authorization mac nonce pid scopes st = (st', Inr a) \<Longrightarrow> review_step mac (st, tr) (st', tr @ [Issued a])"
| verify: "verify_review_authorization mac required a stored st = (st', Inr who) \<Longrightarrow>
     review_step mac (st, tr) (st', tr @ [Used a])"

definition started :: "review_state \<times> review_event list \<Rightarrow> bool" where
  "started s \<longleftrightarrow> (\<exists>cs. configure cs = Inr (fst s)) \<and> snd s = []"

text \<open>What the token of an authorization signs, with the configuration of its principal.\<close>

definition signed_payload :: "review_state \<Rightarrow> review_authorization \<Rightarrow> json option" where
  "signed_payload st a =
     map_option (\<lambda>c. canonical (payload_of c (sorted_set (rz_scopes a)) (rz_nonce a))) (map_of (rs_authorities st) (rz_principal_id a))"

text \<open>
  A token in store was issued more often than used, and with an authorization of a configured authority for scopes of
  this authority.
\<close>

definition keyed :: "review_state \<Rightarrow> bool" where
  "keyed st \<longleftrightarrow> (\<forall>p c. map_of (rs_authorities st) p = Some c \<longrightarrow> ra_principal_id c = p)"

definition balanced :: "review_state \<Rightarrow> review_event list \<Rightarrow> bool" where
  "balanced st tr \<longleftrightarrow> (\<forall>t. uses_of t tr + (if t \<in> set (rs_issued st) then 1 else 0) \<le> issues_of t tr)"

definition backed :: "(json \<Rightarrow> string) \<Rightarrow> review_state \<Rightarrow> review_authorization \<Rightarrow> bool" where
  "backed mac st b \<longleftrightarrow>
     (\<exists>c. map_of (rs_authorities st) (rz_principal_id b) = Some c \<and> set (rz_scopes b) \<subseteq> set (ra_scopes c) \<and>
        map_option mac (signed_payload st b) = Some (rz_token b))"

definition review_ok :: "(json \<Rightarrow> string) \<Rightarrow> review_state \<times> review_event list \<Rightarrow> bool" where
  "review_ok mac s \<longleftrightarrow>
     keyed (fst s) \<and> balanced (fst s) (snd s) \<and> (\<forall>b\<in>set (issued (snd s)). backed mac (fst s) b)"

lemma set_sorted_set [simp]: "set (sorted_set xs) = set xs"
  by (simp add: sorted_set_def)

lemma sorted_set_idem [simp]: "sorted_set (sorted_set xs) = sorted_set xs"
  by (simp add: sorted_set_def distinct_remdups_id sorted_sort_id)

lemma issued_append [simp]: "issued (tr @ [Issued a]) = issued tr @ [a]" "issued (tr @ [Used a]) = issued tr"
  by (induction tr rule: issued.induct) simp_all

lemma used_append [simp]: "used (tr @ [Issued a]) = used tr" "used (tr @ [Used a]) = used tr @ [a]"
  by (induction tr rule: used.induct) simp_all

lemma payload_inject:
  assumes "canonical (payload_of c xs n) = canonical (payload_of d ys m)"
  shows "ra_principal_id c = ra_principal_id d" "xs = ys" "n = m"
proof -
  have "map JStr xs = map JStr ys \<Longrightarrow> xs = ys" by (metis (no_types) inj_onI json.inject(3) map_inj_on UNIV_I)
  then show "ra_principal_id c = ra_principal_id d" "xs = ys" "n = m"
    using assms by (simp_all add: payload_of_def strs_json_def comp_def)
qed

lemma configure_keys: "configure cs = Inr st \<Longrightarrow> keyed st \<and> rs_issued st = []"
  unfolding configure_def keyed_def
  by (erule fold_res_invariant) (auto simp: configure_one_def Let_def update_conv split: if_splits)

lemma balanced_issue:
  assumes "balanced st tr" and "rs_issued st' = List.insert (rz_token a) (rs_issued st)"
  shows "balanced st' (tr @ [Issued a])"
  unfolding balanced_def
proof
  fix u
  have "uses_of u tr + (if u \<in> set (rs_issued st) then 1 else 0) \<le> issues_of u tr"
    using assms(1) unfolding balanced_def by blast
  then show "uses_of u (tr @ [Issued a]) + (if u \<in> set (rs_issued st') then 1 else 0) \<le> issues_of u (tr @ [Issued a])"
    using assms(2) by (cases "u = rz_token a"; cases "u \<in> set (rs_issued st)") (simp_all add: uses_of_def issues_of_def)
qed

lemma balanced_use:
  assumes "balanced st tr" and "rz_token a \<in> set (rs_issued st)" and "rs_issued st' = removeAll (rz_token a) (rs_issued st)"
  shows "balanced st' (tr @ [Used a])"
  unfolding balanced_def
proof
  fix u
  have "uses_of u tr + (if u \<in> set (rs_issued st) then 1 else 0) \<le> issues_of u tr"
    using assms(1) unfolding balanced_def by blast
  then show "uses_of u (tr @ [Used a]) + (if u \<in> set (rs_issued st') then 1 else 0) \<le> issues_of u (tr @ [Used a])"
    using assms(2,3) by (cases "u = rz_token a"; cases "u \<in> set (rs_issued st)") (simp_all add: uses_of_def issues_of_def)
qed

lemma backed_cong: "rs_authorities st' = rs_authorities st \<Longrightarrow> backed mac st' b = backed mac st b"
  by (simp add: backed_def signed_payload_def)

lemma issued_effect:
  assumes "issue_review_authorization mac nonce pid scopes st = (st', Inr a)"
  obtains c where "map_of (rs_authorities st) pid = Some c" "rs_authorities st' = rs_authorities st"
    "rs_issued st' = List.insert (rz_token a) (rs_issued st)" "set scopes \<subseteq> set (ra_scopes c)"
    "rz_token a = mac (canonical (payload_of c (sorted_set scopes) nonce))" "rz_principal_id a = ra_principal_id c"
    "rz_scopes a = sorted_set scopes" "rz_nonce a = nonce"
proof (cases "map_of (rs_authorities st) pid")
  case None
  with assms show thesis by (simp add: issue_review_authorization_def)
next
  case (Some c)
  with assms have "set scopes \<subseteq> set (ra_scopes c)"
    by (simp add: issue_review_authorization_def Let_def del: canonical.simps split: if_splits)
  moreover from assms Some have "st' = st\<lparr>rs_issued := List.insert (rz_token a) (rs_issued st)\<rparr> \<and>
      rz_token a = mac (canonical (payload_of c (sorted_set scopes) nonce)) \<and> rz_principal_id a = ra_principal_id c \<and>
      rz_scopes a = sorted_set scopes \<and> rz_nonce a = nonce"
    by (auto simp: issue_review_authorization_def Let_def simp del: canonical.simps List.insert_def split: if_splits)
  ultimately show thesis using Some by (intro that [of c]) simp_all
qed

lemma verified_effect:
  assumes "verify_review_authorization mac required a stored st = (st', Inr who)"
  obtains c where "map_of (rs_authorities st) (rz_principal_id a) = Some c" "rs_authorities st' = rs_authorities st"
    "rs_issued st' = removeAll (rz_token a) (rs_issued st)" "rz_token a \<in> set (rs_issued st)" "who = rz_principal_id a"
    "rz_token a = mac (canonical (payload_of c (sorted_set (rz_scopes a)) (rz_nonce a)))"
    "list_all (satisfied (rz_scopes a)) required" "so_subject_id stored = ra_subject_id c"
    "so_agent_id stored = Some (ra_agent_id c)" "so_workspace_id stored = Some (ra_workspace_id c)"
proof (cases "map_of (rs_authorities st) (rz_principal_id a)")
  case None
  with assms show thesis by (simp add: verify_review_authorization_def)
next
  case (Some c)
  with assms show thesis
    by (intro that [of c]) (auto simp: verify_review_authorization_def split: if_splits)
qed

lemma issue_keeps:
  assumes "review_ok mac (st, tr)" and "issue_review_authorization mac nonce pid scopes st = (st', Inr a)"
  shows "review_ok mac (st', tr @ [Issued a])"
proof -
  obtain c where c: "map_of (rs_authorities st) pid = Some c" "rs_authorities st' = rs_authorities st"
    "rs_issued st' = List.insert (rz_token a) (rs_issued st)" "set scopes \<subseteq> set (ra_scopes c)"
    "rz_token a = mac (canonical (payload_of c (sorted_set scopes) nonce))" "rz_principal_id a = ra_principal_id c"
    "rz_scopes a = sorted_set scopes" "rz_nonce a = nonce"
    using assms(2) by (rule issued_effect)
  have old: "keyed st" "balanced st tr" "\<forall>b\<in>set (issued tr). backed mac st b"
    using assms(1) by (simp_all add: review_ok_def)
  have "ra_principal_id c = pid" using old(1) c(1) by (simp add: keyed_def)
  then have "backed mac st a" unfolding backed_def signed_payload_def using c by simp
  moreover have "keyed st' = keyed st" using c(2) by (simp add: keyed_def)
  ultimately show ?thesis
    using old balanced_issue [of st tr st' a] c(3) by (auto simp: review_ok_def backed_cong [OF c(2)])
qed

lemma use_keeps:
  assumes "review_ok mac (st, tr)" and "verify_review_authorization mac required a stored st = (st', Inr who)"
  shows "review_ok mac (st', tr @ [Used a])"
proof -
  obtain c where c: "rs_authorities st' = rs_authorities st" "rz_token a \<in> set (rs_issued st)"
    "rs_issued st' = removeAll (rz_token a) (rs_issued st)" using assms(2) by (rule verified_effect)
  have "\<forall>b\<in>set (issued tr). backed mac st b" "keyed st" "balanced st tr"
    using assms(1) by (simp_all add: review_ok_def)
  moreover have "keyed st' = keyed st" using c(1) by (simp add: keyed_def)
  ultimately show ?thesis
    using balanced_use [of st tr a st'] c(2,3) by (simp add: review_ok_def backed_cong [OF c(1)])
qed

interpretation review: invariant_system started "review_step mac" "review_ok mac" for mac
proof
  show "review_ok mac s" if "started s" for s
    using that configure_keys by (cases s) (fastforce simp: started_def review_ok_def balanced_def uses_of_def issues_of_def)
  show "review_ok mac t" if "review_ok mac s" "review_step mac s t" for s t
    using that(2,1) by cases (simp_all add: issue_keeps use_keeps)
qed

text \<open>
  [C23] An authorization counts once and in its scope.  Whenever, after any run of issues and verifications, a
  verification succeeds, its principal is a configured authority for the subject, agent and workspace of the stored
  proposal and every required scope is among those of the authorization.  Its token was issued, more often than used
  before, and verifying the same authorization again is refused.  Some authorization issued with this token is for
  the same principal, scopes and nonce, and these are scopes of the authority; otherwise the two payloads, the one
  issued and the one presented, differ and have the same keyed hash.
\<close>

theorem authorization_counts_once:
  assumes "started s" and "(review_step mac)\<^sup>*\<^sup>* s (st, tr)"
    and "verify_review_authorization mac required a stored st = (st', Inr who)"
  shows "(\<exists>c. map_of (rs_authorities st) who = Some c \<and> ra_principal_id c = who \<and> so_subject_id stored = ra_subject_id c \<and>
      so_agent_id stored = Some (ra_agent_id c) \<and> so_workspace_id stored = Some (ra_workspace_id c) \<and>
      list_all (satisfied (rz_scopes a)) required \<and>
      (\<exists>b\<in>set (issued tr). rz_token b = rz_token a \<and>
        (if signed_payload st b = signed_payload st a
         then rz_principal_id b = who \<and> set (rz_scopes b) = set (rz_scopes a) \<and> rz_nonce b = rz_nonce a \<and>
           set (rz_scopes a) \<subseteq> set (ra_scopes c)
         else map_option mac (signed_payload st b) = map_option mac (signed_payload st a)))) \<and>
    uses_of (rz_token a) tr < issues_of (rz_token a) tr \<and>
    snd (verify_review_authorization mac required' a stored' st') = Inl PermissionError"
proof -
  have ok: "review_ok mac (st, tr)" using review.inv_reachable [OF assms(1,2)] .
  obtain c where c: "map_of (rs_authorities st) (rz_principal_id a) = Some c" "rs_authorities st' = rs_authorities st"
    "rs_issued st' = removeAll (rz_token a) (rs_issued st)" "rz_token a \<in> set (rs_issued st)" "who = rz_principal_id a"
    "rz_token a = mac (canonical (payload_of c (sorted_set (rz_scopes a)) (rz_nonce a)))"
    "list_all (satisfied (rz_scopes a)) required" "so_subject_id stored = ra_subject_id c"
    "so_agent_id stored = Some (ra_agent_id c)" "so_workspace_id stored = Some (ra_workspace_id c)"
    using assms(3) by (rule verified_effect)
  have key: "\<And>p c. map_of (rs_authorities st) p = Some c \<Longrightarrow> ra_principal_id c = p" using ok by (simp add: review_ok_def keyed_def)
  have "uses_of (rz_token a) tr + (if rz_token a \<in> set (rs_issued st) then 1 else 0) \<le> issues_of (rz_token a) tr"
    using ok unfolding review_ok_def balanced_def snd_conv fst_conv by blast
  then have counts: "uses_of (rz_token a) tr < issues_of (rz_token a) tr" using c(4) by simp
  then have "rz_token a \<in> set (map rz_token (issued tr))" unfolding issues_of_def by (metis count_notin not_less_zero)
  then obtain b where b: "b \<in> set (issued tr)" "rz_token b = rz_token a" by auto
  then obtain d where d: "map_of (rs_authorities st) (rz_principal_id b) = Some d" "set (rz_scopes b) \<subseteq> set (ra_scopes d)"
    "map_option mac (signed_payload st b) = Some (rz_token a)"
    using ok unfolding review_ok_def fst_conv snd_conv backed_def by metis
  have "rz_principal_id b = who \<and> set (rz_scopes b) = set (rz_scopes a) \<and> rz_nonce b = rz_nonce a \<and> set (rz_scopes a) \<subseteq> set (ra_scopes c)"
    if "signed_payload st b = signed_payload st a"
  proof -
    have eq: "canonical (payload_of d (sorted_set (rz_scopes b)) (rz_nonce b)) =
        canonical (payload_of c (sorted_set (rz_scopes a)) (rz_nonce a))"
      using that unfolding signed_payload_def d(1) c(1) by simp
    have "rz_principal_id b = rz_principal_id a" using payload_inject(1) [OF eq] key [OF d(1)] key [OF c(1)] by simp
    moreover have "set (rz_scopes b) = set (rz_scopes a)" using payload_inject(2) [OF eq] by (metis set_sorted_set)
    ultimately show ?thesis using payload_inject(3) [OF eq] d(1,2) c(1,5) by simp
  qed
  moreover have "map_option mac (signed_payload st a) = Some (rz_token a)" using c(1,6) by (simp add: signed_payload_def del: canonical.simps)
  ultimately have bound: "if signed_payload st b = signed_payload st a
      then rz_principal_id b = who \<and> set (rz_scopes b) = set (rz_scopes a) \<and> rz_nonce b = rz_nonce a \<and>
        set (rz_scopes a) \<subseteq> set (ra_scopes c)
      else map_option mac (signed_payload st b) = map_option mac (signed_payload st a)"
    unfolding d(3) by auto
  have refused: "snd (verify_review_authorization mac required' a stored' st') = Inl PermissionError"
    using c(1-3) by (simp add: verify_review_authorization_def)
  have "map_of (rs_authorities st) who = Some c" "ra_principal_id c = who" unfolding c(5) using c(1) key [OF c(1)] by simp_all
  note facts = this c(8-10,7) b(2) bound
  show ?thesis
    by (intro conjI exI [of _ c] bexI [of _ b]) (fact facts counts refused b(1))+
qed

definition ex_reviewers :: review_state where
  "ex_reviewers =
     \<lparr>rs_authorities = [(''op'', \<lparr>ra_principal_id = ''op'', ra_subject_id = ''s'', ra_agent_id = ''a'', ra_workspace_id = ''w'',
        ra_scopes = [''procedure''], ra_assurance = ''x''\<rparr>)], rs_issued = []\<rparr>"

definition ex_authorization :: review_authorization where
  "ex_authorization =
     \<lparr>rz_principal_id = ''op'', rz_subject_id = ''s'', rz_agent_id = Some ''a'', rz_workspace_id = Some ''w'',
      rz_scopes = [''procedure''], rz_assurance = ''x'', rz_nonce = ''n'', rz_token = ''t''\<rparr>"

lemma ex_reviewers_run:
  "configure [\<lparr>ac_principal_id = Some '' op'', ac_subject_id = Some ''s'', ac_agent_id = Some ''a'', ac_workspace_id = Some ''w'',
     ac_scopes = [''procedure''], ac_assurance = Some ''x''\<rparr>] = Inr ex_reviewers"
  "issue_review_authorization (\<lambda>j. ''t'') ''n'' ''op'' [''procedure''] ex_reviewers =
     (ex_reviewers\<lparr>rs_issued := [''t'']\<rparr>, Inr ex_authorization)"
  "verify_review_authorization (\<lambda>j. ''t'') [''procedure:review''] ex_authorization
     \<lparr>so_subject_id = ''s'', so_agent_id = Some ''a'', so_workspace_id = Some ''w''\<rparr> (ex_reviewers\<lparr>rs_issued := [''t'']\<rparr>) =
     (ex_reviewers, Inr ''op'')"
  by code_simp+

theorem authorization_counts_once_witness:
  "snd (verify_review_authorization (\<lambda>j. ''t'') [] ex_authorization
     \<lparr>so_subject_id = ''s'', so_agent_id = Some ''a'', so_workspace_id = Some ''w''\<rparr> ex_reviewers) = Inl PermissionError"
proof -
  have start: "started (ex_reviewers, [])" unfolding started_def using ex_reviewers_run(1) by auto
  have "review_step (\<lambda>j. ''t'') (ex_reviewers, []) (ex_reviewers\<lparr>rs_issued := [''t'']\<rparr>, [] @ [Issued ex_authorization])"
    by (rule review_step.issue [OF ex_reviewers_run(2)])
  from authorization_counts_once [OF start r_into_rtranclp [of "review_step (\<lambda>j. ''t'')", OF this] ex_reviewers_run(3)]
  show ?thesis by blast
qed

end
