(* ===== verification/Memory_Policy.thy ===== *)
theory Memory_Policy
  imports Task_Prelude
begin

text \<open>
  The rules that every candidate memory passes (\<^verbatim>\<open>src/atmem/core/policy.py\<close>): where a message comes from, what its
  source is trusted with, when two contents count as the same, and what a request to forget names.  Characters are
  code points below 256; a regular-expression word boundary around a word of word characters means that the word is
  a maximal run of word characters.
\<close>

definition is_word :: "char \<Rightarrow> bool" where
  "is_word c \<longleftrightarrow> is_alpha c \<or> is_digit c \<or> c = CHR ''_'' \<or>
     code c \<in> {170, 178, 179, 181, 185, 186, 188, 189, 190} \<or> 192 \<le> code c \<and> code c \<noteq> 215 \<and> code c \<noteq> 247"

definition lower_letter :: "char \<Rightarrow> char" where
  "lower_letter c = (if 65 \<le> code c \<and> code c \<le> 90 \<or> 192 \<le> code c \<and> code c \<le> 222 \<and> code c \<noteq> 215 then char_of (code c + 32) else c)"

definition lower_str :: "string \<Rightarrow> string" where
  "lower_str s = map lower_letter s"

definition TRUSTED_SOURCE_TYPES :: "string list" where
  "TRUSTED_SOURCE_TYPES = [''user_message'']"

definition TRUST_TIER_USER :: string where "TRUST_TIER_USER = ''trusted_user''"
definition TRUST_TIER_CONFIRMED :: string where "TRUST_TIER_CONFIRMED = ''user_confirmed''"
definition TRUST_TIER_UNTRUSTED :: string where "TRUST_TIER_UNTRUSTED = ''untrusted_content''"

text \<open>\<^verbatim>\<open>(?:_[a-z]+)*\<close> over the whole of a string.\<close>

fun tool_suffix :: "bool \<Rightarrow> string \<Rightarrow> bool" where
  "tool_suffix open_part [] = (\<not> open_part)"
| "tool_suffix open_part (c # cs) =
     (if c = CHR ''_'' then \<not> open_part \<and> tool_suffix True cs else is_alpha c \<and> tool_suffix False cs)"

definition embedded_tag :: "string \<Rightarrow> bool" where
  "embedded_tag w \<longleftrightarrow> w = ''webpage'' \<or> w = ''web_page'' \<or>
     take 4 w = ''tool'' \<and> (drop 4 w = [] \<or> hd (drop 4 w) = CHR ''_'' \<and> tool_suffix False (drop 4 w))"

text \<open>The first tag that the search finds, in lower case.\<close>

fun first_tag :: "string \<Rightarrow> string option" where
  "first_tag [] = None"
| "first_tag (c # cs) =
     (let w = lower_str (takeWhile is_word cs) in
      if c = CHR ''<'' \<and> embedded_tag w then Some w else first_tag cs)"

definition classify_source :: "string \<Rightarrow> string" where
  "classify_source message =
     (case first_tag message of
        None \<Rightarrow> ''user_message''
      | Some tag \<Rightarrow> if tag = ''webpage'' \<or> tag = ''web_page'' then ''webpage'' else ''tool_output'')"

definition trust_tier_for_source :: "string \<Rightarrow> string" where
  "trust_tier_for_source source_type =
     (if source_type \<in> set TRUSTED_SOURCE_TYPES then TRUST_TIER_USER else TRUST_TIER_UNTRUSTED)"

datatype record_status = RActive | RSuperseded | RQuarantined | RTombstoned

definition initial_status :: "string \<Rightarrow> record_status" where
  "initial_status trust_tier =
     (if trust_tier = TRUST_TIER_USER \<or> trust_tier = TRUST_TIER_CONFIRMED then RActive else RQuarantined)"

section \<open>Contents that count as the same\<close>

definition token_char :: "char \<Rightarrow> bool" where
  "token_char c \<longleftrightarrow> 97 \<le> code c \<and> code c \<le> 122 \<or> is_digit c \<or> c \<in> set ''@.-+_''"

definition strip_chars :: "string \<Rightarrow> string \<Rightarrow> string" where
  "strip_chars cs s = rev (dropWhile (\<lambda>c. c \<in> set cs) (rev (dropWhile (\<lambda>c. c \<in> set cs) s)))"

text \<open>\<^verbatim>\<open>findall\<close> of a class of characters: the maximal runs.\<close>

function runs :: "(char \<Rightarrow> bool) \<Rightarrow> string \<Rightarrow> string list" where
  "runs P s =
     (case dropWhile (\<lambda>c. \<not> P c) s of
        [] \<Rightarrow> []
      | c # cs \<Rightarrow> (c # takeWhile P cs) # runs P (dropWhile P cs))"
  by pat_completeness auto

termination
proof (relation "measure (length \<circ> snd)", simp)
  fix P :: "char \<Rightarrow> bool" and s c cs
  assume "dropWhile (\<lambda>c. \<not> P c) s = c # cs"
  then have "Suc (length cs) \<le> length s" using length_dropWhile_le [of "\<lambda>c. \<not> P c" s] by simp
  then have "length (dropWhile P cs) < length s" using length_dropWhile_le [of P cs] by linarith
  then show "((P, dropWhile P cs), P, s) \<in> measure (length \<circ> snd)" by simp
qed

declare runs.simps [simp del]

definition normalize_content :: "string \<Rightarrow> string" where
  "normalize_content s =
     join_str '' '' (filter (\<lambda>t. t \<noteq> []) (map (strip_chars ''._-+@'') (runs token_char (lower_str s))))"

section \<open>Requests to forget\<close>

definition forget_verb :: "string \<Rightarrow> bool" where
  "forget_verb w \<longleftrightarrow> lower_str w \<in> {''forget'', ''delete'', ''remove'', ''erase''}"

definition is_forget_request :: "string \<Rightarrow> bool" where
  "is_forget_request message \<longleftrightarrow> classify_source message = ''user_message'' \<and> list_ex forget_verb (runs is_word message)"

text \<open>\<^verbatim>\<open>\s+(?P<rest>.+)\<close> at the head of a string, the white space taken greedily but leaving one character.\<close>

definition after_space :: "string \<Rightarrow> string option" where
  "after_space s =
     (case s of
        [] \<Rightarrow> None
      | c # cs \<Rightarrow>
          if \<not> py_space c then None
          else if cs = [] then None
          else (case dropWhile py_space cs of [] \<Rightarrow> Some [last cs] | rest \<Rightarrow> Some rest))"

text \<open>The text after a verb: with one of the filler words if more follows it, else without.\<close>

definition needle_rest :: "string \<Rightarrow> string option" where
  "needle_rest s =
     (let body = dropWhile py_space s;
          skip = (\<lambda>w. if s \<noteq> body \<and> lower_str (take (length w) body) = w then after_space (drop (length w) body) else None)
      in case skip ''that'' of
           Some r \<Rightarrow> Some r
         | None \<Rightarrow> (case skip ''about'' of
             Some r \<Rightarrow> Some r
           | None \<Rightarrow> (case skip ''what'' of Some r \<Rightarrow> Some r | None \<Rightarrow> after_space s)))"

fun needle_search :: "bool \<Rightarrow> string \<Rightarrow> string option" where
  "needle_search boundary [] = None"
| "needle_search boundary (c # cs) =
     (if \<not> is_word c then needle_search True cs
      else if \<not> boundary then needle_search False cs
      else
        (let w = takeWhile is_word (c # cs); rest = dropWhile is_word (c # cs) in
         case (if forget_verb w then needle_rest rest else None) of
           Some r \<Rightarrow> Some r
         | None \<Rightarrow> needle_search False cs))"

definition drop_possessive :: "string \<Rightarrow> string" where
  "drop_possessive s =
     (let w = takeWhile (\<lambda>c. \<not> py_space c) s; rest = drop (length w) s in
      if lower_str w \<in> {''my'', ''our'', ''the'', ''his'', ''her'', ''their''} \<and> rest \<noteq> [] then dropWhile py_space rest else s)"

definition drop_politeness :: "string \<Rightarrow> string" where
  "drop_politeness s =
     (let body = rev (dropWhile py_space (rev s)); w = rev (takeWhile is_word (rev body)) in
      if lower_str w \<in> {''please'', ''now''} then rev (dropWhile py_space (rev (take (length body - length w) body))) else s)"

definition forget_needle :: "string \<Rightarrow> string" where
  "forget_needle utterance =
     (let txt = py_strip utterance;
          rest = (case needle_search True txt of Some r \<Rightarrow> r | None \<Rightarrow> txt)
      in lower_str (strip_chars '' .?!'' (drop_politeness (drop_possessive (py_strip rest)))))"

section \<open>What the rules guarantee\<close>

lemma initial_status_active: "initial_status tier = RActive \<longleftrightarrow> tier \<in> {TRUST_TIER_USER, TRUST_TIER_CONFIRMED}"
  by (simp add: initial_status_def)

lemma untrusted_source_quarantined:
  "initial_status (trust_tier_for_source s) = RActive \<longleftrightarrow> s = ''user_message''"
  by (simp add: initial_status_def trust_tier_for_source_def TRUSTED_SOURCE_TYPES_def TRUST_TIER_USER_def
      TRUST_TIER_UNTRUSTED_def TRUST_TIER_CONFIRMED_def)

lemma classify_source_values: "classify_source m \<in> {''user_message'', ''webpage'', ''tool_output''}"
  by (simp add: classify_source_def split: option.splits)

text \<open>A content without a Latin letter or digit has the empty normal form.\<close>

lemma runs_empty:
  assumes "list_all (\<lambda>c. \<not> P c) s"
  shows "runs P s = []"
proof -
  have "dropWhile (\<lambda>c. \<not> P c) s = []" using assms by (simp add: dropWhile_eq_Nil_conv list_all_iff)
  then show ?thesis unfolding runs.simps [of P s] by (simp only: list.case)
qed

lemma normalize_blank: "list_all (\<lambda>c. \<not> token_char (lower_letter c)) s \<Longrightarrow> normalize_content s = []"
  by (simp add: normalize_content_def lower_str_def runs_empty list_all_iff)

end
