(* ===== verification/Memory_Store.thy ===== *)
theory Memory_Store
  imports Audit_Log Memory_Policy "HOL-Library.Product_Lexorder"
begin

text \<open>
  The tables of the memory ledger and their methods (\<^verbatim>\<open>src/atmem/store/sqlite.py\<close>): records with their
  full-text and fact-key indexes, episodes, the typed units and protocol sources that a purge reaches, the media
  observations, the derived graph and the audit log.  A table is a list of rows in insertion order.  Every call of
  \<^verbatim>\<open>utc_now\<close> and \<^verbatim>\<open>_new_id\<close> takes the next reading of the environment; a reused identifier violates the primary
  key.  Confidences are kept in hundredths.  The graph index
  (\<^verbatim>\<open>src/atmem/graph\<close>) is a state of an arbitrary type whose operations are arguments.
\<close>

datatype memory_error = MValueError | MIntegrityError | MRuntimeError | MAssertionError

section \<open>Tables\<close>

record memory_record =
  mr_id :: string
  mr_subject_id :: string
  mr_content :: string
  mr_content_normalized :: "string option"
  mr_source_type :: string
  mr_trust_tier :: string
  mr_source_session_id :: "string option"
  mr_source_turn_id :: "string option"
  mr_episode_id :: "string option"
  mr_created_at :: int
  mr_updated_at :: "int option"
  mr_deleted_at :: "int option"
  mr_confidence :: "int option"
  mr_scope :: string
  mr_status :: record_status
  mr_supersedes_id :: "string option"
  mr_fact_key :: "string option"
  mr_raw :: json
  mr_generation :: nat

record episode_row =
  er_id :: string
  er_subject_id :: string
  er_session_id :: "string option"
  er_turn_id :: "string option"
  er_message :: string
  er_source_type :: string
  er_created_at :: int
  er_raw :: json

record exclusion_row =
  xr_subject_id :: string
  xr_record_id :: string
  xr_reason :: string
  xr_actor :: string
  xr_created_at :: int
  xr_updated_at :: int

record exclusion_identity =
  xi_subject_id :: string
  xi_record_id :: string
  xi_workspace_id :: string
  xi_identity :: string
  xi_created_at :: int

record fts_row =
  fr_record_id :: string
  fr_subject_id :: string
  fr_content :: string

record term_row =
  tm_record_id :: string
  tm_subject_id :: string
  tm_workspace_id :: string
  tm_field :: string
  tm_term :: string
  tm_frequency :: nat

record typed_unit =
  tu_subject_id :: string
  tu_workspace_id :: string
  tu_unit_id :: string
  tu_record_id :: string
  tu_lifecycle :: string
  tu_semantic_identity :: "string option"
  tu_generation :: nat
  tu_updated_at :: int

record unit_evidence =
  ue_subject_id :: string
  ue_workspace_id :: string
  ue_unit_id :: string
  ue_source_id :: string

record memory_proposal =
  mp_proposal_id :: string
  mp_fact_key :: "string option"
  mp_review_state :: string
  mp_proposal :: json
  mp_decided_at :: "int option"

record protocol_source =
  ps_source_id :: string
  ps_subject_id :: string
  ps_episode_id :: string
  ps_source_sha256 :: string
  ps_request :: json
  ps_result :: json

record typed_tables =
  ty_units :: "typed_unit list"
  ty_evidence :: "unit_evidence list"
  ty_proposals :: "memory_proposal list"
  ty_proposal_sources :: "(string \<times> string) list"
  ty_sources :: "protocol_source list"
  ty_media_references :: "(string \<times> string \<times> string) list"
  ty_protected_media :: "(string \<times> string) list"

record media_observation =
  mo_id :: string
  mo_subject_id :: string
  mo_artifact_id :: string
  mo_record_id :: string
  mo_lineage_sha256 :: string
  mo_status :: string
  mo_segment :: json
  mo_extractor :: json
  mo_confidence :: "int option"
  mo_deleted_at :: "int option"

record media_artifact =
  ma_id :: string
  ma_subject_id :: string
  ma_status :: string
  ma_host_reference :: string
  ma_deleted_at :: "int option"

record 'g ledger =
  lg_records :: "memory_record list"
  lg_episodes :: "episode_row list"
  lg_exclusions :: "exclusion_row list"
  lg_identities :: "exclusion_identity list"
  lg_fts :: "fts_row list"
  lg_terms :: "term_row list"
  lg_typed :: typed_tables
  lg_observations :: "media_observation list"
  lg_artifacts :: "media_artifact list"
  lg_graph :: 'g
  lg_log :: audit_log
  lg_tick :: nat

section \<open>The environment\<close>

record 'g graph_ops =
  gr_index :: "memory_record \<Rightarrow> 'g \<Rightarrow> 'g \<times> json list"
  gr_supersede :: "string \<Rightarrow> string list \<Rightarrow> string \<Rightarrow> 'g \<Rightarrow> 'g \<times> json list"
  gr_tombstone :: "string \<Rightarrow> string list \<Rightarrow> 'g \<Rightarrow> 'g \<times> json list"

text \<open>
  What the ledger takes from the parts that are not modelled: the graph, the screening of a text for secrets, the
  sentence patterns of the extractor (content, slot and confidence of a statement, and the text inside embedded
  blocks), the purge of the vector indexes (\<open>None\<close> when it raises, else its report), and the workspace and identity
  of a typed unit (\<open>None\<close> when it cannot be read).
\<close>

record 'g memory_env =
  me_hashes :: hashes
  me_clock :: "nat \<Rightarrow> int"
  me_ids :: "nat \<Rightarrow> string"
  me_graph :: "'g graph_ops"
  me_screen :: "string \<Rightarrow> bool \<Rightarrow> string list"
  me_parse :: "string \<Rightarrow> (string \<times> string option \<times> int) option"
  me_body :: "string \<Rightarrow> string"
  me_sweep :: "nat \<Rightarrow> string \<Rightarrow> string list \<Rightarrow> json option option"
  me_identity :: "json \<Rightarrow> (string \<times> string) option"

definition utc_now :: "'g memory_env \<Rightarrow> 'g ledger \<Rightarrow> int" where
  "utc_now E L = me_clock E (lg_tick L)"

definition tick :: "'g ledger \<Rightarrow> 'g ledger" where
  "tick L = L\<lparr>lg_tick := lg_tick L + 1\<rparr>"

definition new_id_of :: "string \<Rightarrow> 'g memory_env \<Rightarrow> 'g ledger \<Rightarrow> string" where
  "new_id_of pre E L = pre @ ''_'' @ me_ids E (lg_tick L)"

text \<open>The audit event of an operation, with its identifier.\<close>

definition log_event ::
  "'g memory_env \<Rightarrow> string \<Rightarrow> string \<Rightarrow> json \<Rightarrow> string \<Rightarrow> string option \<Rightarrow> string option \<Rightarrow> string option \<Rightarrow>
   'g ledger \<Rightarrow> 'g ledger \<times> string" where
  "log_event E sub event_type payload actor session turn rec L =
     (let event_id = new_id_of ''aud'' E L; L1 = tick L
      in ((tick L1)\<lparr>lg_log := append_audit_event (me_hashes E) event_id (utc_now E L1) sub event_type payload actor session turn
             rec (lg_log L)\<rparr>, event_id))"

section \<open>Reading JSON columns\<close>

definition jset :: "string \<Rightarrow> json \<Rightarrow> json \<Rightarrow> json" where
  "jset k v j =
     (case j of
        JObj kvs \<Rightarrow> JObj (if k \<in> fst ` set kvs then map (\<lambda>(a, b). if a = k then (a, v) else (a, b)) kvs else kvs @ [(k, v)])
      | _ \<Rightarrow> j)"

definition jstr_opt :: "json \<Rightarrow> string \<Rightarrow> string option" where
  "jstr_opt j k = (case jget j k of Some (JStr s) \<Rightarrow> Some s | _ \<Rightarrow> None)"

definition jsub :: "json \<Rightarrow> string \<Rightarrow> json" where
  "jsub j k = (case jget j k of Some (JObj kvs) \<Rightarrow> JObj kvs | _ \<Rightarrow> JObj [])"

definition jopt :: "json \<Rightarrow> string \<Rightarrow> json" where
  "jopt j k = (case jget j k of Some v \<Rightarrow> v | None \<Rightarrow> JNull)"

definition jstrings :: "json \<Rightarrow> string \<Rightarrow> string list" where
  "jstrings j k =
     (case jget j k of
        Some (JList xs) \<Rightarrow> concat (map (\<lambda>x. case x of JStr s \<Rightarrow> if s = [] then [] else [s] | _ \<Rightarrow> []) xs)
      | _ \<Rightarrow> [])"

text \<open>\<^verbatim>\<open>raw["typed_unit"]["lifecycle"] = v\<close> when there is a typed unit.\<close>

definition set_unit_lifecycle :: "string \<Rightarrow> json \<Rightarrow> json" where
  "set_unit_lifecycle v raw =
     (case jget raw ''typed_unit'' of
        Some (JObj kvs) \<Rightarrow> jset ''typed_unit'' (jset ''lifecycle'' (JStr v) (JObj kvs)) raw
      | _ \<Rightarrow> raw)"

section \<open>Indexes\<close>

definition upsert_fts :: "string \<Rightarrow> string \<Rightarrow> string \<Rightarrow> 'g ledger \<Rightarrow> 'g ledger" where
  "upsert_fts rid sub content L =
     L\<lparr>lg_fts := filter (\<lambda>r. fr_record_id r \<noteq> rid) (lg_fts L) @
         [\<lparr>fr_record_id = rid, fr_subject_id = sub, fr_content = content\<rparr>]\<rparr>"

definition delete_fts :: "string \<Rightarrow> 'g ledger \<Rightarrow> 'g ledger" where
  "delete_fts rid L = L\<lparr>lg_fts := filter (\<lambda>r. fr_record_id r \<noteq> rid) (lg_fts L)\<rparr>"

definition ends_with :: "string \<Rightarrow> string \<Rightarrow> bool" where
  "ends_with suf s \<longleftrightarrow> length suf \<le> length s \<and> drop (length s - length suf) s = suf"

definition search_stem :: "string \<Rightarrow> string" where
  "search_stem token =
     (let v = lower_str token; n = length v in
      if 4 < n \<and> ends_with ''ies'' v then take (n - 3) v @ ''i''
      else if 3 < n \<and> ends_with ''y'' v then take (n - 1) v @ ''i''
      else if 4 < n \<and> ends_with ''es'' v then take (n - 2) v
      else if 3 < n \<and> ends_with ''s'' v then take (n - 1) v
      else v)"

definition search_terms :: "string \<Rightarrow> string list" where
  "search_terms v = map search_stem (runs (\<lambda>c. is_word c \<and> c \<noteq> CHR ''_'') (lower_str v))"

definition delete_search_terms :: "string \<Rightarrow> 'g ledger \<Rightarrow> 'g ledger" where
  "delete_search_terms rid L = L\<lparr>lg_terms := filter (\<lambda>t. tm_record_id t \<noteq> rid) (lg_terms L)\<rparr>"

definition upsert_search_terms :: "string \<Rightarrow> string \<Rightarrow> string \<Rightarrow> string option \<Rightarrow> 'g ledger \<Rightarrow> 'g ledger" where
  "upsert_search_terms rid sub workspace fact_key L =
     (let terms = search_terms (case fact_key of None \<Rightarrow> [] | Some k \<Rightarrow> k) in
      L\<lparr>lg_terms := filter (\<lambda>t. tm_record_id t \<noteq> rid) (lg_terms L) @
          map (\<lambda>t. \<lparr>tm_record_id = rid, tm_subject_id = sub, tm_workspace_id = workspace, tm_field = ''fact_key'',
                    tm_term = t, tm_frequency = count_list terms t\<rparr>) (dedup terms)\<rparr>)"

definition authority_workspace :: "json \<Rightarrow> string" where
  "authority_workspace raw = (case jstr_opt (jsub raw ''authority_scope'') ''workspace_id'' of None \<Rightarrow> [] | Some w \<Rightarrow> w)"

section \<open>Exclusions\<close>

definition set_retrieval_excluded_row ::
  "'g memory_env \<Rightarrow> string \<Rightarrow> string \<Rightarrow> bool \<Rightarrow> string \<Rightarrow> string \<Rightarrow> 'g ledger \<Rightarrow> 'g ledger" where
  "set_retrieval_excluded_row E sub rid excluded actor reason L =
     (if excluded then
        (let now = utc_now E L in
         if list_ex (\<lambda>x. xr_subject_id x = sub \<and> xr_record_id x = rid) (lg_exclusions L)
         then (tick L)\<lparr>lg_exclusions := map (\<lambda>x. if xr_subject_id x = sub \<and> xr_record_id x = rid
                 then x\<lparr>xr_reason := take 500 reason, xr_actor := actor, xr_updated_at := now\<rparr> else x) (lg_exclusions L)\<rparr>
         else (tick L)\<lparr>lg_exclusions := lg_exclusions L @
                [\<lparr>xr_subject_id = sub, xr_record_id = rid, xr_reason = take 500 reason, xr_actor = actor,
                  xr_created_at = now, xr_updated_at = now\<rparr>]\<rparr>)
      else L\<lparr>lg_exclusions := filter (\<lambda>x. \<not> (xr_subject_id x = sub \<and> xr_record_id x = rid)) (lg_exclusions L)\<rparr>)"

definition excluded_record_ids :: "'g ledger \<Rightarrow> string \<Rightarrow> string set" where
  "excluded_record_ids L sub = set (map xr_record_id (filter (\<lambda>x. xr_subject_id x = sub) (lg_exclusions L)))"

definition set_typed_exclusion_identity ::
  "'g memory_env \<Rightarrow> string \<Rightarrow> string \<Rightarrow> string \<Rightarrow> string \<Rightarrow> bool \<Rightarrow> 'g ledger \<Rightarrow> 'g ledger" where
  "set_typed_exclusion_identity E sub workspace rid identity excluded L =
     (if excluded then
        (if list_ex (\<lambda>x. xi_subject_id x = sub \<and> xi_record_id x = rid) (lg_identities L)
         then (tick L)\<lparr>lg_identities := map (\<lambda>x. if xi_subject_id x = sub \<and> xi_record_id x = rid
                 then x\<lparr>xi_workspace_id := workspace, xi_identity := identity\<rparr> else x) (lg_identities L)\<rparr>
         else (tick L)\<lparr>lg_identities := lg_identities L @
                [\<lparr>xi_subject_id = sub, xi_record_id = rid, xi_workspace_id = workspace, xi_identity = identity,
                  xi_created_at = utc_now E L\<rparr>]\<rparr>)
      else L\<lparr>lg_identities := filter (\<lambda>x. \<not> (xi_subject_id x = sub \<and> xi_record_id x = rid)) (lg_identities L)\<rparr>)"

section \<open>Rows\<close>

definition insert_episode ::
  "'g memory_env \<Rightarrow> string \<Rightarrow> string option \<Rightarrow> string option \<Rightarrow> string \<Rightarrow> string \<Rightarrow> json \<Rightarrow> 'g ledger \<Rightarrow>
   memory_error + 'g ledger \<times> string" where
  "insert_episode E sub session turn message source raw L =
     (let eid = new_id_of ''ep'' E L; L1 = tick L in
      if eid \<in> er_id ` set (lg_episodes L) then Inl MIntegrityError
      else Inr ((tick L1)\<lparr>lg_episodes := lg_episodes L @
             [\<lparr>er_id = eid, er_subject_id = sub, er_session_id = session, er_turn_id = turn, er_message = message,
               er_source_type = source, er_created_at = utc_now E L1, er_raw = raw\<rparr>]\<rparr>, eid))"

text \<open>The columns that the caller of \<open>insert_record\<close> chooses.\<close>

record record_args =
  ra_content :: string
  ra_source_type :: string
  ra_trust_tier :: string
  ra_session_id :: "string option"
  ra_turn_id :: "string option"
  ra_episode_id :: "string option"
  ra_confidence :: "int option"
  ra_scope :: string
  ra_status :: record_status
  ra_supersedes_id :: "string option"
  ra_fact_key :: "string option"
  ra_raw :: json

definition record_of :: "string \<Rightarrow> string \<Rightarrow> int \<Rightarrow> record_args \<Rightarrow> memory_record" where
  "record_of rid sub now a =
     \<lparr>mr_id = rid, mr_subject_id = sub, mr_content = ra_content a,
      mr_content_normalized = Some (normalize_content (ra_content a)), mr_source_type = ra_source_type a,
      mr_trust_tier = ra_trust_tier a, mr_source_session_id = ra_session_id a, mr_source_turn_id = ra_turn_id a,
      mr_episode_id = ra_episode_id a, mr_created_at = now, mr_updated_at = None, mr_deleted_at = None,
      mr_confidence = ra_confidence a, mr_scope = ra_scope a, mr_status = ra_status a,
      mr_supersedes_id = ra_supersedes_id a, mr_fact_key = ra_fact_key a, mr_raw = ra_raw a, mr_generation = 0\<rparr>"

definition index_row :: "memory_record \<Rightarrow> 'g ledger \<Rightarrow> 'g ledger" where
  "index_row r L =
     upsert_search_terms (mr_id r) (mr_subject_id r) (authority_workspace (mr_raw r)) (mr_fact_key r)
       (upsert_fts (mr_id r) (mr_subject_id r) (mr_content r) L)"

definition insert_record ::
  "'g memory_env \<Rightarrow> string \<Rightarrow> record_args \<Rightarrow> 'g ledger \<Rightarrow> memory_error + 'g ledger \<times> string" where
  "insert_record E sub a L =
     (let rid = new_id_of ''rec'' E L; L1 = tick L; r = record_of rid sub (utc_now E L1) a in
      if rid \<in> mr_id ` set (lg_records L) then Inl MIntegrityError
      else
        (let L2 = (tick L1)\<lparr>lg_records := lg_records L @ [r]\<rparr> in
         Inr (if ra_status a = RActive then index_row r L2 else L2, rid)))"

definition get_record :: "'g ledger \<Rightarrow> string \<Rightarrow> string \<Rightarrow> memory_record option" where
  "get_record L sub rid = find (\<lambda>r. mr_subject_id r = sub \<and> mr_id r = rid) (lg_records L)"

definition row_order :: "memory_record \<Rightarrow> int \<times> string" where
  "row_order r = (mr_created_at r, mr_id r)"

definition list_records :: "'g ledger \<Rightarrow> string \<Rightarrow> record_status list option \<Rightarrow> memory_record list" where
  "list_records L sub statuses =
     sort_key row_order
       (filter (\<lambda>r. mr_subject_id r = sub \<and> (case statuses of None \<Rightarrow> True | Some ss \<Rightarrow> mr_status r \<in> set ss)) (lg_records L))"

definition list_episodes :: "'g ledger \<Rightarrow> string \<Rightarrow> episode_row list" where
  "list_episodes L sub = sort_key (\<lambda>e. (er_created_at e, er_id e)) (filter (\<lambda>e. er_subject_id e = sub) (lg_episodes L))"

definition find_duplicate_record :: "'g ledger \<Rightarrow> string \<Rightarrow> string \<Rightarrow> record_status list \<Rightarrow> memory_record option" where
  "find_duplicate_record L sub content statuses =
     (let n = normalize_content content in
      if n = [] \<or> statuses = [] then None
      else (case filter (\<lambda>r. mr_content_normalized r = Some n) (list_records L sub (Some statuses)) of
              [] \<Rightarrow> None | r # _ \<Rightarrow> Some r))"

definition active_records_for_fact_key :: "'g ledger \<Rightarrow> string \<Rightarrow> string option \<Rightarrow> string option \<Rightarrow> memory_record list" where
  "active_records_for_fact_key L sub fact_key exclude =
     (if \<not> truthy fact_key then []
      else filter (\<lambda>r. mr_fact_key r = fact_key \<and> exclude \<noteq> Some (mr_id r)) (list_records L sub (Some [RActive])))"

text \<open>Every update of a row advances its generation by a trigger.\<close>

definition update_records :: "(memory_record \<Rightarrow> bool) \<Rightarrow> (memory_record \<Rightarrow> memory_record) \<Rightarrow> 'g ledger \<Rightarrow> 'g ledger" where
  "update_records P f L =
     L\<lparr>lg_records := map (\<lambda>r. if P r then (f r)\<lparr>mr_generation := mr_generation r + 1\<rparr> else r) (lg_records L)\<rparr>"

definition update_units :: "(typed_unit \<Rightarrow> bool) \<Rightarrow> (typed_unit \<Rightarrow> typed_unit) \<Rightarrow> 'g ledger \<Rightarrow> 'g ledger" where
  "update_units P f L =
     L\<lparr>lg_typed := (lg_typed L)\<lparr>ty_units :=
         map (\<lambda>u. if P u then (f u)\<lparr>tu_generation := tu_generation u + 1\<rparr> else u) (ty_units (lg_typed L))\<rparr>\<rparr>"

definition row_of :: "string \<Rightarrow> string \<Rightarrow> memory_record \<Rightarrow> bool" where
  "row_of sub rid r \<longleftrightarrow> mr_subject_id r = sub \<and> mr_id r = rid"

definition promote_record ::
  "'g memory_env \<Rightarrow> string \<Rightarrow> string \<Rightarrow> string \<Rightarrow> 'g ledger \<Rightarrow> 'g ledger \<times> memory_record option" where
  "promote_record E sub rid tier L0 =
     (let now = utc_now E L0; L = tick L0 in
      case find (\<lambda>r. row_of sub rid r \<and> mr_status r = RQuarantined) (lg_records L) of
        None \<Rightarrow> (L, None)
      | Some r \<Rightarrow>
          (let raw = set_unit_lifecycle ''active'' (mr_raw r);
               L1 = update_records (row_of sub rid)
                      (\<lambda>r. r\<lparr>mr_status := RActive, mr_trust_tier := tier, mr_updated_at := Some now, mr_raw := raw\<rparr>) L;
               L2 = upsert_search_terms rid sub (authority_workspace raw) (mr_fact_key r) (upsert_fts rid sub (mr_content r) L1);
               L3 = update_units (\<lambda>u. tu_record_id u = rid \<and> tu_lifecycle u = ''quarantined'')
                      (\<lambda>u. u\<lparr>tu_lifecycle := ''active'', tu_updated_at := now\<rparr>) L2
           in (L3, get_record L3 sub rid)))"

definition supersede_one :: "string \<Rightarrow> int \<Rightarrow> string \<Rightarrow> string \<Rightarrow> 'g ledger \<Rightarrow> 'g ledger" where
  "supersede_one sub now by_id rid L =
     (case find (\<lambda>r. row_of sub rid r \<and> mr_status r = RActive) (lg_records L) of
        None \<Rightarrow> L
      | Some r \<Rightarrow>
          (let raw = set_unit_lifecycle ''superseded'' (jset ''superseded_by_id'' (JStr by_id) (mr_raw r));
               L1 = update_records (\<lambda>r. row_of sub rid r \<and> mr_status r = RActive)
                      (\<lambda>r. r\<lparr>mr_status := RSuperseded, mr_updated_at := Some now, mr_raw := raw\<rparr>) L
           in update_units (\<lambda>u. tu_record_id u = rid \<and> tu_lifecycle u \<in> {''active'', ''quarantined''})
                (\<lambda>u. u\<lparr>tu_lifecycle := ''superseded'', tu_updated_at := now\<rparr>) (delete_search_terms rid (delete_fts rid L1))))"

definition supersede_records :: "'g memory_env \<Rightarrow> string \<Rightarrow> string list \<Rightarrow> string \<Rightarrow> 'g ledger \<Rightarrow> 'g ledger" where
  "supersede_records E sub rids by_id L =
     (if rids = [] then L else fold (supersede_one sub (utc_now E L) by_id) rids (tick L))"

end
