(* ===== verification/Memory_Purge.thy ===== *)
theory Memory_Purge
  imports Memory_Store
begin

text \<open>
  Deletion in the memory ledger (\<^verbatim>\<open>tombstone_records\<close>, \<^verbatim>\<open>_source_in_use\<close>, \<^verbatim>\<open>_purge_protocol_source\<close>,
  \<^verbatim>\<open>redact_memory_proposal\<close>, \<^verbatim>\<open>tombstone_media_observations_for_records\<close> and the media reads of
  \<^verbatim>\<open>src/atmem/store/sqlite.py\<close>): a record keeps its row without content and slot, its indexes go, and so does the
  source behind it once nothing else rests on that source.  Sets of the code are lists without repetition in the order
  in which their elements were added.
\<close>

definition on_typed :: "(typed_tables \<Rightarrow> typed_tables) \<Rightarrow> 'g ledger \<Rightarrow> 'g ledger" where
  "on_typed f L = L\<lparr>lg_typed := f (lg_typed L)\<rparr>"

definition redacted_proposal :: "string \<Rightarrow> json \<Rightarrow> json" where
  "redacted_proposal pid v =
     (let u = jsub v ''unit'' in
      JObj [(''format'', jopt v ''format''), (''proposal_id'', JStr pid), (''scope'', jopt v ''scope''),
            (''action'', jopt v ''action''), (''memory_class'', jopt v ''memory_class''), (''unit_id'', jopt u ''unit_id''),
            (''formation_id'', jopt u ''formation_id''), (''kind'', jopt u ''kind''), (''redacted'', JBool True)])"

definition redact_memory_proposal :: "string \<Rightarrow> 'g ledger \<Rightarrow> 'g ledger" where
  "redact_memory_proposal pid =
     on_typed (\<lambda>T. T\<lparr>ty_proposals :=
       replace_by mp_proposal_id pid (\<lambda>p. p\<lparr>mp_proposal := redacted_proposal pid (mp_proposal p), mp_fact_key := None\<rparr>)
         (ty_proposals T)\<rparr>)"

definition live :: "memory_record \<Rightarrow> bool" where
  "live r \<longleftrightarrow> mr_status r \<noteq> RTombstoned"

definition source_in_use :: "string \<Rightarrow> 'g ledger \<Rightarrow> bool" where
  "source_in_use sid L =
     (let T = lg_typed L in
      case lookup_by ps_source_id sid (ty_sources T) of
        None \<Rightarrow> False
      | Some s \<Rightarrow>
          list_ex (\<lambda>e. ue_source_id e = sid \<and>
             list_ex (\<lambda>u. tu_subject_id u = ue_subject_id e \<and> tu_workspace_id u = ue_workspace_id e \<and>
                tu_unit_id u = ue_unit_id e \<and> tu_lifecycle u \<noteq> ''deleted'') (ty_units T)) (ty_evidence T) \<or>
          list_ex (\<lambda>r. mr_episode_id r = Some (ps_episode_id s) \<and> live r) (lg_records L) \<or>
          list_ex (\<lambda>(pid, s). s = sid \<and>
             list_ex (\<lambda>p. mp_proposal_id p = pid \<and> mp_review_state p = ''pending_review'') (ty_proposals T)) (ty_proposal_sources T) \<or>
          list_ex (\<lambda>r. mr_subject_id r = ps_subject_id s \<and> live r \<and> sid \<in> set (jstrings (mr_raw r) ''source_ids'')) (lg_records L))"

text \<open>One proposal linked to a purged source: redacted, and stale if it was waiting for a review.\<close>

definition retire_proposal :: "'g memory_env \<Rightarrow> string \<Rightarrow> 'g ledger \<Rightarrow> 'g ledger" where
  "retire_proposal E pid L =
     (let L1 = redact_memory_proposal pid L; now = utc_now E L1 in
      on_typed (\<lambda>T. T\<lparr>ty_proposals := replace_by mp_proposal_id pid (\<lambda>p.
          if mp_review_state p = ''pending_review'' then p\<lparr>mp_review_state := ''stale'', mp_decided_at := Some now\<rparr> else p)
          (ty_proposals T)\<rparr>) (tick L1))"

definition purge_protocol_source :: "'g memory_env \<Rightarrow> string \<Rightarrow> 'g ledger \<Rightarrow> 'g ledger \<times> string option" where
  "purge_protocol_source E sid L =
     (case lookup_by ps_source_id sid (ty_sources (lg_typed L)) of
        None \<Rightarrow> (L, None)
      | Some s \<Rightarrow>
          if source_in_use sid L then (L, None)
          else
            (let linked = map fst (filter (\<lambda>(pid, x). x = sid) (ty_proposal_sources (lg_typed L)));
                 L1 = fold (retire_proposal E) linked L;
                 L2 = on_typed (\<lambda>T. T\<lparr>ty_sources := replace_by ps_source_id sid (\<lambda>x. x\<lparr>
                        ps_request := JObj [(''format'', JStr ''atmem-source-capture-request-v1''), (''source_id'', JStr sid),
                                            (''redacted'', JBool True)],
                        ps_result := JObj [(''format'', JStr ''atmem-source-capture-result-v1''), (''source_id'', JStr sid),
                                           (''episode_id'', JStr (ps_episode_id s)), (''source_sha256'', JStr (ps_source_sha256 s)),
                                           (''retained'', JBool False), (''redacted'', JBool True)]\<rparr>) (ty_sources T)\<rparr>) L1
             in (L2, Some (ps_episode_id s))))"

section \<open>Tombstones\<close>

definition tombstone_row :: "int \<Rightarrow> memory_record \<Rightarrow> memory_record" where
  "tombstone_row now r =
     r\<lparr>mr_status := RTombstoned, mr_content := [], mr_content_normalized := None, mr_fact_key := None,
       mr_updated_at := Some now, mr_deleted_at := Some now, mr_raw := JObj [(''purged'', JBool True)]\<rparr>"

text \<open>What the loop over the identifiers has gathered: changed records, sources and records with typed units.\<close>

record purge_state =
  pu_changed :: "string list"
  pu_sources :: "string list"
  pu_typed :: "string list"

definition units_of :: "string \<Rightarrow> typed_tables \<Rightarrow> (typed_unit \<times> unit_evidence) list" where
  "units_of rid T =
     concat (map (\<lambda>u. map (Pair u) (filter (\<lambda>e. ue_subject_id e = tu_subject_id u \<and> ue_workspace_id e = tu_workspace_id u \<and>
         ue_unit_id e = tu_unit_id u) (ty_evidence T))) (filter (\<lambda>u. tu_record_id u = rid) (ty_units T)))"

definition drop_evidence :: "(typed_unit \<times> unit_evidence) list \<Rightarrow> typed_tables \<Rightarrow> typed_tables" where
  "drop_evidence rows T =
     T\<lparr>ty_evidence := filter (\<lambda>e. \<not> list_ex (\<lambda>(u, _). ue_subject_id e = tu_subject_id u \<and>
         ue_workspace_id e = tu_workspace_id u \<and> ue_unit_id e = tu_unit_id u) rows) (ty_evidence T)\<rparr>"

definition redact_own_proposal :: "json \<Rightarrow> 'g ledger \<Rightarrow> 'g ledger" where
  "redact_own_proposal raw =
     (case jstr_opt raw ''proposal_id'' of
        None \<Rightarrow> id
      | Some pid \<Rightarrow>
          if pid = [] then id
          else on_typed (\<lambda>T. T\<lparr>ty_proposals := replace_by mp_proposal_id pid
                 (\<lambda>p. p\<lparr>mp_proposal := redacted_proposal pid (mp_proposal p)\<rparr>) (ty_proposals T)\<rparr>))"

definition tombstone_one :: "string \<Rightarrow> int \<Rightarrow> string \<Rightarrow> 'g ledger \<times> purge_state \<Rightarrow> 'g ledger \<times> purge_state" where
  "tombstone_one sub now rid S =
     (case S of (L, p) \<Rightarrow>
        (case find (\<lambda>r. row_of sub rid r \<and> live r) (lg_records L) of
           None \<Rightarrow> (L, p)
         | Some r \<Rightarrow>
             (let rows = units_of rid (lg_typed L);
                  L1 = update_records (row_of sub rid) (tombstone_row now) L;
                  L2 = delete_search_terms rid (delete_fts rid L1);
                  L3 = update_units (\<lambda>u. tu_record_id u = rid \<and> tu_lifecycle u \<noteq> ''deleted'')
                         (\<lambda>u. u\<lparr>tu_lifecycle := ''deleted'', tu_semantic_identity := None, tu_updated_at := now\<rparr>) L2
              in (redact_own_proposal (mr_raw r) (on_typed (drop_evidence rows) L3),
                  \<lparr>pu_changed = pu_changed p @ [rid],
                   pu_sources = dedup (pu_sources p @ map (ue_source_id \<circ> snd) rows),
                   pu_typed = (if rows = [] then pu_typed p else List.union (pu_typed p) [rid])\<rparr>))))"

text \<open>The episodes of the changed records that no typed record and no live record holds on to.\<close>

definition free_episodes :: "string \<Rightarrow> purge_state \<Rightarrow> 'g ledger \<Rightarrow> string list" where
  "free_episodes sub p L =
     (let own = dedup (concat (map (\<lambda>r. case mr_episode_id r of None \<Rightarrow> [] | Some e \<Rightarrow> [e])
            (filter (\<lambda>r. mr_subject_id r = sub \<and> mr_id r \<in> set (pu_changed p)) (lg_records L))))
      in filter (\<lambda>e. \<not> list_ex (\<lambda>r. mr_id r \<in> set (pu_typed p) \<and> mr_episode_id r = Some e) (lg_records L) \<and>
                     \<not> list_ex (\<lambda>r. mr_episode_id r = Some e \<and> live r) (lg_records L)) own)"

text \<open>The loop over the sources of the typed units.\<close>

definition purge_unit_source :: "'g memory_env \<Rightarrow> string \<Rightarrow> 'g ledger \<times> string list \<Rightarrow> 'g ledger \<times> string list" where
  "purge_unit_source E sid S =
     (case S of (L, eps) \<Rightarrow>
        (let L1 =
               (if source_in_use sid L then L
                else
                  (let refs = filter (\<lambda>(f, q, s). s = sid) (ty_media_references (lg_typed L))
                   in on_typed (\<lambda>T. T\<lparr>
                        ty_protected_media := filter (\<lambda>(f, q). (f, q) \<notin> (\<lambda>(f, q, s). (f, q)) ` set refs) (ty_protected_media T),
                        ty_media_references := filter (\<lambda>(f, q, s). s \<noteq> sid) (ty_media_references T)\<rparr>) L));
             (L2, e) = purge_protocol_source E sid L1
         in (L2, case e of None \<Rightarrow> eps | Some x \<Rightarrow> eps @ [x])))"

definition purge_episodes :: "'g memory_env \<Rightarrow> string \<Rightarrow> string list \<Rightarrow> 'g ledger \<Rightarrow> 'g ledger \<times> string list" where
  "purge_episodes E sub eps0 L =
     (let rows = filter (\<lambda>s. ps_episode_id s \<in> set eps0) (ty_sources (lg_typed L));
          kept = map ps_episode_id (filter (\<lambda>s. source_in_use (ps_source_id s) L) rows);
          eps = filter (\<lambda>e. e \<notin> set kept) eps0;
          L1 = fold (\<lambda>s L. if ps_episode_id s \<in> set eps then fst (purge_protocol_source E (ps_source_id s) L) else L) rows L
      in (L1\<lparr>lg_episodes := map (\<lambda>e. if er_subject_id e = sub \<and> er_id e \<in> set eps
              then e\<lparr>er_message := ''[purged]'', er_raw := JObj [(''purged'', JBool True)]\<rparr> else e) (lg_episodes L1)\<rparr>, eps))"

definition tombstone_records :: "'g memory_env \<Rightarrow> string \<Rightarrow> string list \<Rightarrow> 'g ledger \<Rightarrow> 'g ledger \<times> string list \<times> string list" where
  "tombstone_records E sub rids L0 =
     (if rids = [] then (L0, [], [])
      else
        (let now = utc_now E L0;
             (L1, p) = fold (tombstone_one sub now) rids (tick L0, \<lparr>pu_changed = [], pu_sources = [], pu_typed = []\<rparr>);
             eps1 = (if pu_changed p = [] then [] else free_episodes sub p L1);
             (L2, eps2) = fold (purge_unit_source E) (pu_sources p) (L1, eps1);
             eps3 = dedup eps2;
             (L3, eps) = (if eps3 = [] then (L2, []) else purge_episodes E sub eps3 L2)
         in (L3, pu_changed p, eps)))"

section \<open>Media observations\<close>

definition get_media_observation_for_record :: "'g ledger \<Rightarrow> string \<Rightarrow> string \<Rightarrow> media_observation option" where
  "get_media_observation_for_record L sub rid =
     find (\<lambda>o1. mo_subject_id o1 = sub \<and> mo_record_id o1 = rid) (lg_observations L)"

text \<open>The active records of a lineage, each with the identifier of its observation.\<close>

definition active_media_records_for_lineage :: "'g ledger \<Rightarrow> string \<Rightarrow> string \<Rightarrow> string option \<Rightarrow> (memory_record \<times> string) list" where
  "active_media_records_for_lineage L sub lineage exclude =
     sort_key (row_order \<circ> fst)
       (concat (map (\<lambda>o1. map (\<lambda>r. (r, mo_id o1))
            (filter (\<lambda>r. mr_subject_id r = mo_subject_id o1 \<and> mr_id r = mo_record_id o1 \<and> mr_status r = RActive \<and>
               exclude \<noteq> Some (mr_id r)) (lg_records L)))
          (filter (\<lambda>o1. mo_subject_id o1 = sub \<and> mo_lineage_sha256 o1 = lineage) (lg_observations L))))"

definition tombstone_artifact ::
  "string \<Rightarrow> int \<Rightarrow> string \<Rightarrow> 'g ledger \<times> string list \<Rightarrow> 'g ledger \<times> string list" where
  "tombstone_artifact sub now aid S =
     (case S of (L, done_ids) \<Rightarrow>
        if list_ex (\<lambda>o1. mo_subject_id o1 = sub \<and> mo_artifact_id o1 = aid \<and> mo_status o1 \<noteq> ''tombstoned'') (lg_observations L)
        then (L, done_ids)
        else (L\<lparr>lg_artifacts := map (\<lambda>a. if ma_subject_id a = sub \<and> ma_id a = aid
                  then a\<lparr>ma_status := ''tombstoned'', ma_host_reference := [], ma_deleted_at := Some now\<rparr> else a) (lg_artifacts L)\<rparr>,
              done_ids @ [aid]))"

definition tombstone_media_observations_for_records ::
  "'g memory_env \<Rightarrow> string \<Rightarrow> string list \<Rightarrow> 'g ledger \<Rightarrow> 'g ledger \<times> string list \<times> string list" where
  "tombstone_media_observations_for_records E sub rids L =
     (let obs = filter (\<lambda>o1. mo_subject_id o1 = sub \<and> mo_record_id o1 \<in> set rids \<and> mo_status o1 \<noteq> ''tombstoned'')
                  (lg_observations L);
          oids = map mo_id obs; aids = dedup (map mo_artifact_id obs)
      in if oids = [] then (L, [], [])
         else
           (let now = utc_now E L;
                L1 = (tick L)\<lparr>lg_observations := map (\<lambda>o1. if mo_subject_id o1 = sub \<and> mo_id o1 \<in> set oids
                        then o1\<lparr>mo_status := ''tombstoned'', mo_segment := JObj [], mo_extractor := JObj [], mo_confidence := None,
                                mo_deleted_at := Some now\<rparr> else o1) (lg_observations L)\<rparr>;
                (L2, done_ids) = fold (tombstone_artifact sub now) aids (L1, [])
            in (L2, oids, done_ids)))"

section \<open>What a purge leaves alone\<close>

text \<open>The tables that carry the memories and their history.\<close>

definition same_memory :: "'g ledger \<Rightarrow> 'g ledger \<Rightarrow> bool" where
  "same_memory L L' \<longleftrightarrow> lg_records L' = lg_records L \<and> lg_fts L' = lg_fts L \<and> lg_terms L' = lg_terms L \<and>
     lg_log L' = lg_log L \<and> lg_graph L' = lg_graph L \<and> lg_exclusions L' = lg_exclusions L"

lemma same_memory_refl [simp]: "same_memory L L"
  by (simp add: same_memory_def)

lemma same_memory_trans: "same_memory L M \<Longrightarrow> same_memory M N \<Longrightarrow> same_memory L N"
  by (simp add: same_memory_def)

lemma fold_same_memory:
  "(\<And>x S. x \<in> set xs \<Longrightarrow> same_memory (f S) (f (g x S))) \<Longrightarrow> same_memory (f S) (f (fold g xs S))"
proof (induction xs arbitrary: S)
  case (Cons x xs)
  have "same_memory (f S) (f (g x S))" by (rule Cons.prems) simp
  also have "same_memory (f (g x S)) (f (fold g xs (g x S)))" by (rule Cons.IH) (rule Cons.prems, simp)
  finally (same_memory_trans) show ?case by simp
qed simp

lemma on_typed_same [simp]: "same_memory L (on_typed f L)" "same_memory L (tick L)"
  by (simp_all add: same_memory_def on_typed_def tick_def)

lemma retire_proposal_same: "same_memory L (retire_proposal E pid L)"
  by (simp add: retire_proposal_def Let_def redact_memory_proposal_def same_memory_def on_typed_def tick_def)

lemma purge_protocol_source_same: "same_memory L (fst (purge_protocol_source E sid L))"
proof -
  have "same_memory L (on_typed f (fold (retire_proposal E) xs L))" for f xs
    using fold_same_memory [of xs id "retire_proposal E" L] retire_proposal_same same_memory_trans on_typed_same(1)
    by (metis id_apply)
  then show ?thesis by (simp add: purge_protocol_source_def Let_def split: option.splits)
qed

lemma purge_unit_source_same: "same_memory (fst S) (fst (purge_unit_source E sid S))"
proof (cases S)
  case (Pair L eps)
  have "same_memory L (fst (purge_protocol_source E sid (on_typed f L)))" for f
    using same_memory_trans purge_protocol_source_same on_typed_same(1) by metis
  then show ?thesis using Pair purge_protocol_source_same [of L E sid]
    by (simp add: purge_unit_source_def Let_def split_beta)
qed

lemma purge_episodes_same: "same_memory L (fst (purge_episodes E sub eps L))"
proof -
  have "same_memory L (fold (\<lambda>s L. if P s then fst (purge_protocol_source E (ps_source_id s) L) else L) rows L)" for P rows
    by (rule fold_same_memory [where f = id, simplified]) (simp add: purge_protocol_source_same)
  then show ?thesis by (simp add: purge_episodes_def Let_def same_memory_def)
qed

lemma tombstone_media_same: "same_memory L (fst (tombstone_media_observations_for_records E sub rids L))"
proof -
  have step: "same_memory (fst S) (fst (tombstone_artifact sub now aid S))" for now aid S
    by (cases S) (simp add: tombstone_artifact_def same_memory_def)
  have "same_memory M (fst (fold (tombstone_artifact sub now) aids (M, [])))" for now aids M
    using fold_same_memory [of aids fst "tombstone_artifact sub now" "(M, [])", OF step] by simp
  note parts = this [unfolded same_memory_def]
  show ?thesis
    by (simp add: parts tombstone_media_observations_for_records_def Let_def split_beta same_memory_def tick_def)
qed

end
