(* ===== verification/Memory_Ledger.thy ===== *)
theory Memory_Ledger
  imports Memory_Purge Audit_Checkpoint
begin

text \<open>
  The operations of the memory ledger (\<^verbatim>\<open>class Memory\<close> of \<^verbatim>\<open>src/atmem/memory.py\<close>): remembering, proposing, promoting,
  rejecting, correcting, excluding, consolidating and forgetting records, each with the audit events that it writes,
  and the extractor around its sentence patterns (\<^verbatim>\<open>src/atmem/extract/rules.py\<close>).  An operation is atomic: an
  exception restores the ledger.
\<close>

type_synonym ('g, 'a) memory_result = "memory_error + 'g ledger \<times> 'a"

definition atomic :: "('g ledger \<Rightarrow> ('g, 'a) memory_result) \<Rightarrow> 'g ledger \<Rightarrow> 'g ledger \<times> (memory_error + 'a)" where
  "atomic m L = (case m L of Inl e \<Rightarrow> (L, Inl e) | Inr (L', x) \<Rightarrow> (L', Inr x))"

definition opt_str_json :: "string option \<Rightarrow> json" where
  "opt_str_json s = opt_json JStr s"

definition sha :: "'g memory_env \<Rightarrow> string \<Rightarrow> string" where
  "sha E s = sha_json (me_hashes E) (JStr s)"

fun status_value_of :: "record_status \<Rightarrow> string" where
  "status_value_of RActive = ''active''"
| "status_value_of RSuperseded = ''superseded''"
| "status_value_of RQuarantined = ''quarantined''"
| "status_value_of RTombstoned = ''tombstoned''"

definition opt_num_json :: "int option \<Rightarrow> json" where
  "opt_num_json n = opt_json JNum n"

text \<open>The columns that the chain commits to.\<close>

definition integrity_view :: "memory_record \<Rightarrow> json" where
  "integrity_view r =
     JObj [(''id'', JStr (mr_id r)), (''subject_id'', JStr (mr_subject_id r)), (''content'', JStr (mr_content r)),
           (''source_type'', JStr (mr_source_type r)), (''trust_tier'', JStr (mr_trust_tier r)),
           (''source_session_id'', opt_str_json (mr_source_session_id r)),
           (''source_turn_id'', opt_str_json (mr_source_turn_id r)), (''episode_id'', opt_str_json (mr_episode_id r)),
           (''created_at'', JTime (mr_created_at r)), (''confidence'', opt_num_json (mr_confidence r)),
           (''scope'', JStr (mr_scope r)), (''status'', JStr (status_value_of (mr_status r))),
           (''supersedes_id'', opt_str_json (mr_supersedes_id r)), (''fact_key'', opt_str_json (mr_fact_key r)),
           (''raw'', mr_raw r)]"

definition record_integrity_sha256 :: "'g memory_env \<Rightarrow> memory_record \<Rightarrow> string" where
  "record_integrity_sha256 E r = sha_json (me_hashes E) (canonical (integrity_view r))"

datatype turn = TurnNumber int | TurnText string

definition show_int_of :: "int \<Rightarrow> string" where
  "show_int_of n = (if n < 0 then ''-'' @ show_nat (nat (- n)) else show_nat (nat n))"

definition turn_id :: "turn option \<Rightarrow> string option" where
  "turn_id t = (case t of None \<Rightarrow> None | Some (TurnNumber n) \<Rightarrow> Some (''t'' @ show_int_of n) | Some (TurnText s) \<Rightarrow> Some s)"

definition upper :: "char \<Rightarrow> char" where
  "upper c = (if 97 \<le> code c \<and> code c \<le> 122 \<or> 224 \<le> code c \<and> code c \<le> 254 \<and> code c \<noteq> 247 then char_of (code c - 32) else c)"

text \<open>Three small letters have no capital below 256 and stay.\<close>

definition explicit_note :: "string \<Rightarrow> string" where
  "explicit_note value =
     (case join_str '' '' (runs (\<lambda>c. \<not> py_space c) value) of
        [] \<Rightarrow> ''User asked to remember an empty note.''
      | c # cs \<Rightarrow> (let txt = upper c # cs in if last txt \<in> set ''.?!'' then txt else txt @ ''.''))"

section \<open>Graph mutations in the log\<close>

definition audit_graph_mutations ::
  "'g memory_env \<Rightarrow> string \<Rightarrow> string option \<Rightarrow> string option \<Rightarrow> string option \<Rightarrow> json list \<Rightarrow> 'g ledger \<Rightarrow> 'g ledger" where
  "audit_graph_mutations E sub session turn rec ms L =
     fold (\<lambda>m L.
       fst (log_event E sub (case jstr_opt m ''event_type'' of None \<Rightarrow> [] | Some t \<Rightarrow> t)
         (case m of JObj kvs \<Rightarrow> JObj (filter (\<lambda>kv. fst kv \<noteq> ''event_type'') kvs) | j \<Rightarrow> j)
         ''graph-indexer'' session turn
         (if truthy (jstr_opt m ''record_id'') then jstr_opt m ''record_id'' else if truthy rec then rec else None) L)) ms L"

definition graph_supersede :: "'g memory_env \<Rightarrow> string \<Rightarrow> string list \<Rightarrow> string \<Rightarrow> 'g ledger \<Rightarrow> 'g ledger \<times> json list" where
  "graph_supersede E sub rids by_id L =
     (let (g, ms) = gr_supersede (me_graph E) sub rids by_id (lg_graph L) in (L\<lparr>lg_graph := g\<rparr>, ms))"

definition graph_index :: "'g memory_env \<Rightarrow> memory_record \<Rightarrow> 'g ledger \<Rightarrow> 'g ledger \<times> json list" where
  "graph_index E r L = (let (g, ms) = gr_index (me_graph E) r (lg_graph L) in (L\<lparr>lg_graph := g\<rparr>, ms))"

section \<open>The extractor\<close>

record candidate_fact =
  cf_content :: string
  cf_confidence :: int
  cf_source_type :: string
  cf_trust_tier :: string
  cf_fact_key :: "string option"
  cf_scope :: string

definition candidates_from_text :: "'g memory_env \<Rightarrow> string \<Rightarrow> string \<Rightarrow> candidate_fact list" where
  "candidates_from_text E txt source =
     (let tier = trust_tier_for_source source in
      case me_parse E txt of
        None \<Rightarrow> []
      | Some (content, fact_key, confidence) \<Rightarrow>
          [\<lparr>cf_content = content,
            cf_confidence = (if initial_status tier = RActive then confidence else min confidence 30),
            cf_source_type = source, cf_trust_tier = tier, cf_fact_key = fact_key, cf_scope = ''user_private''\<rparr>])"

definition extract_facts :: "'g memory_env \<Rightarrow> string \<Rightarrow> string \<Rightarrow> candidate_fact list" where
  "extract_facts E message source =
     (if source \<noteq> ''user_message''
      then (let body = me_body E message in if body = [] then [] else candidates_from_text E body source)
      else if is_forget_request message then []
      else candidates_from_text E message source)"

text \<open>The labels and values of caller metadata that are screened.\<close>

fun scalar_text :: "json \<Rightarrow> string option" where
  "scalar_text (JStr s) = Some s"
| "scalar_text (JNum n) = Some (show_int_of n)"
| "scalar_text (JBool b) = Some (if b then ''True'' else ''False'')"
| "scalar_text _ = None"

fun screenable_metadata :: "json \<Rightarrow> string list" where
  "screenable_metadata (JObj kvs) =
     concat (map (\<lambda>kv. fst kv # (case scalar_text (snd kv) of
        Some t \<Rightarrow> [fst kv @ '': '' @ t] | None \<Rightarrow> screenable_metadata (snd kv))) kvs)"
| "screenable_metadata (JList xs) = concat (map screenable_metadata xs)"
| "screenable_metadata (JStr s) = [s]"
| "screenable_metadata _ = []"

section \<open>Remembering\<close>

record remember_args =
  rm_message :: "string option"
  rm_fact :: "string option"
  rm_force :: bool
  rm_session_id :: "string option"
  rm_turn_id :: "turn option"
  rm_source_type :: "string option"
  rm_actor :: string
  rm_raw :: "json option"
  rm_interpreted_fact :: "string option"
  rm_interpreted_fact_key :: "string option"

record remembered =
  re_episode_id :: "string option"
  re_records :: "memory_record list"
  re_duplicate_ids :: "string list"
  re_refused :: "string list"

definition raw_of :: "remember_args \<Rightarrow> json" where
  "raw_of a = (case rm_raw a of Some (JObj kvs) \<Rightarrow> JObj kvs | _ \<Rightarrow> JObj [])"

definition screen_reasons :: "'g memory_env \<Rightarrow> remember_args \<Rightarrow> string \<Rightarrow> string \<Rightarrow> string list" where
  "screen_reasons E a txt source =
     dedup (concat (me_screen E txt (source = ''user_message'') #
       map (\<lambda>f. me_screen E f True)
         ((case rm_interpreted_fact a of None \<Rightarrow> [] | Some f \<Rightarrow> [f]) @
          (case rm_interpreted_fact_key a of None \<Rightarrow> [] | Some k \<Rightarrow> [k]) @ screenable_metadata (raw_of a))))"

text \<open>The content-free description of an interpreted fact in its events.\<close>

definition interpretation_payload :: "'g memory_env \<Rightarrow> remember_args \<Rightarrow> string \<Rightarrow> candidate_fact \<Rightarrow> (string \<times> json) list" where
  "interpretation_payload E a txt c =
     [(''interpreter'', jopt (raw_of a) ''interpreter''),
      (''interpretation_assurance'',
        (case jget (raw_of a) ''interpretation_assurance'' of Some v \<Rightarrow> v | None \<Rightarrow> JStr ''caller_asserted'')),
      (''source_binding'', (case jget (raw_of a) ''source_binding'' of Some v \<Rightarrow> v | None \<Rightarrow> JStr ''caller_supplied'')),
      (''source_message_sha256'', JStr (sha E txt)), (''interpreted_fact_sha256'', JStr (sha E (cf_content c))),
      (''fact_key'', opt_str_json (cf_fact_key c))]"

definition interpreted_candidate :: "remember_args \<Rightarrow> string \<Rightarrow> string \<Rightarrow> candidate_fact" where
  "interpreted_candidate a source f =
     \<lparr>cf_content = explicit_note f, cf_confidence = 100, cf_source_type = source,
      cf_trust_tier = trust_tier_for_source source,
      cf_fact_key = (if truthy (rm_interpreted_fact_key a) then map_option normalize_content (rm_interpreted_fact_key a) else None),
      cf_scope = ''host_agent_interpreted''\<rparr>"

definition created_payload ::
  "'g memory_env \<Rightarrow> string \<Rightarrow> candidate_fact \<Rightarrow> record_status \<Rightarrow> string list \<Rightarrow> memory_record \<Rightarrow> json" where
  "created_payload E eid c status old_ids stored =
     JObj [(''episode_id'', JStr eid), (''source_type'', JStr (cf_source_type c)), (''trust_tier'', JStr (cf_trust_tier c)),
           (''status'', JStr (status_value_of status)), (''fact_key'', opt_str_json (cf_fact_key c)),
           (''supersedes'', strs_json old_ids), (''confidence'', JNum (cf_confidence c)), (''scope'', JStr (cf_scope c)),
           (''content_sha256'', JStr (sha E (cf_content c))),
           (''record_integrity_sha256'', JStr (record_integrity_sha256 E stored))]"

text \<open>One round of the loop over the candidates: a duplicate is noted, anything else becomes a record.\<close>

definition store_candidate ::
  "'g memory_env \<Rightarrow> string \<Rightarrow> string option \<Rightarrow> string option \<Rightarrow> string \<Rightarrow> candidate_fact \<Rightarrow>
   'g ledger \<times> memory_record list \<times> string list \<Rightarrow> ('g, memory_record list \<times> string list) memory_result" where
  "store_candidate E sub session turn eid c S =
     (case S of (L, records, dups) \<Rightarrow>
        (let status = initial_status (cf_trust_tier c) in
         case find_duplicate_record L sub (cf_content c)
                (if status = RActive then [RActive] else [RActive, RQuarantined]) of
           Some d \<Rightarrow>
             Inr (fst (log_event E sub ''memory.duplicate_ignored''
                    (JObj [(''episode_id'', JStr eid), (''fact_key'', opt_str_json (cf_fact_key c))])
                    ''system'' session turn (Some (mr_id d)) L), records, dups @ [mr_id d])
         | None \<Rightarrow>
             (let old_ids = map mr_id (if status = RActive then active_records_for_fact_key L sub (cf_fact_key c) None else [])
              in bind_res (insert_record E sub
                   \<lparr>ra_content = cf_content c, ra_source_type = cf_source_type c, ra_trust_tier = cf_trust_tier c,
                    ra_session_id = session, ra_turn_id = turn, ra_episode_id = Some eid, ra_confidence = Some (cf_confidence c),
                    ra_scope = cf_scope c, ra_status = status,
                    ra_supersedes_id = (case old_ids of [] \<Rightarrow> None | i # _ \<Rightarrow> Some i), ra_fact_key = cf_fact_key c,
                    ra_raw = JObj []\<rparr> L) (\<lambda>(L1, rid).
                 let L2 = supersede_records E sub old_ids rid L1 in
                 case get_record L2 sub rid of
                   None \<Rightarrow> Inl MAssertionError
                 | Some stored \<Rightarrow>
                     (let L3 = fst (log_event E sub
                             (if status = RActive then ''memory.record_created'' else ''memory.record_quarantined'')
                             (created_payload E eid c status old_ids stored) ''system'' session turn (Some rid) L2);
                          (L4, ms1) = graph_supersede E sub old_ids rid L3;
                          (L5, ms2) = graph_index E stored L4
                      in Inr (audit_graph_mutations E sub session turn (Some rid) (ms1 @ ms2) L5, records @ [stored], dups))))))"

definition keep_note :: "remember_args \<Rightarrow> string \<Rightarrow> string \<Rightarrow> candidate_fact list \<Rightarrow> candidate_fact list" where
  "keep_note a txt source cs =
     (if rm_force a \<and> cs = [] \<and> source = ''user_message''
      then [\<lparr>cf_content = explicit_note txt, cf_confidence = 70, cf_source_type = source,
             cf_trust_tier = trust_tier_for_source source, cf_fact_key = None, cf_scope = ''user_note''\<rparr>]
      else cs)"

text \<open>The fold over the candidates, keeping the ledger beside the lists.\<close>

fun store_candidates ::
  "'g memory_env \<Rightarrow> string \<Rightarrow> string option \<Rightarrow> string option \<Rightarrow> string \<Rightarrow> candidate_fact list \<Rightarrow>
   'g ledger \<times> memory_record list \<times> string list \<Rightarrow> ('g, memory_record list \<times> string list) memory_result" where
  "store_candidates E sub session turn eid [] S = Inr S"
| "store_candidates E sub session turn eid (c # cs) S =
     bind_res (store_candidate E sub session turn eid c S) (store_candidates E sub session turn eid cs)"

text \<open>After the checks: the episode, its event, the candidates.\<close>

definition ingest ::
  "'g memory_env \<Rightarrow> string \<Rightarrow> remember_args \<Rightarrow> string \<Rightarrow> string \<Rightarrow> candidate_fact option \<Rightarrow> 'g ledger \<Rightarrow>
   ('g, remembered) memory_result" where
  "ingest E sub a txt source interpreted L =
     (let session = rm_session_id a; turn = turn_id (rm_turn_id a) in
      bind_res (insert_episode E sub session turn txt source (raw_of a) L) (\<lambda>(L1, eid).
        let L2 = fst (log_event E sub ''episode.ingested''
                   (JObj [(''episode_id'', JStr eid), (''source_type'', JStr source), (''message_sha256'', JStr (sha E txt))])
                   (rm_actor a) session turn None L1);
            (L3, cs0) =
              (case interpreted of
                 Some c \<Rightarrow>
                   (fst (log_event E sub ''memory.semantic_interpretation_received''
                      (JObj ((''episode_id'', JStr eid) # interpretation_payload E a txt c)) (rm_actor a) session turn None L2), [c])
               | None \<Rightarrow> (L2, extract_facts E txt source));
            cs = keep_note a txt source cs0
        in bind_res (store_candidates E sub session turn eid cs (L3, [], [])) (\<lambda>(L4, records, dups).
             let L5 = (if cs = [] \<and> source \<noteq> ''user_message''
                       then fst (log_event E sub ''memory.untrusted_source_ignored''
                              (JObj [(''episode_id'', JStr eid), (''source_type'', JStr source)]) ''system'' session turn None L4)
                       else L4)
             in Inr (L5, \<lparr>re_episode_id = Some eid, re_records = records, re_duplicate_ids = dups, re_refused = []\<rparr>))))"

definition remember_body :: "'g memory_env \<Rightarrow> string \<Rightarrow> remember_args \<Rightarrow> 'g ledger \<Rightarrow> ('g, remembered) memory_result" where
  "remember_body E sub a L =
     (case (case rm_message a of Some m \<Rightarrow> Some m | None \<Rightarrow> rm_fact a) of
        None \<Rightarrow> Inl MValueError
      | Some txt \<Rightarrow>
          (let turn = turn_id (rm_turn_id a); session = rm_session_id a;
               source = (if truthy (rm_source_type a) then py_str (rm_source_type a) else classify_source txt)
           in if rm_interpreted_fact a \<noteq> None \<and> source \<noteq> ''user_message'' then Inl MValueError
              else
                (let reasons = screen_reasons E a txt source in
                 if reasons \<noteq> [] then
                   Inr (fst (log_event E sub ''memory.content_refused''
                          (JObj [(''episode_id'', JNull), (''source_type'', JStr source), (''reason_codes'', strs_json reasons),
                                 (''message_sha256'', JStr (sha E txt))]) ''system'' session turn None L),
                        \<lparr>re_episode_id = None, re_records = [], re_duplicate_ids = [], re_refused = reasons\<rparr>)
                 else
                   (case rm_interpreted_fact a of
                      None \<Rightarrow> ingest E sub a txt source None L
                    | Some f \<Rightarrow>
                        (let c = interpreted_candidate a source f in
                         if 2000 < length (cf_content c) then Inl MValueError
                         else
                           (case find_duplicate_record L sub (cf_content c) [RActive] of
                              None \<Rightarrow> ingest E sub a txt source (Some c) L
                            | Some d \<Rightarrow>
                                Inr (fst (log_event E sub ''memory.semantic_interpretation_duplicate''
                                       (JObj (interpretation_payload E a txt c)) (rm_actor a) session turn (Some (mr_id d)) L),
                                     \<lparr>re_episode_id = None, re_records = [], re_duplicate_ids = [mr_id d], re_refused = []\<rparr>)))))))"

definition remember :: "'g memory_env \<Rightarrow> string \<Rightarrow> remember_args \<Rightarrow> 'g ledger \<Rightarrow> 'g ledger \<times> (memory_error + remembered)" where
  "remember E sub a = atomic (remember_body E sub a)"

end
