(* ===== verification/Memory_Operations.thy ===== *)
theory Memory_Operations
  imports Memory_Ledger
begin

text \<open>
  Review, correction, consolidation and deletion of records (\<^verbatim>\<open>promote\<close>, \<^verbatim>\<open>reject\<close>, \<^verbatim>\<open>set_retrieval_excluded\<close>,
  \<^verbatim>\<open>correct_record\<close>, \<^verbatim>\<open>propose_facts\<close>, \<^verbatim>\<open>consolidate\<close>, \<^verbatim>\<open>forget_record\<close>, \<^verbatim>\<open>forget\<close> and \<^verbatim>\<open>_purge_record_ids\<close> of
  \<^verbatim>\<open>src/atmem/memory.py\<close>).
\<close>

section \<open>Promotion\<close>

definition promote_body ::
  "'g memory_env \<Rightarrow> string \<Rightarrow> string \<Rightarrow> string option \<Rightarrow> turn option \<Rightarrow> string \<Rightarrow> 'g ledger \<Rightarrow> ('g, memory_record) memory_result" where
  "promote_body E sub rid session t actor L0 =
     (let media = get_media_observation_for_record L0 sub rid; (L1, found) = promote_record E sub rid TRUST_TIER_CONFIRMED L0 in
      case found of
        None \<Rightarrow> Inl MValueError
      | Some r \<Rightarrow>
          (let old = map mr_id (active_records_for_fact_key L1 sub (mr_fact_key r) (Some rid));
               lineage = (case media of None \<Rightarrow> []
                          | Some m \<Rightarrow> active_media_records_for_lineage L1 sub (mo_lineage_sha256 m) (Some rid));
               old_ids = dedup (old @ map (mr_id \<circ> fst) lineage);
               L2 = supersede_records E sub old_ids rid L1;
               payload = [(''trust_tier'', JStr (mr_trust_tier r)), (''fact_key'', opt_str_json (mr_fact_key r)),
                          (''supersedes'', strs_json old_ids)] @
                  (case media of None \<Rightarrow> []
                   | Some m \<Rightarrow> [(''media_lineage_sha256'', JStr (mo_lineage_sha256 m)),
                                (''superseded_observation_ids'', strs_json (map snd lineage))]);
               L3 = fst (log_event E sub ''memory.record_promoted'' (JObj payload) actor session (turn_id t) (Some rid) L2)
           in case get_record L3 sub rid of
                None \<Rightarrow> Inl MAssertionError
              | Some promoted \<Rightarrow>
                  (let (L4, ms1) = graph_supersede E sub old_ids rid L3; (L5, ms2) = graph_index E promoted L4
                   in Inr (audit_graph_mutations E sub session (turn_id t) (Some rid) (ms1 @ ms2) L5, promoted))))"

definition promote ::
  "'g memory_env \<Rightarrow> string \<Rightarrow> string \<Rightarrow> string option \<Rightarrow> turn option \<Rightarrow> string \<Rightarrow> 'g ledger \<Rightarrow>
   'g ledger \<times> (memory_error + memory_record)" where
  "promote E sub rid session t actor = atomic (promote_body E sub rid session t actor)"

section \<open>Purging\<close>

record cleanup =
  cl_record_ids :: "string list"
  cl_episode_ids :: "string list"
  cl_graph_ids :: "string list"
  cl_observation_ids :: "string list"
  cl_artifact_ids :: "string list"
  cl_index :: "json option"

definition purge_record_ids ::
  "'g memory_env \<Rightarrow> string \<Rightarrow> string list \<Rightarrow> string option \<Rightarrow> string option \<Rightarrow> 'g ledger \<Rightarrow> ('g, cleanup) memory_result" where
  "purge_record_ids E sub rids session turn L =
     (let ids = dedup rids;
          (L1, purged, eps) = tombstone_records E sub ids L;
          (g, ms) = gr_tombstone (me_graph E) sub purged (lg_graph L1);
          gids = concat (map (\<lambda>m. case jstr_opt m ''object_id'' of Some s \<Rightarrow> if s = [] then [] else [s] | None \<Rightarrow> []) ms);
          L2 = audit_graph_mutations E sub session turn None ms (L1\<lparr>lg_graph := g\<rparr>);
          (L3, oids, aids) = tombstone_media_observations_for_records E sub ids L2
      in case (if ids = [] then Some None else me_sweep E (lg_tick L3) sub ids) of
           None \<Rightarrow> Inl MRuntimeError
         | Some report \<Rightarrow>
             Inr (L3, \<lparr>cl_record_ids = purged, cl_episode_ids = eps, cl_graph_ids = gids, cl_observation_ids = oids,
                       cl_artifact_ids = aids, cl_index = report\<rparr>))"

definition media_json :: "cleanup \<Rightarrow> json" where
  "media_json c = JObj [(''observation_ids'', strs_json (cl_observation_ids c)), (''artifact_ids'', strs_json (cl_artifact_ids c))]"

definition index_json :: "cleanup \<Rightarrow> json" where
  "index_json c = (case cl_index c of None \<Rightarrow> JNull | Some j \<Rightarrow> j)"

definition purged_fields :: "cleanup \<Rightarrow> (string \<times> json) list" where
  "purged_fields c =
     [(''purged_record_ids'', strs_json (cl_record_ids c)), (''purged_episode_ids'', strs_json (cl_episode_ids c)),
      (''purged_graph_ids'', strs_json (cl_graph_ids c))]"

record rejection =
  rj_record :: memory_record
  rj_audit_event_id :: string
  rj_purged :: bool

definition reject_body ::
  "'g memory_env \<Rightarrow> string \<Rightarrow> string \<Rightarrow> string option \<Rightarrow> turn option \<Rightarrow> string \<Rightarrow> 'g ledger \<Rightarrow> ('g, rejection) memory_result" where
  "reject_body E sub rid session t actor L =
     (case get_record L sub rid of
        None \<Rightarrow> Inl MValueError
      | Some r \<Rightarrow>
          if mr_status r \<noteq> RQuarantined then Inl MValueError
          else bind_res (purge_record_ids E sub [rid] session (turn_id t) L) (\<lambda>(L1, c).
            let (L2, eid) = log_event E sub ''memory.record_rejected''
                   (JObj ([(''content_sha256'', JStr (sha E (mr_content r))), (''prior_status'', JStr ''quarantined'')] @
                      purged_fields c @ [(''media_cleanup'', media_json c), (''semantic_index_cleanup'', index_json c)]))
                   actor session (turn_id t) (Some rid) L1
            in case get_record L2 sub rid of
                 None \<Rightarrow> Inl MAssertionError
               | Some rejected \<Rightarrow>
                   Inr (L2, \<lparr>rj_record = rejected, rj_audit_event_id = eid, rj_purged = (rid \<in> set (cl_record_ids c))\<rparr>)))"

definition reject_memory ::
  "'g memory_env \<Rightarrow> string \<Rightarrow> string \<Rightarrow> string option \<Rightarrow> turn option \<Rightarrow> string \<Rightarrow> 'g ledger \<Rightarrow>
   'g ledger \<times> (memory_error + rejection)" where
  "reject_memory E sub rid session t actor = atomic (reject_body E sub rid session t actor)"

text \<open>A deletion receipt: its fields and the digest over them.\<close>

record forgotten =
  fg_deleted :: bool
  fg_record_ids :: "string list"
  fg_receipt :: "json option"

definition sealed :: "'g memory_env \<Rightarrow> (string \<times> json) list \<Rightarrow> json" where
  "sealed E kvs = JObj (kvs @ [(''receipt_sha256'', JStr (sha_json (me_hashes E) (canonical (JObj kvs))))])"

definition event_fields :: "'g ledger \<Rightarrow> string \<Rightarrow> string \<Rightarrow> (int \<times> string) option" where
  "event_fields L sub eid =
     map_option (\<lambda>e. (ae_created_at e, ae_event_hash e))
       (find (\<lambda>e. ae_subject_id e = sub \<and> ae_event_id e = eid) (al_events (lg_log L)))"

definition forget_record_body ::
  "'g memory_env \<Rightarrow> string \<Rightarrow> string \<Rightarrow> string \<Rightarrow> 'g ledger \<Rightarrow> ('g, forgotten) memory_result" where
  "forget_record_body E sub rid actor L =
     (case get_record L sub rid of
        None \<Rightarrow> Inl MValueError
      | Some r \<Rightarrow>
          if \<not> live r then Inl MValueError
          else bind_res (purge_record_ids E sub [rid] None None L) (\<lambda>(L1, c).
            let (L2, eid) = log_event E sub ''memory.forget''
                   (JObj (purged_fields c @ [(''semantic_index_cleanup'', index_json c), (''exact_record'', JBool True)]))
                   actor None None (Some rid) L1
            in case event_fields L2 sub eid of
                 None \<Rightarrow> Inl MAssertionError
               | Some (at, h) \<Rightarrow>
                   Inr (L2, \<lparr>fg_deleted = True, fg_record_ids = [rid],
                     fg_receipt = Some (sealed E ([(''format'', JStr ''atmem-exact-record-deletion-receipt-v1''),
                       (''subject_id'', JStr sub), (''created_at'', JTime at)] @ purged_fields c @
                       [(''semantic_index_cleanup'', index_json c), (''audit_event_id'', JStr eid),
                        (''audit_event_hash'', JStr h)]))\<rparr>)))"

definition forget_record :: "'g memory_env \<Rightarrow> string \<Rightarrow> string \<Rightarrow> string \<Rightarrow> 'g ledger \<Rightarrow> 'g ledger \<times> (memory_error + forgotten)" where
  "forget_record E sub rid actor = atomic (forget_record_body E sub rid actor)"

datatype forget_selector = SelText string | SelContains "string option" "string option"

definition selector_contains :: "forget_selector option \<Rightarrow> string option" where
  "selector_contains s =
     (case s of
        None \<Rightarrow> None
      | Some (SelText t) \<Rightarrow> Some t
      | Some (SelContains a b) \<Rightarrow> (if truthy a then a else if truthy b then b else None))"

definition forget_targets :: "'g ledger \<Rightarrow> string \<Rightarrow> string \<Rightarrow> memory_record list" where
  "forget_targets L sub needle =
     filter (\<lambda>r. sublist needle (lower_str (mr_content r))) (list_records L sub (Some [RActive, RQuarantined, RSuperseded]))"

text \<open>What is to be forgotten: the selector, else what the utterance names.\<close>

definition heard_of :: "string option \<Rightarrow> string option" where
  "heard_of utterance = (if truthy utterance then utterance else None)"

definition forget_contains :: "forget_selector option \<Rightarrow> string option \<Rightarrow> string option" where
  "forget_contains selector utterance =
     (if truthy (selector_contains selector) then selector_contains selector
      else case heard_of utterance of None \<Rightarrow> selector_contains selector | Some u \<Rightarrow> Some (forget_needle u))"

definition forget_body ::
  "'g memory_env \<Rightarrow> string \<Rightarrow> forget_selector option \<Rightarrow> string option \<Rightarrow> string option \<Rightarrow> turn option \<Rightarrow> string \<Rightarrow>
   'g ledger \<Rightarrow> ('g, forgotten) memory_result" where
  "forget_body E sub selector utterance session t actor L =
     (let contains = forget_contains selector utterance;
          said = (case heard_of utterance of None \<Rightarrow> [] | Some u \<Rightarrow> [(''utterance_sha256'', JStr (sha E u))])
      in if \<not> truthy contains then
           Inr (fst (log_event E sub ''memory.forget_rejected'' (JObj ((''reason'', JStr ''empty selector'') # said))
                  actor session (turn_id t) None L), \<lparr>fg_deleted = False, fg_record_ids = [], fg_receipt = None\<rparr>)
         else
           (let needle = lower_str (py_str contains);
                ids = map mr_id (forget_targets L sub needle)
            in bind_res (purge_record_ids E sub ids session (turn_id t) L) (\<lambda>(L1, c).
                 let media = (if cl_observation_ids c = [] then [] else [(''media_cleanup'', media_json c)]);
                     index = (case cl_index c of None \<Rightarrow> [] | Some j \<Rightarrow> [(''semantic_index_cleanup'', j)]);
                     (L2, eid) = log_event E sub ''memory.forget''
                        (JObj ([(''selector_sha256'', JStr (sha E needle))] @ purged_fields c @
                           [(''purged_count'', JNum (int (length (cl_record_ids c))))] @ media @ index @ said))
                        actor session (turn_id t) None L1
                 in case event_fields L2 sub eid of
                      None \<Rightarrow> Inl MAssertionError
                    | Some (at, h) \<Rightarrow>
                        Inr (L2, \<lparr>fg_deleted = (cl_record_ids c \<noteq> []), fg_record_ids = cl_record_ids c,
                          fg_receipt = Some (sealed E ([(''format'', JStr (if cl_index c \<noteq> None then ''atmem-deletion-receipt-v2''
                              else ''atmem-deletion-receipt-v1'')), (''subject_id'', JStr sub), (''created_at'', JTime at),
                            (''selector_sha256'', JStr (sha E needle))] @ purged_fields c @
                            [(''audit_event_id'', JStr eid), (''audit_event_hash'', JStr h)] @ index @ media))\<rparr>))))"

definition forget_memory ::
  "'g memory_env \<Rightarrow> string \<Rightarrow> forget_selector option \<Rightarrow> string option \<Rightarrow> string option \<Rightarrow> turn option \<Rightarrow> string \<Rightarrow>
   'g ledger \<Rightarrow> 'g ledger \<times> (memory_error + forgotten)" where
  "forget_memory E sub selector utterance session t actor = atomic (forget_body E sub selector utterance session t actor)"

section \<open>Exclusion\<close>

definition set_retrieval_excluded_body ::
  "'g memory_env \<Rightarrow> string \<Rightarrow> string \<Rightarrow> bool \<Rightarrow> string \<Rightarrow> string \<Rightarrow> 'g ledger \<Rightarrow> ('g, unit) memory_result" where
  "set_retrieval_excluded_body E sub rid excluded reason actor L =
     (case get_record L sub rid of
        None \<Rightarrow> Inl MValueError
      | Some r \<Rightarrow>
          if mr_status r \<noteq> RActive then Inl MValueError
          else
            (let L1 = set_retrieval_excluded_row E sub rid excluded actor reason L in
             bind_res (case jget (mr_raw r) ''typed_unit'' of
                 Some (JObj kvs) \<Rightarrow>
                   (case me_identity E (JObj kvs) of
                      None \<Rightarrow> Inl MValueError
                    | Some (w, i) \<Rightarrow> Inr (set_typed_exclusion_identity E sub w rid i excluded L1))
               | _ \<Rightarrow> Inr L1) (\<lambda>L2.
               Inr (fst (log_event E sub (if excluded then ''memory.retrieval_excluded'' else ''memory.retrieval_restored'')
                      (JObj (if reason = [] then [] else [(''reason'', JStr (take 500 reason))])) actor None None (Some rid) L2), ()))))"

definition set_retrieval_excluded ::
  "'g memory_env \<Rightarrow> string \<Rightarrow> string \<Rightarrow> bool \<Rightarrow> string \<Rightarrow> string \<Rightarrow> 'g ledger \<Rightarrow> 'g ledger \<times> (memory_error + unit)" where
  "set_retrieval_excluded E sub rid excluded reason actor = atomic (set_retrieval_excluded_body E sub rid excluded reason actor)"

section \<open>Correction\<close>

definition correction_args :: "memory_record \<Rightarrow> string \<Rightarrow> string \<Rightarrow> remember_args" where
  "correction_args old corrected actor =
     \<lparr>rm_message = Some corrected, rm_fact = None, rm_force = False, rm_session_id = None, rm_turn_id = None,
      rm_source_type = Some ''user_message'', rm_actor = actor,
      rm_raw = Some (JObj [(''interpreter'', JStr ''human-correction''), (''interpretation_assurance'', JStr ''verified_by_user''),
        (''source_binding'', JStr ''dashboard-exact-record-correction'')]),
      rm_interpreted_fact = Some corrected,
      rm_interpreted_fact_key = (if truthy (mr_fact_key old) then mr_fact_key old else Some (''correction-'' @ mr_id old))\<rparr>"

definition correct_record_body ::
  "'g memory_env \<Rightarrow> string \<Rightarrow> string \<Rightarrow> string \<Rightarrow> string \<Rightarrow> string \<Rightarrow> 'g ledger \<Rightarrow> ('g, memory_record option) memory_result" where
  "correct_record_body E sub rid corrected_text reason actor L =
     (case get_record L sub rid of
        None \<Rightarrow> Inl MValueError
      | Some old \<Rightarrow>
          if mr_status old \<noteq> RActive then Inl MValueError
          else
            (let corrected = py_strip corrected_text in
             if corrected = [] \<or> corrected = py_strip (mr_content old) then Inl MValueError
             else bind_res (remember_body E sub (correction_args old corrected actor) L) (\<lambda>(L1, result).
               case re_records result of
                 [] \<Rightarrow> Inl MValueError
               | replacement # _ \<Rightarrow>
                   (let nid = mr_id replacement;
                        L2 = supersede_records E sub [rid] nid L1;
                        (L3, ms) = graph_supersede E sub [rid] nid L2;
                        L4 = audit_graph_mutations E sub None None None ms L3;
                        L5 = fst (log_event E sub ''memory.record_corrected''
                               (JObj [(''replaces_record_id'', JStr rid), (''reason'', JStr (take 500 reason))])
                               actor None None (Some nid) L4)
                    in Inr (L5, get_record L5 sub nid)))))"

definition correct_record ::
  "'g memory_env \<Rightarrow> string \<Rightarrow> string \<Rightarrow> string \<Rightarrow> string \<Rightarrow> string \<Rightarrow> 'g ledger \<Rightarrow>
   'g ledger \<times> (memory_error + memory_record option)" where
  "correct_record E sub rid corrected_text reason actor = atomic (correct_record_body E sub rid corrected_text reason actor)"

section \<open>Proposals\<close>

record fact_proposal =
  fp_content :: "string option"
  fp_evidence :: "string list"
  fp_fact_key :: "string option"
  fp_confidence :: int

definition find_duplicate :: "string \<Rightarrow> memory_record list \<Rightarrow> memory_record option" where
  "find_duplicate content records =
     (let n = normalize_content content in
      if n = [] then None else find (\<lambda>r. normalize_content (mr_content r) = n) records)"

definition records_to_supersede :: "string option \<Rightarrow> memory_record list \<Rightarrow> memory_record list" where
  "records_to_supersede fact_key records =
     (if \<not> truthy fact_key then [] else filter (\<lambda>r. mr_fact_key r = fact_key) records)"

text \<open>A rejected proposal carries the reason and the evidence that is unknown.\<close>

record proposed =
  pp_quarantined :: "memory_record list"
  pp_duplicate_ids :: "string list"
  pp_rejected :: "(fact_proposal \<times> string \<times> string list) list"

definition propose_one ::
  "'g memory_env \<Rightarrow> string \<Rightarrow> string list \<Rightarrow> string \<Rightarrow> string option \<Rightarrow> fact_proposal \<Rightarrow>
   'g ledger \<times> memory_record list \<times> proposed \<Rightarrow> ('g, memory_record list \<times> proposed) memory_result" where
  "propose_one E sub known proposer session p S =
     (case S of (L, visible, out) \<Rightarrow>
        (let content = py_strip (case fp_content p of None \<Rightarrow> [] | Some s \<Rightarrow> s) in
         if content = [] then Inr (L, visible, out\<lparr>pp_rejected := pp_rejected out @ [(p, ''empty content'', [])]\<rparr>)
         else if fp_evidence p = [] \<or> \<not> set (fp_evidence p) \<subseteq> set known
         then Inr (L, visible, out\<lparr>pp_rejected := pp_rejected out @ 
                [(p, ''missing or unknown evidence'', filter (\<lambda>e. e \<notin> set known) (fp_evidence p))]\<rparr>)
         else
           (case find_duplicate content visible of
              Some d \<Rightarrow> Inr (L, visible, out\<lparr>pp_duplicate_ids := pp_duplicate_ids out @ [mr_id d]\<rparr>)
            | None \<Rightarrow>
                (let key = (if truthy (fp_fact_key p) then map_option (py_strip \<circ> lower_str) (fp_fact_key p) else None) in
                 bind_res (insert_record E sub
                   \<lparr>ra_content = content, ra_source_type = ''derived'', ra_trust_tier = ''derived'', ra_session_id = session,
                    ra_turn_id = None, ra_episode_id = None, ra_confidence = Some (fp_confidence p), ra_scope = ''user_private'',
                    ra_status = RQuarantined, ra_supersedes_id = None, ra_fact_key = key,
                    ra_raw = JObj [(''evidence'', strs_json (fp_evidence p)), (''proposer'', JStr proposer)]\<rparr> L) (\<lambda>(L1, rid).
                   case get_record L1 sub rid of
                     None \<Rightarrow> Inl MAssertionError
                   | Some r \<Rightarrow>
                       (let L2 = fst (log_event E sub ''memory.record_quarantined''
                              (JObj [(''source_type'', JStr ''derived''), (''trust_tier'', JStr ''derived''),
                                 (''status'', JStr ''quarantined''), (''fact_key'', opt_str_json key),
                                 (''confidence'', JNum (fp_confidence p)), (''scope'', JStr ''user_private''),
                                 (''evidence'', strs_json (fp_evidence p)), (''content_sha256'', JStr (sha E content)),
                                 (''record_integrity_sha256'', JStr (record_integrity_sha256 E r))])
                              proposer session None (Some rid) L1);
                            (L3, ms) = graph_index E r L2
                        in Inr (audit_graph_mutations E sub session None (Some rid) ms L3, visible @ [r],
                             out\<lparr>pp_quarantined := pp_quarantined out @ [r]\<rparr>)))))))"

fun propose_all ::
  "'g memory_env \<Rightarrow> string \<Rightarrow> string list \<Rightarrow> string \<Rightarrow> string option \<Rightarrow> fact_proposal list \<Rightarrow>
   'g ledger \<times> memory_record list \<times> proposed \<Rightarrow> ('g, memory_record list \<times> proposed) memory_result" where
  "propose_all E sub known proposer session [] S = Inr S"
| "propose_all E sub known proposer session (p # ps) S =
     bind_res (propose_one E sub known proposer session p S) (propose_all E sub known proposer session ps)"

definition propose_facts_body ::
  "'g memory_env \<Rightarrow> string \<Rightarrow> fact_proposal list \<Rightarrow> string \<Rightarrow> string option \<Rightarrow> 'g ledger \<Rightarrow> ('g, proposed) memory_result" where
  "propose_facts_body E sub ps proposer session L =
     (let known = map er_id (list_episodes L sub) @ map mr_id (list_records L sub None);
          visible = list_records L sub (Some [RActive, RQuarantined])
      in bind_res (propose_all E sub known proposer session ps
           (L, visible, \<lparr>pp_quarantined = [], pp_duplicate_ids = [], pp_rejected = []\<rparr>)) (\<lambda>(L1, _, out). Inr (L1, out)))"

definition propose_facts ::
  "'g memory_env \<Rightarrow> string \<Rightarrow> fact_proposal list \<Rightarrow> string \<Rightarrow> string option \<Rightarrow> 'g ledger \<Rightarrow> 'g ledger \<times> (memory_error + proposed)" where
  "propose_facts E sub ps proposer session = atomic (propose_facts_body E sub ps proposer session)"

section \<open>Consolidation\<close>

text \<open>Collapsing one group onto its newest member; the state gathers the superseded records and the mutations.\<close>

definition collapse ::
  "'g memory_env \<Rightarrow> string \<Rightarrow> memory_record list \<Rightarrow> 'g ledger \<times> string list \<times> json list \<Rightarrow> 'g ledger \<times> string list \<times> json list" where
  "collapse E sub members S =
     (case S of (L, ids, ms) \<Rightarrow>
        (let ordered = sort_key row_order members; keeper = last ordered; older = map mr_id (butlast ordered) in
         if older = [] then S
         else
           (let L1 = supersede_records E sub older (mr_id keeper) L;
                (L2, more) = graph_supersede E sub older (mr_id keeper) L1
            in (L2, ids @ older, ms @ more))))"

definition groups_by :: "(memory_record \<Rightarrow> string) \<Rightarrow> memory_record list \<Rightarrow> memory_record list list" where
  "groups_by key rs = map (\<lambda>k. filter (\<lambda>r. key r = k) rs) (dedup (map key rs))"

definition newest :: "memory_record list \<Rightarrow> memory_record" where
  "newest members = last (sort_key row_order members)"

definition key_text :: "memory_record \<Rightarrow> string" where
  "key_text r = (case mr_fact_key r of None \<Rightarrow> [] | Some k \<Rightarrow> k)"

record consolidation =
  co_duplicates_superseded :: "string list"
  co_fact_key_repaired :: "string list"
  co_active_before :: nat
  co_active_after :: nat

definition consolidate_body ::
  "'g memory_env \<Rightarrow> string \<Rightarrow> string option \<Rightarrow> 'g ledger \<Rightarrow> ('g, consolidation) memory_result" where
  "consolidate_body E sub session L =
     (let active = list_records L sub (Some [RActive]);
          contents = groups_by (\<lambda>r. normalize_content (mr_content r)) active;
          (L1, dups, ms1) = fold (collapse E sub) contents (L, [], []);
          survivors = map newest contents;
          slots = groups_by key_text (filter (\<lambda>r. truthy (mr_fact_key r)) survivors);
          (L2, repaired, ms2) = fold (collapse E sub) slots (L1, [], ms1);
          report = \<lparr>co_duplicates_superseded = dups, co_fact_key_repaired = repaired, co_active_before = length active,
                    co_active_after = length (list_records L2 sub (Some [RActive]))\<rparr>;
          L3 = fst (log_event E sub ''memory.consolidated''
                 (JObj [(''duplicates_superseded'', strs_json dups), (''fact_key_repaired'', strs_json repaired),
                        (''active_before'', JNum (int (co_active_before report))),
                        (''active_after'', JNum (int (co_active_after report)))]) ''system'' session None None L2)
      in Inr (audit_graph_mutations E sub session None None ms2 L3, report))"

definition consolidate ::
  "'g memory_env \<Rightarrow> string \<Rightarrow> string option \<Rightarrow> 'g ledger \<Rightarrow> 'g ledger \<times> (memory_error + consolidation)" where
  "consolidate E sub session = atomic (consolidate_body E sub session)"

section \<open>Actions of the agent\<close>

text \<open>An action type with a dot is the event type as it stands.\<close>

definition log_action ::
  "'g memory_env \<Rightarrow> string \<Rightarrow> string \<Rightarrow> json \<Rightarrow> string option \<Rightarrow> turn option \<Rightarrow> string \<Rightarrow> 'g ledger \<Rightarrow> 'g ledger \<times> string" where
  "log_action E sub action_type payload session t actor L =
     log_event E sub (if CHR ''.'' \<in> set action_type then action_type else ''agent.'' @ action_type) payload actor session
       (turn_id t) None L"

datatype captured = Remembered remembered | Logged string

definition heard :: "string \<Rightarrow> string option \<Rightarrow> turn option \<Rightarrow> remember_args" where
  "heard content session t =
     \<lparr>rm_message = Some content, rm_fact = None, rm_force = False, rm_session_id = session, rm_turn_id = t,
      rm_source_type = None, rm_actor = ''user'', rm_raw = None, rm_interpreted_fact = None, rm_interpreted_fact_key = None\<rparr>"

text \<open>Only the turns of the user are remembered; those of the agent and its tools leave a digest.\<close>

definition capture_body ::
  "'g memory_env \<Rightarrow> string \<Rightarrow> string \<Rightarrow> string \<Rightarrow> string option \<Rightarrow> turn option \<Rightarrow> string option \<Rightarrow> 'g ledger \<Rightarrow>
   ('g, captured) memory_result" where
  "capture_body E sub role content session t tool L =
     (let logged = (\<lambda>event_type payload.
            let (L1, eid) = log_action E sub event_type (JObj payload) session t ''agent'' L in Inr (L1, Logged eid));
          digest = JStr (sha E content); chars = (''chars'', JNum (int (length content)))
      in if role = ''user'' then
           bind_res (remember_body E sub (heard content session t) L) (\<lambda>(L1, r). Inr (L1, Remembered r))
         else if role = ''assistant'' then logged ''agent.response_shown'' [(''response_sha256'', digest), chars]
         else if role = ''tool_call'' then logged ''agent.tool_call'' [(''tool'', opt_str_json tool), (''args_sha256'', digest)]
         else if role = ''tool_result'' then
           logged ''agent.tool_result'' [(''tool'', opt_str_json tool), (''result_sha256'', digest), chars]
         else Inl MValueError)"

definition capture ::
  "'g memory_env \<Rightarrow> string \<Rightarrow> string \<Rightarrow> string \<Rightarrow> string option \<Rightarrow> turn option \<Rightarrow> string option \<Rightarrow> 'g ledger \<Rightarrow>
   'g ledger \<times> (memory_error + captured)" where
  "capture E sub role content session t tool = atomic (capture_body E sub role content session t tool)"

end
