(* ===== verification/Memory_Invariant.thy ===== *)
theory Memory_Invariant
  imports Memory_Operations
begin

text \<open>
  What every operation of the memory ledger keeps: identifiers are unique, an active record carries a trusted tier, a
  tombstone is empty, and the full-text and fact-key indexes hold the entries of exactly the active records.  First
  the effect of each store method on the rows of records, then the invariant.
\<close>

section \<open>The part of the ledger that the invariant reads\<close>

definition core :: "'g ledger \<Rightarrow> memory_record list \<times> fts_row list \<times> term_row list" where
  "core L = (lg_records L, lg_fts L, lg_terms L)"

lemma core_simps:
  "core L = (rs, fs, ts) \<longleftrightarrow> lg_records L = rs \<and> lg_fts L = fs \<and> lg_terms L = ts"
  by (auto simp: core_def)

lemma core_frame [simp]:
  "core (tick L) = core L" "core (on_typed f L) = core L" "core (update_units P h L) = core L"
  "core (fst (log_event E sub ty pl ac se tu re L)) = core L"
  "core (set_retrieval_excluded_row E sub rid x ac reason L) = core L"
  "core (set_typed_exclusion_identity E sub w rid i x L) = core L"
  "core (fst (graph_supersede E sub ids by L)) = core L" "core (fst (graph_index E r L)) = core L"
  "core (L\<lparr>lg_graph := g\<rparr>) = core L"
  by (simp_all add: core_def tick_def on_typed_def update_units_def log_event_def Let_def set_retrieval_excluded_row_def
      set_typed_exclusion_identity_def graph_supersede_def graph_index_def split_beta)

lemma core_mutations [simp]: "core (audit_graph_mutations E sub se tu re ms L) = core L"
  unfolding audit_graph_mutations_def by (induction ms arbitrary: L) simp_all

lemma core_same_memory: "same_memory L L' \<Longrightarrow> core L' = core L"
  by (simp add: same_memory_def core_def)

lemma core_episode: "insert_episode E sub se tu m src raw L = Inr (L', eid) \<Longrightarrow> core L' = core L"
  by (auto simp: insert_episode_def Let_def core_def tick_def split: if_splits)

lemma records_core: "core L' = core L \<Longrightarrow> lg_records L' = lg_records L"
  by (simp add: core_def)

section \<open>Rows that a method rewrites\<close>

definition rewrite :: "string \<Rightarrow> string set \<Rightarrow> (memory_record \<Rightarrow> bool) \<Rightarrow> (memory_record \<Rightarrow> memory_record) \<Rightarrow>
  memory_record list \<Rightarrow> memory_record list" where
  "rewrite sub ids p g rs = map (\<lambda>r. if mr_subject_id r = sub \<and> mr_id r \<in> ids \<and> p r then g r else r) rs"

definition keeps_key :: "(memory_record \<Rightarrow> memory_record) \<Rightarrow> bool" where
  "keeps_key g \<longleftrightarrow> (\<forall>r. mr_id (g r) = mr_id r \<and> mr_subject_id (g r) = mr_subject_id r)"

lemma rewrite_ids [simp]: "keeps_key g \<Longrightarrow> map mr_id (rewrite sub ids p g rs) = map mr_id rs"
  by (simp add: rewrite_def keeps_key_def)

lemma rewrite_empty [simp]: "rewrite sub {} p g rs = rs"
  by (simp add: rewrite_def)

lemma rewrite_none: "(\<And>r. r \<in> set rs \<Longrightarrow> mr_subject_id r = sub \<Longrightarrow> mr_id r \<in> ids \<Longrightarrow> \<not> p r) \<Longrightarrow> rewrite sub ids p g rs = rs"
  unfolding rewrite_def by (rule map_idI) auto

lemma rewrite_twice:
  assumes "keeps_key g" and "\<And>r. \<not> p (g r)"
  shows "rewrite sub ids p g (rewrite sub ids' p g rs) = rewrite sub (ids \<union> ids') p g rs"
  using assms by (auto simp: rewrite_def keeps_key_def)

definition superseded_row :: "int \<Rightarrow> string \<Rightarrow> memory_record \<Rightarrow> memory_record" where
  "superseded_row now by_id r =
     r\<lparr>mr_status := RSuperseded, mr_updated_at := Some now,
       mr_raw := set_unit_lifecycle ''superseded'' (jset ''superseded_by_id'' (JStr by_id) (mr_raw r)),
       mr_generation := mr_generation r + 1\<rparr>"

definition emptied_row :: "int \<Rightarrow> memory_record \<Rightarrow> memory_record" where
  "emptied_row now r = (tombstone_row now r)\<lparr>mr_generation := mr_generation r + 1\<rparr>"

definition promoted_row :: "int \<Rightarrow> string \<Rightarrow> memory_record \<Rightarrow> memory_record" where
  "promoted_row now tier r =
     r\<lparr>mr_status := RActive, mr_trust_tier := tier, mr_updated_at := Some now,
       mr_raw := set_unit_lifecycle ''active'' (mr_raw r), mr_generation := mr_generation r + 1\<rparr>"

lemma new_rows [simp]:
  "keeps_key (superseded_row now b)" "keeps_key (emptied_row now)" "keeps_key (promoted_row now tier)"
  "mr_status (superseded_row now b r) = RSuperseded" "mr_status (emptied_row now r) = RTombstoned"
  "mr_status (promoted_row now tier r) = RActive" "mr_trust_tier (promoted_row now tier r) = tier"
  "mr_id (superseded_row now b r) = mr_id r" "mr_id (emptied_row now r) = mr_id r" "mr_id (promoted_row now tier r) = mr_id r"
  "mr_subject_id (superseded_row now b r) = mr_subject_id r" "mr_subject_id (emptied_row now r) = mr_subject_id r"
  "mr_subject_id (promoted_row now tier r) = mr_subject_id r"
  by (simp_all add: keeps_key_def superseded_row_def emptied_row_def promoted_row_def tombstone_row_def)

text \<open>With unique identifiers the row that \<open>find\<close> returns is the only row that an update reaches.\<close>

lemma find_SomeD: "find P xs = Some x \<Longrightarrow> x \<in> set xs \<and> P x"
  by (induction xs) (auto split: if_splits)

lemma find_NoneD: "find P xs = None \<Longrightarrow> x \<in> set xs \<Longrightarrow> \<not> P x"
  by (auto simp: find_None_iff)

lemma same_id: "distinct (map mr_id rs) \<Longrightarrow> r \<in> set rs \<Longrightarrow> r' \<in> set rs \<Longrightarrow> mr_id r' = mr_id r \<Longrightarrow> r' = r"
  by (meson distinct_map inj_onD)

lemma supersede_one_rows:
  assumes "distinct (map mr_id (lg_records L))"
  shows "lg_records (supersede_one sub now b rid L) =
           rewrite sub {rid} (\<lambda>r. mr_status r = RActive) (superseded_row now b) (lg_records L)"
proof (cases "find (\<lambda>r. row_of sub rid r \<and> mr_status r = RActive) (lg_records L)")
  case None
  then show ?thesis
    by (subst rewrite_none) (auto simp: supersede_one_def row_of_def dest: find_NoneD)
next
  case (Some r)
  note r = find_SomeD [OF Some]
  have "r' = r" if "r' \<in> set (lg_records L)" "row_of sub rid r'" for r'
    using same_id [OF assms] r that by (auto simp: row_of_def)
  then show ?thesis using Some
    by (auto simp: supersede_one_def update_records_def update_units_def delete_fts_def delete_search_terms_def
        rewrite_def superseded_row_def row_of_def Let_def)
qed

lemma supersede_one_indexes:
  "lg_fts (supersede_one sub now b rid L) =
     (if \<exists>r\<in>set (lg_records L). row_of sub rid r \<and> mr_status r = RActive
      then filter (\<lambda>x. fr_record_id x \<noteq> rid) (lg_fts L) else lg_fts L)"
  "lg_terms (supersede_one sub now b rid L) =
     (if \<exists>r\<in>set (lg_records L). row_of sub rid r \<and> mr_status r = RActive
      then filter (\<lambda>x. tm_record_id x \<noteq> rid) (lg_terms L) else lg_terms L)"
  by (auto simp: supersede_one_def update_records_def update_units_def delete_fts_def delete_search_terms_def Let_def
      find_None_iff dest!: find_SomeD split: option.splits)

lemma redact_own_core [simp]: "core (redact_own_proposal raw L) = core L"
  by (simp add: redact_own_proposal_def split: option.splits)

lemma tombstone_one_rows:
  assumes "distinct (map mr_id (lg_records L))"
  shows "lg_records (fst (tombstone_one sub now rid (L, p))) = rewrite sub {rid} live (emptied_row now) (lg_records L)"
    and "pu_changed (snd (tombstone_one sub now rid (L, p))) =
           pu_changed p @ (if \<exists>r\<in>set (lg_records L). row_of sub rid r \<and> live r then [rid] else [])"
    and "lg_fts (fst (tombstone_one sub now rid (L, p))) =
     (if \<exists>r\<in>set (lg_records L). row_of sub rid r \<and> live r then filter (\<lambda>x. fr_record_id x \<noteq> rid) (lg_fts L) else lg_fts L)"
    and "lg_terms (fst (tombstone_one sub now rid (L, p))) =
     (if \<exists>r\<in>set (lg_records L). row_of sub rid r \<and> live r then filter (\<lambda>x. tm_record_id x \<noteq> rid) (lg_terms L) else lg_terms L)"
proof -
  have goal: "lg_records (fst (tombstone_one sub now rid (L, p))) = rewrite sub {rid} live (emptied_row now) (lg_records L) \<and>
     pu_changed (snd (tombstone_one sub now rid (L, p))) =
           pu_changed p @ (if \<exists>r\<in>set (lg_records L). row_of sub rid r \<and> live r then [rid] else []) \<and>
     lg_fts (fst (tombstone_one sub now rid (L, p))) =
     (if \<exists>r\<in>set (lg_records L). row_of sub rid r \<and> live r then filter (\<lambda>x. fr_record_id x \<noteq> rid) (lg_fts L) else lg_fts L) \<and>
     lg_terms (fst (tombstone_one sub now rid (L, p))) =
     (if \<exists>r\<in>set (lg_records L). row_of sub rid r \<and> live r then filter (\<lambda>x. tm_record_id x \<noteq> rid) (lg_terms L) else lg_terms L)"
  proof (cases "find (\<lambda>r. row_of sub rid r \<and> live r) (lg_records L)")
    case None
    then have no: "\<not> (\<exists>r\<in>set (lg_records L). row_of sub rid r \<and> live r)" by (auto dest: find_NoneD)
    then show ?thesis using None
      by (subst rewrite_none) (auto simp: tombstone_one_def row_of_def)
  next
    case (Some r)
    note r = find_SomeD [OF Some]
    have only: "r' = r" if "r' \<in> set (lg_records L)" "row_of sub rid r'" for r'
      using same_id [OF assms] r that by (auto simp: row_of_def)
    let ?M = "delete_search_terms rid (delete_fts rid (update_records (row_of sub rid) (tombstone_row now) L))"
    have "core (fst (tombstone_one sub now rid (L, p))) = core ?M \<and>
       pu_changed (snd (tombstone_one sub now rid (L, p))) = pu_changed p @ [rid]"
      using Some by (simp add: tombstone_one_def Let_def)
    moreover have "lg_records ?M = rewrite sub {rid} live (emptied_row now) (lg_records L)"
      using r only
      by (auto simp: update_records_def delete_fts_def delete_search_terms_def rewrite_def emptied_row_def row_of_def)
    moreover have "lg_fts ?M = filter (\<lambda>x. fr_record_id x \<noteq> rid) (lg_fts L)"
      "lg_terms ?M = filter (\<lambda>x. tm_record_id x \<noteq> rid) (lg_terms L)"
      by (simp_all add: update_records_def delete_fts_def delete_search_terms_def)
    ultimately show ?thesis using r by (auto simp: core_def)
  qed
  then show "lg_records (fst (tombstone_one sub now rid (L, p))) = rewrite sub {rid} live (emptied_row now) (lg_records L)"
    "pu_changed (snd (tombstone_one sub now rid (L, p))) =
           pu_changed p @ (if \<exists>r\<in>set (lg_records L). row_of sub rid r \<and> live r then [rid] else [])"
    "lg_fts (fst (tombstone_one sub now rid (L, p))) =
     (if \<exists>r\<in>set (lg_records L). row_of sub rid r \<and> live r then filter (\<lambda>x. fr_record_id x \<noteq> rid) (lg_fts L) else lg_fts L)"
    "lg_terms (fst (tombstone_one sub now rid (L, p))) =
     (if \<exists>r\<in>set (lg_records L). row_of sub rid r \<and> live r then filter (\<lambda>x. tm_record_id x \<noteq> rid) (lg_terms L) else lg_terms L)"
    by blast+
qed

section \<open>The index entries of a record\<close>

definition fts_entry :: "memory_record \<Rightarrow> fts_row" where
  "fts_entry r = \<lparr>fr_record_id = mr_id r, fr_subject_id = mr_subject_id r, fr_content = mr_content r\<rparr>"

definition term_entries :: "memory_record \<Rightarrow> term_row list" where
  "term_entries r =
     (let terms = search_terms (case mr_fact_key r of None \<Rightarrow> [] | Some k \<Rightarrow> k) in
      map (\<lambda>t. \<lparr>tm_record_id = mr_id r, tm_subject_id = mr_subject_id r, tm_workspace_id = authority_workspace (mr_raw r),
                tm_field = ''fact_key'', tm_term = t, tm_frequency = count_list terms t\<rparr>) (dedup terms))"

lemma entry_ids [simp]: "fr_record_id (fts_entry r) = mr_id r" "t \<in> set (term_entries r) \<Longrightarrow> tm_record_id t = mr_id r"
  by (auto simp: fts_entry_def term_entries_def Let_def)

definition actives :: "memory_record list \<Rightarrow> memory_record list" where
  "actives rs = filter (\<lambda>r. mr_status r = RActive) rs"

lemma in_actives [simp]: "r \<in> set (actives rs) \<longleftrightarrow> r \<in> set rs \<and> mr_status r = RActive"
  by (auto simp: actives_def)

text \<open>A tombstone has lost its content, its slot and its annotations.\<close>

definition scrubbed :: "memory_record \<Rightarrow> bool" where
  "scrubbed r \<longleftrightarrow> mr_content r = [] \<and> mr_content_normalized r = None \<and> mr_fact_key r = None \<and>
     mr_raw r = JObj [(''purged'', JBool True)]"

definition rows_ok :: "memory_record list \<Rightarrow> bool" where
  "rows_ok rs \<longleftrightarrow> distinct (map mr_id rs) \<and> (\<forall>r\<in>set rs. mr_id r \<noteq> [] \<and>
     (mr_status r = RActive \<longrightarrow> mr_trust_tier r \<in> {TRUST_TIER_USER, TRUST_TIER_CONFIRMED}) \<and>
     (mr_status r = RTombstoned \<longrightarrow> scrubbed r))"

definition index_ok :: "memory_record list \<times> fts_row list \<times> term_row list \<Rightarrow> bool" where
  "index_ok c \<longleftrightarrow> (case c of (rs, fs, ts) \<Rightarrow>
     set fs = fts_entry ` set (actives rs) \<and> set ts = (\<Union>r\<in>set (actives rs). set (term_entries r)))"

definition tables_ok :: "'g ledger \<Rightarrow> bool" where
  "tables_ok L \<longleftrightarrow> rows_ok (lg_records L) \<and> index_ok (core L)"

lemma tables_ok_core: "core L' = core L \<Longrightarrow> tables_ok L' = tables_ok L"
  by (simp add: tables_ok_def core_def)

text \<open>Retiring one record: its row stops being active and its entries go.\<close>

lemma retire_tables:
  assumes ok: "rows_ok rs" "index_ok (rs, fs, ts)"
    and rs': "rs' = rewrite sub {rid} p g rs" and g: "keeps_key g" "\<And>r. mr_status (g r) \<noteq> RActive"
      "\<And>r. mr_status (g r) = RTombstoned \<Longrightarrow> scrubbed (g r)" and p: "\<And>r. mr_status r = RActive \<Longrightarrow> p r"
    and r: "r \<in> set rs" "row_of sub rid r" "p r"
  shows "rows_ok rs' \<and> index_ok (rs', filter (\<lambda>x. fr_record_id x \<noteq> rid) fs, filter (\<lambda>x. tm_record_id x \<noteq> rid) ts)"
proof -
  have ids: "map mr_id rs' = map mr_id rs" by (simp add: rs' g)
  have only: "r' = r" if "r' \<in> set rs" "mr_id r' = rid" for r'
    using same_id [of rs r r'] ok(1) r that by (auto simp: rows_ok_def row_of_def)
  have act: "set (actives rs') = {x \<in> set (actives rs). mr_id x \<noteq> rid}"
  proof (intro set_eqI iffI)
    fix x assume "x \<in> set (actives rs')"
    then have x: "x \<in> set rs'" "mr_status x = RActive" by auto
    then obtain y where y: "y \<in> set rs" and xy: "x = (if mr_subject_id y = sub \<and> mr_id y \<in> {rid} \<and> p y then g y else y)"
      unfolding rs' rewrite_def by auto
    have "x = y" using xy x(2) g(2) by (auto split: if_splits)
    moreover have "mr_id y \<noteq> rid" using only [OF y] r xy x(2) g(2) p by (auto simp: row_of_def split: if_splits)
    ultimately show "x \<in> {x \<in> set (actives rs). mr_id x \<noteq> rid}" using y x by auto
  next
    fix x assume "x \<in> {x \<in> set (actives rs). mr_id x \<noteq> rid}"
    then show "x \<in> set (actives rs')" unfolding rs' rewrite_def by (auto intro!: image_eqI [of _ _ x])
  qed
  have "rows_ok rs'"
    unfolding rows_ok_def ids using ok(1) g unfolding rows_ok_def rs' rewrite_def keeps_key_def by (auto split: if_splits)
  moreover have "index_ok (rs', filter (\<lambda>x. fr_record_id x \<noteq> rid) fs, filter (\<lambda>x. tm_record_id x \<noteq> rid) ts)"
    using ok(2) unfolding index_ok_def by (auto simp: act)
  ultimately show ?thesis ..
qed

lemma supersede_one_ok: "tables_ok L \<Longrightarrow> tables_ok (supersede_one sub now b rid L)"
proof (cases "\<exists>r\<in>set (lg_records L). row_of sub rid r \<and> mr_status r = RActive")
  case True
  assume ok: "tables_ok L"
  then have d: "distinct (map mr_id (lg_records L))" by (simp add: tables_ok_def rows_ok_def)
  from True obtain r where r: "r \<in> set (lg_records L)" "row_of sub rid r" "mr_status r = RActive" by blast
  have "rows_ok (lg_records L)" "index_ok (lg_records L, lg_fts L, lg_terms L)"
    using ok by (simp_all add: tables_ok_def core_def)
  from retire_tables [OF this supersede_one_rows [OF d, of sub now b rid] _ _ _ _ r]
  show ?thesis unfolding tables_ok_def core_def supersede_one_indexes if_P [OF True] by simp
next
  case False
  assume ok: "tables_ok L"
  then have d: "distinct (map mr_id (lg_records L))" by (simp add: tables_ok_def rows_ok_def)
  have "lg_records (supersede_one sub now b rid L) = lg_records L"
    using False by (subst supersede_one_rows [OF d]) (auto intro!: rewrite_none simp: row_of_def)
  then show ?thesis using ok unfolding tables_ok_def core_def supersede_one_indexes if_not_P [OF False] by simp
qed

lemma tables_distinct: "tables_ok L \<Longrightarrow> distinct (map mr_id (lg_records L))"
  by (simp add: tables_ok_def rows_ok_def)

lemma supersede_fold:
  "tables_ok L \<Longrightarrow> tables_ok (fold (supersede_one sub now b) ids L) \<and>
     lg_records (fold (supersede_one sub now b) ids L) =
       rewrite sub (set ids) (\<lambda>r. mr_status r = RActive) (superseded_row now b) (lg_records L)"
proof (induction ids arbitrary: L)
  case (Cons i ids)
  show ?case using Cons.IH [OF supersede_one_ok [OF Cons.prems, of sub now b i]]
    by (simp add: supersede_one_rows [OF tables_distinct [OF Cons.prems]] rewrite_twice Un_commute)
qed simp

lemma supersede_records_rows:
  assumes "tables_ok L"
  shows "tables_ok (supersede_records E sub ids b L)"
    and "lg_records (supersede_records E sub ids b L) =
       rewrite sub (set ids) (\<lambda>r. mr_status r = RActive) (superseded_row (utc_now E L) b) (lg_records L)"
  using supersede_fold [of "tick L" sub "utc_now E L" b ids] assms
  by (simp_all add: supersede_records_def tables_ok_core [OF core_frame(1)] records_core [OF core_frame(1)])

lemma tombstone_one_ok: "tables_ok L \<Longrightarrow> tables_ok (fst (tombstone_one sub now rid (L, p)))"
proof (cases "\<exists>r\<in>set (lg_records L). row_of sub rid r \<and> live r")
  case True
  assume ok: "tables_ok L"
  note d = tables_distinct [OF ok]
  from True obtain r where r: "r \<in> set (lg_records L)" "row_of sub rid r" "live r" by blast
  have "scrubbed (emptied_row now r)" for r by (simp add: scrubbed_def emptied_row_def tombstone_row_def)
  moreover have "rows_ok (lg_records L)" "index_ok (lg_records L, lg_fts L, lg_terms L)"
    using ok by (simp_all add: tables_ok_def core_def)
  moreover have "live x" if "mr_status x = RActive" for x :: memory_record using that by (simp add: live_def)
  ultimately show ?thesis
    using retire_tables [OF _ _ tombstone_one_rows(1) [OF d, of sub now rid p] _ _ _ _ r]
    unfolding tables_ok_def core_def tombstone_one_rows(3,4) [OF d] if_P [OF True] by simp
next
  case False
  assume ok: "tables_ok L"
  note d = tables_distinct [OF ok]
  have "lg_records (fst (tombstone_one sub now rid (L, p))) = lg_records L"
    using False by (subst tombstone_one_rows [OF d]) (auto intro!: rewrite_none simp: row_of_def)
  then show ?thesis using ok unfolding tables_ok_def core_def tombstone_one_rows(3,4) [OF d] if_not_P [OF False] by simp
qed

lemma tombstone_fold:
  assumes "tables_ok L" and "distinct ids"
  shows "tables_ok (fst (fold (tombstone_one sub now) ids (L, p))) \<and>
     lg_records (fst (fold (tombstone_one sub now) ids (L, p))) = rewrite sub (set ids) live (emptied_row now) (lg_records L) \<and>
     pu_changed (snd (fold (tombstone_one sub now) ids (L, p))) =
       pu_changed p @ filter (\<lambda>i. \<exists>r\<in>set (lg_records L). row_of sub i r \<and> live r) ids"
  using assms
proof (induction ids arbitrary: L p)
  case (Cons i ids)
  obtain L1 p1 where one: "tombstone_one sub now i (L, p) = (L1, p1)" by fastforce
  note rows = tombstone_one_rows [OF tables_distinct [OF Cons.prems(1)], of sub now i p, unfolded one fst_conv snd_conv]
  have ok: "tables_ok L1" using tombstone_one_ok [OF Cons.prems(1), of sub now i p] one by simp
  have dead: "\<not> live (emptied_row now r)" for r by (simp add: live_def)
  have "(\<exists>r\<in>set (lg_records L1). row_of sub j r \<and> live r) = (\<exists>r\<in>set (lg_records L). row_of sub j r \<and> live r)"
    if j: "j \<in> set ids" for j
  proof -
    have "i \<noteq> j" using j Cons.prems(2) by auto
    then show ?thesis using dead unfolding rows(1) rewrite_def row_of_def by (auto split: if_splits)
  qed
  then have same: "filter (\<lambda>i. \<exists>r\<in>set (lg_records L1). row_of sub i r \<and> live r) ids =
      filter (\<lambda>i. \<exists>r\<in>set (lg_records L). row_of sub i r \<and> live r) ids"
    by (rule filter_cong [OF refl])
  have both: "rewrite sub (set ids) live (emptied_row now) (rewrite sub {i} live (emptied_row now) rs) =
      rewrite sub (set (i # ids)) live (emptied_row now) rs" for rs
    by (subst rewrite_twice) (simp_all add: dead Un_commute)
  show ?case using Cons.IH [OF ok, of p1] Cons.prems(2) 
    unfolding same [unfolded rows(1)] rows(1,2) both fold_Cons comp_apply one
    by (cases "\<exists>r\<in>set (lg_records L). row_of sub i r \<and> live r") simp_all
qed simp

lemma tombstone_records_rows:
  assumes "tables_ok L" and "distinct ids"
  shows "tables_ok (fst (tombstone_records E sub ids L)) \<and>
     lg_records (fst (tombstone_records E sub ids L)) = rewrite sub (set ids) live (emptied_row (utc_now E L)) (lg_records L) \<and>
     fst (snd (tombstone_records E sub ids L)) = filter (\<lambda>i. \<exists>r\<in>set (lg_records L). row_of sub i r \<and> live r) ids"
proof (cases "ids = []")
  case False
  let ?p0 = "\<lparr>pu_changed = [], pu_sources = [], pu_typed = []\<rparr>"
  obtain L1 p where one: "fold (tombstone_one sub (utc_now E L)) ids (tick L, ?p0) = (L1, p)" by fastforce
  have "tables_ok (tick L)" using assms(1) by (simp add: tables_ok_core [OF core_frame(1)])
  from tombstone_fold [OF this assms(2), of sub "utc_now E L" ?p0, unfolded one fst_conv snd_conv records_core [OF core_frame(1)]]
  have rows: "tables_ok L1" "lg_records L1 = rewrite sub (set ids) live (emptied_row (utc_now E L)) (lg_records L)"
    "pu_changed p = filter (\<lambda>i. \<exists>r\<in>set (lg_records L). row_of sub i r \<and> live r) ids"
    by simp_all
  let ?eps = "if pu_changed p = [] then [] else free_episodes sub p L1"
  obtain L2 eps2 where two: "fold (purge_unit_source E) (pu_sources p) (L1, ?eps) = (L2, eps2)" by fastforce
  obtain L3 eps where three: "(if dedup eps2 = [] then (L2, []) else purge_episodes E sub (dedup eps2) L2) = (L3, eps)" by fastforce
  have result: "tombstone_records E sub ids L = (L3, pu_changed p, eps)"
    unfolding tombstone_records_def Let_def if_not_P [OF False] one case_prod_conv two three ..
  have "same_memory L1 L2"
    using fold_same_memory [of "pu_sources p" fst "purge_unit_source E" "(L1, ?eps)", OF purge_unit_source_same]
    unfolding two fst_conv .
  moreover have "same_memory L2 L3"
  proof (cases "dedup eps2 = []")
    case nonempty: False
    then show ?thesis using purge_episodes_same [of L2 E sub "dedup eps2"] three by simp
  qed (use three in simp)
  ultimately have same: "core L3 = core L1" by (blast intro: core_same_memory same_memory_trans)
  show ?thesis using rows unfolding result fst_conv snd_conv tables_ok_core [OF same] records_core [OF same] by blast
qed (use assms in \<open>simp add: tombstone_records_def\<close>)

section \<open>New active records\<close>

lemma enlist_index:
  assumes "index_ok (rs, fs, ts)" and "set (actives rs') = insert x (set (actives rs))" and "mr_id x \<notin> mr_id ` set (actives rs)"
  shows "index_ok (rs', filter (\<lambda>f. fr_record_id f \<noteq> mr_id x) fs @ [fts_entry x],
                   filter (\<lambda>t. tm_record_id t \<noteq> mr_id x) ts @ term_entries x)"
proof -
  have fs: "set fs = fts_entry ` set (actives rs)" and ts: "set ts = (\<Union>r\<in>set (actives rs). set (term_entries r))"
    using assms(1) by (simp_all add: index_ok_def)
  have "fr_record_id f \<noteq> mr_id x" if f: "f \<in> set fs" for f
  proof -
    obtain r where "r \<in> set (actives rs)" "f = fts_entry r" using f unfolding fs by blast
    then show ?thesis using assms(3) by (metis entry_ids(1) imageI)
  qed
  then have "{f \<in> set fs. fr_record_id f \<noteq> mr_id x} = set fs" by blast
  moreover have "tm_record_id t \<noteq> mr_id x" if t: "t \<in> set ts" for t
  proof -
    obtain r where "r \<in> set (actives rs)" "t \<in> set (term_entries r)" using t unfolding ts by blast
    then show ?thesis using assms(3) by (metis entry_ids(2) imageI)
  qed
  then have "{t \<in> set ts. tm_record_id t \<noteq> mr_id x} = set ts" by blast
  ultimately show ?thesis unfolding index_ok_def by (simp add: assms(2) fs ts Un_commute)
qed

lemma upsert_core:
  "core (upsert_search_terms (mr_id r) (mr_subject_id r) (authority_workspace (mr_raw r)) (mr_fact_key r)
           (upsert_fts (mr_id r) (mr_subject_id r) (mr_content r) L)) =
     (lg_records L, filter (\<lambda>f. fr_record_id f \<noteq> mr_id r) (lg_fts L) @ [fts_entry r],
      filter (\<lambda>t. tm_record_id t \<noteq> mr_id r) (lg_terms L) @ term_entries r)"
  unfolding core_def upsert_search_terms_def upsert_fts_def fts_entry_def term_entries_def Let_def by simp

definition good_args :: "record_args \<Rightarrow> bool" where
  "good_args a \<longleftrightarrow> ra_status a \<noteq> RTombstoned \<and>
     (ra_status a = RActive \<longrightarrow> ra_trust_tier a \<in> {TRUST_TIER_USER, TRUST_TIER_CONFIRMED})"

lemma insert_record_rows:
  assumes "insert_record E sub a L = Inr (L', rid)"
  shows "rid \<notin> mr_id ` set (lg_records L) \<and> rid \<noteq> [] \<and> lg_log L' = lg_log L \<and>
     (\<exists>now. lg_records L' = lg_records L @ [record_of rid sub now a])"
  using assms
  by (auto simp: insert_record_def Let_def tick_def new_id_of_def index_row_def upsert_search_terms_def upsert_fts_def
      split: if_splits)

lemma insert_record_ok:
  assumes ins: "insert_record E sub a L = Inr (L', rid)" and ok: "tables_ok L" and good: "good_args a"
  shows "tables_ok L'"
proof -
  let ?r = "record_of rid sub (utc_now E (tick L)) a" and ?M = "(tick (tick L))\<lparr>lg_records := lg_records L @ [record_of rid sub (utc_now E (tick L)) a]\<rparr>"
  have new: "rid \<notin> mr_id ` set (lg_records L)" "rid \<noteq> []" and L': "L' = (if ra_status a = RActive then index_row ?r ?M else ?M)"
    using ins by (auto simp: insert_record_def Let_def new_id_of_def split: if_splits)
  have rows: "rows_ok (lg_records L @ [?r])"
    using ok new good unfolding tables_ok_def rows_ok_def good_args_def by (auto simp: record_of_def)
  show ?thesis
  proof (cases "ra_status a = RActive")
    case True
    have "core L' = (lg_records L @ [?r], filter (\<lambda>f. fr_record_id f \<noteq> mr_id ?r) (lg_fts L) @ [fts_entry ?r],
        filter (\<lambda>t. tm_record_id t \<noteq> mr_id ?r) (lg_terms L) @ term_entries ?r)"
      using True unfolding L' index_row_def by (simp add: upsert_core tick_def)
    moreover have "set (actives (lg_records L @ [?r])) = insert ?r (set (actives (lg_records L)))"
      using True by (simp add: actives_def record_of_def)
    moreover have "mr_id ?r \<notin> mr_id ` set (actives (lg_records L))" using new(1) by (auto simp: record_of_def)
    ultimately have "index_ok (core L') \<and> lg_records L' = lg_records L @ [?r]"
      using enlist_index [of "lg_records L" "lg_fts L" "lg_terms L" _ ?r] ok
      by (simp add: tables_ok_def core_simps) (simp add: core_def)
    then show ?thesis using rows by (simp add: tables_ok_def)
  next
    case False
    then have "actives (lg_records L @ [?r]) = actives (lg_records L)" by (simp add: actives_def record_of_def)
    then show ?thesis using False ok rows by (simp add: L' tables_ok_def index_ok_def core_def tick_def)
  qed
qed

lemma promote_record_rows:
  assumes pro: "promote_record E sub rid tier L = (L', found)" and ok: "tables_ok L"
  shows "case found of
       None \<Rightarrow> core L' = core L \<and> lg_log L' = lg_log L
     | Some r' \<Rightarrow> lg_log L' = lg_log L \<and>
         lg_records L' = rewrite sub {rid} (\<lambda>r. mr_status r = RQuarantined) (promoted_row (utc_now E L) tier) (lg_records L) \<and>
         r' \<in> set (lg_records L') \<and> row_of sub rid r' \<and> mr_status r' = RActive \<and> mr_trust_tier r' = tier \<and>
         (tier \<in> {TRUST_TIER_USER, TRUST_TIER_CONFIRMED} \<longrightarrow> tables_ok L')"
proof (cases "find (\<lambda>r. row_of sub rid r \<and> mr_status r = RQuarantined) (lg_records (tick L))")
  case None
  then show ?thesis using pro by (auto simp: promote_record_def Let_def tick_def core_def)
next
  case (Some r)
  note r = find_SomeD [OF Some]
  have rin: "r \<in> set (lg_records L)" using r by (simp add: tick_def)
  have only: "r' = r" if "r' \<in> set (lg_records L)" "row_of sub rid r'" for r'
    using same_id [OF tables_distinct [OF ok] rin] r that by (auto simp: row_of_def)
  let ?now = "utc_now E L"
  let ?q = "promoted_row ?now tier r"
  let ?rs = "rewrite sub {rid} (\<lambda>r. mr_status r = RQuarantined) (promoted_row ?now tier) (lg_records L)"
  define M where "M = update_records (row_of sub rid) (\<lambda>x. x\<lparr>mr_status := RActive, mr_trust_tier := tier,
      mr_updated_at := Some ?now, mr_raw := set_unit_lifecycle ''active'' (mr_raw r)\<rparr>) (tick L)"
  have M: "lg_records M = ?rs" "lg_fts M = lg_fts L" "lg_terms M = lg_terms L" "lg_log M = lg_log L"
    using only r by (auto simp: M_def update_records_def tick_def rewrite_def promoted_row_def row_of_def)
  have qin: "?q \<in> set ?rs" using r rin by (auto simp: rewrite_def row_of_def image_iff intro!: bexI [of _ r])
  have qkeys: "mr_id ?q = rid" "mr_subject_id ?q = sub" "mr_content ?q = mr_content r" "mr_fact_key ?q = mr_fact_key r"
    "mr_raw ?q = set_unit_lifecycle ''active'' (mr_raw r)"
    using r by (simp_all add: row_of_def promoted_row_def)
  have dist: "distinct (map mr_id ?rs)" using tables_distinct [OF ok] by simp
  have L'eq: "L' = update_units (\<lambda>u. tu_record_id u = rid \<and> tu_lifecycle u = ''quarantined'')
      (\<lambda>u. u\<lparr>tu_lifecycle := ''active'', tu_updated_at := ?now\<rparr>)
      (upsert_search_terms rid sub (authority_workspace (set_unit_lifecycle ''active'' (mr_raw r))) (mr_fact_key r)
        (upsert_fts rid sub (mr_content r) M))" and found: "found = get_record L' sub rid"
    using pro Some by (auto simp: promote_record_def Let_def M_def tick_def)
  have core': "core L' = (?rs, filter (\<lambda>f. fr_record_id f \<noteq> mr_id ?q) (lg_fts L) @ [fts_entry ?q],
        filter (\<lambda>t. tm_record_id t \<noteq> mr_id ?q) (lg_terms L) @ term_entries ?q)"
    using upsert_core [of ?q M, unfolded qkeys M] unfolding L'eq qkeys core_frame .
  have log': "lg_log L' = lg_log L"
    using M(4) by (simp add: L'eq update_units_def upsert_search_terms_def upsert_fts_def Let_def)
  have recs: "lg_records L' = ?rs" using core' by (simp add: core_simps)
  have "get_record L' sub rid \<noteq> None" unfolding get_record_def recs find_None_iff using qin qkeys by blast
  then obtain f where f: "found = Some f" "f \<in> set ?rs" "mr_id f = rid"
    using found find_SomeD unfolding get_record_def recs by (metis (mono_tags, lifting) not_Some_eq)
  have fq: "f = ?q" using same_id [OF dist qin f(2)] f(3) qkeys(1) by simp
  have tables: "tables_ok L'" if tier: "tier \<in> {TRUST_TIER_USER, TRUST_TIER_CONFIRMED}"
  proof -
    have "set (actives ?rs) = insert ?q (set (actives (lg_records L)))"
    proof (intro set_eqI iffI)
      fix x assume "x \<in> set (actives ?rs)"
      then obtain y where "y \<in> set (lg_records L)"
        "x = (if mr_subject_id y = sub \<and> mr_id y \<in> {rid} \<and> mr_status y = RQuarantined then promoted_row ?now tier y else y)"
        "mr_status x = RActive" by (auto simp: rewrite_def)
      then show "x \<in> insert ?q (set (actives (lg_records L)))" using only [of y] by (auto simp: row_of_def split: if_splits)
    next
      fix x assume "x \<in> insert ?q (set (actives (lg_records L)))"
      then show "x \<in> set (actives ?rs)" using qin by (auto simp: rewrite_def image_iff)
    qed
    moreover have "mr_id ?q \<notin> mr_id ` set (actives (lg_records L))"
      using same_id [OF tables_distinct [OF ok] rin] r qkeys by (auto simp: row_of_def)
    ultimately have "index_ok (core L')" unfolding core' by (rule enlist_index [rotated]) (use ok in \<open>simp add: tables_ok_def core_def\<close>)
    moreover have "rows_ok ?rs"
      using ok dist tier unfolding tables_ok_def rows_ok_def rewrite_def by auto
    ultimately show ?thesis by (simp add: tables_ok_def recs)
  qed
  show ?thesis using f(1) fq qin qkeys tables log' recs by (simp add: row_of_def)
qed

end
