(* ===== verification/Memory_Integrity.thy ===== *)
theory Memory_Integrity
  imports Memory_Invariant
begin

text \<open>
  The comparison of the record rows with the commitments in the audit chain (\<^verbatim>\<open>_verify_record_integrity\<close> of
  \<^verbatim>\<open>src/atmem/memory.py\<close>), and what an appended event adds to it.  A value in a list of identifiers that is not a
  string names no record.
\<close>

definition creation_events :: "string list" where
  "creation_events = [''memory.record_created'', ''memory.record_quarantined'']"

definition is_hex64 :: "string \<Rightarrow> bool" where
  "is_hex64 s \<longleftrightarrow> length s = 64 \<and> list_all (\<lambda>c. is_digit c \<or> 97 \<le> code c \<and> code c \<le> 102) s"

text \<open>What one event says: the records it makes known, those it changes, and the commitment it carries.\<close>

definition or_empty :: "string option \<Rightarrow> string" where
  "or_empty s = (case s of None \<Rightarrow> [] | Some t \<Rightarrow> t)"

definition known_in :: "string \<Rightarrow> string option \<Rightarrow> json \<Rightarrow> string list" where
  "known_in ty re pl =
     (if ty \<in> set creation_events \<and> truthy re then [or_empty re] else []) @
     jstrings pl ''record_ids'' @ jstrings pl ''candidate_ids'' @
     (if ty = ''media.observation_admitted''
      then (let i = (if truthy (jstr_opt pl ''record_id'') then or_empty (jstr_opt pl ''record_id'') else or_empty re)
            in if i = [] then [] else [i])
      else [])"

definition changed_in :: "string \<Rightarrow> string option \<Rightarrow> json \<Rightarrow> string list" where
  "changed_in ty re pl =
     jstrings pl ''supersedes'' @ jstrings pl ''purged_record_ids'' @ jstrings pl ''duplicates_superseded'' @
     jstrings pl ''fact_key_repaired'' @
     (if ty \<in> {''memory.record_promoted'', ''memory.record_rejected''} \<and> truthy re then [or_empty re] else []) @
     (if ty = ''memory.record_corrected'' \<and> truthy (jstr_opt pl ''replaces_record_id'')
      then [or_empty (jstr_opt pl ''replaces_record_id'')] else [])"

definition commitment_in :: "string \<Rightarrow> string option \<Rightarrow> json \<Rightarrow> (string \<times> string) option" where
  "commitment_in ty re pl =
     (let h = or_empty (jstr_opt pl ''record_integrity_sha256'') in
      if ty \<in> set creation_events \<and> truthy re \<and> is_hex64 h then Some (or_empty re, h) else None)"

text \<open>The dictionaries and sets that the loop over the events fills.\<close>

definition note_commitment :: "audit_event \<Rightarrow> (string \<times> string) list \<Rightarrow> (string \<times> string) list" where
  "note_commitment e m =
     (case commitment_in (ae_event_type e) (ae_record_id e) (ae_payload e) of
        None \<Rightarrow> m
      | Some (i, h) \<Rightarrow> if i \<in> fst ` set m then map (\<lambda>(j, g). if j = i then (j, h) else (j, g)) m else m @ [(i, h)])"

definition commitments :: "audit_event list \<Rightarrow> (string \<times> string) list" where
  "commitments es = fold note_commitment es []"

definition known_record_ids :: "audit_event list \<Rightarrow> string list" where
  "known_record_ids es = concat (map (\<lambda>e. known_in (ae_event_type e) (ae_record_id e) (ae_payload e)) es)"

definition legitimately_changed :: "audit_event list \<Rightarrow> string list" where
  "legitimately_changed es = concat (map (\<lambda>e. changed_in (ae_event_type e) (ae_record_id e) (ae_payload e)) es)"

definition commitment_failures ::
  "'g memory_env \<Rightarrow> string list \<Rightarrow> memory_record list \<Rightarrow> (string \<times> string) list \<Rightarrow> (string \<times> string) list" where
  "commitment_failures E changed rows cs =
     concat (map (\<lambda>(rid, expected).
        if rid \<in> set changed then []
        else case find (\<lambda>r. mr_id r = rid) rows of
               None \<Rightarrow> [(rid, ''record committed by the audit chain is missing'')]
             | Some r \<Rightarrow> if record_integrity_sha256 E r \<noteq> expected
                         then [(rid, ''record row does not match its chained integrity commitment'')] else []) cs)"

definition unknown_failures :: "string list \<Rightarrow> memory_record list \<Rightarrow> (string \<times> string) list" where
  "unknown_failures known rows =
     map (\<lambda>r. (mr_id r, ''record has no creation event in the audit chain''))
       (filter (\<lambda>r. mr_id r \<notin> set known \<and> live r) (sort_key mr_id rows))"

definition verify_record_integrity :: "'g memory_env \<Rightarrow> 'g ledger \<Rightarrow> string \<Rightarrow> integrity_report" where
  "verify_record_integrity E L sub =
     (let es = list_audit_events (lg_log L) sub; cs = sort_key fst (commitments es);
          changed = legitimately_changed es; rows = list_records L sub None;
          failures = commitment_failures E changed rows cs @ unknown_failures (known_record_ids es) rows
      in if cs = [] then
           \<lparr>ir_enabled = False, ir_valid = True, ir_committed_records = 0, ir_records_checked = 0, ir_failures = []\<rparr>
         else
           \<lparr>ir_enabled = True, ir_valid = (failures = []), ir_committed_records = length cs,
             ir_records_checked = length (filter (\<lambda>(rid, h). rid \<notin> set changed \<and> (\<exists>r\<in>set rows. mr_id r = rid)) cs),
             ir_failures = failures\<rparr>)"

text \<open>\<^verbatim>\<open>verify\<close> of the ledger: the chain, the rows and the pinned checkpoints.\<close>

definition verify_ledger ::
  "'g memory_env \<Rightarrow> int \<Rightarrow> string option \<Rightarrow> json list \<Rightarrow> bool \<Rightarrow> 'g ledger \<Rightarrow> 'g ledger \<times> (py_error + verify_report)" where
  "verify_ledger E now subject docs incremental L =
     (let (log, r) = verify (me_hashes E) now (verify_record_integrity E L) subject docs incremental (lg_log L)
      in (L\<lparr>lg_log := log\<rparr>, r))"

section \<open>Reading the report\<close>

lemma commitments_snoc: "commitments (es @ [e]) = note_commitment e (commitments es)"
  by (simp add: commitments_def)

lemma overwrite_keys: "map fst (map (\<lambda>(j, g). if j = i then (j, h) else (j, g)) m) = map fst m"
proof (induction m)
  case (Cons x m)
  then show ?case by (cases x) simp
qed simp

lemma map_of_overwrite:
  "map_of (map (\<lambda>(j, g). if j = i then (j, h) else (j, g)) m) x = (if x = i \<and> i \<in> fst ` set m then Some h else map_of m x)"
proof (induction m)
  case (Cons p m)
  obtain j g where "p = (j, g)" by (cases p)
  then show ?case using Cons.IH by (cases "j = i"; cases "x = j") (simp_all add: map_of_eq_None_iff)
qed simp

lemma map_of_new: "i \<notin> fst ` set m \<Longrightarrow> map_of (m @ [(i, h)]) x = (if x = i then Some h else map_of m x)"
  by (induction m) auto

lemma commitments_distinct: "distinct (map fst (commitments es))"
proof (induction es rule: rev_induct)
  case (snoc e es)
  then show ?case
    by (auto simp: commitments_snoc note_commitment_def overwrite_keys simp del: map_map split: option.splits)
qed (simp add: commitments_def)

lemma map_of_commitments_snoc:
  "map_of (commitments (es @ [e])) =
     (case commitment_in (ae_event_type e) (ae_record_id e) (ae_payload e) of
        None \<Rightarrow> map_of (commitments es) | Some (i, h) \<Rightarrow> (map_of (commitments es))(i \<mapsto> h))"
  by (auto simp: commitments_snoc note_commitment_def fun_eq_iff map_of_overwrite map_of_new simp del: map_of_append
      split: option.splits)

lemma in_commitments: "(i, h) \<in> set (commitments es) \<longleftrightarrow> map_of (commitments es) i = Some h"
  by (simp add: commitments_distinct)

lemma listed_records: "r \<in> set (list_records L sub None) \<longleftrightarrow> r \<in> set (lg_records L) \<and> mr_subject_id r = sub"
  by (auto simp: list_records_def)

lemma find_listed:
  assumes "distinct (map mr_id (lg_records L))"
  shows "find (\<lambda>r. mr_id r = rid) (list_records L sub None) = Some r \<longleftrightarrow> r \<in> set (lg_records L) \<and> row_of sub rid r"
proof
  assume "find (\<lambda>r. mr_id r = rid) (list_records L sub None) = Some r"
  from find_SomeD [OF this] show "r \<in> set (lg_records L) \<and> row_of sub rid r" by (simp add: listed_records row_of_def)
next
  assume r: "r \<in> set (lg_records L) \<and> row_of sub rid r"
  then have "find (\<lambda>r. mr_id r = rid) (list_records L sub None) \<noteq> None"
    by (auto simp: find_None_iff listed_records row_of_def)
  then obtain r' where r': "find (\<lambda>r. mr_id r = rid) (list_records L sub None) = Some r'" by blast
  then have "r' \<in> set (lg_records L)" "mr_id r' = rid" using find_SomeD [OF r'] by (auto simp: listed_records)
  then show "find (\<lambda>r. mr_id r = rid) (list_records L sub None) = Some r"
    using r' r same_id [OF assms] by (auto simp: row_of_def)
qed

text \<open>A valid report: every committed record that no event changed has its row, unaltered, and every live row is known.\<close>

lemma integrity_valid:
  assumes "distinct (map mr_id (lg_records L))" and es: "es = list_audit_events (lg_log L) sub"
  shows "ir_valid (verify_record_integrity E L sub) \<longleftrightarrow> commitments es = [] \<or>
     (\<forall>i h. map_of (commitments es) i = Some h \<longrightarrow> i \<notin> set (legitimately_changed es) \<longrightarrow>
        (\<exists>r\<in>set (lg_records L). row_of sub i r \<and> record_integrity_sha256 E r = h)) \<and>
     (\<forall>r\<in>set (lg_records L). mr_subject_id r = sub \<longrightarrow> live r \<longrightarrow> mr_id r \<in> set (known_record_ids es))"
proof -
  let ?rows = "list_records L sub None" and ?ch = "legitimately_changed es"
  have one: "commitment_failures E ?ch ?rows (sort_key fst (commitments es)) = [] \<longleftrightarrow>
      (\<forall>i h. map_of (commitments es) i = Some h \<longrightarrow> i \<notin> set ?ch \<longrightarrow>
        (\<exists>r\<in>set (lg_records L). row_of sub i r \<and> record_integrity_sha256 E r = h))"
  proof -
    have "commitment_failures E ?ch ?rows (sort_key fst (commitments es)) = [] \<longleftrightarrow>
      (\<forall>i h. map_of (commitments es) i = Some h \<longrightarrow> i \<notin> set ?ch \<longrightarrow>
        (\<exists>r. find (\<lambda>r. mr_id r = i) ?rows = Some r \<and> record_integrity_sha256 E r = h))"
    proof -
      have "commitment_failures E ?ch ?rows (sort_key fst (commitments es)) = [] \<longleftrightarrow>
          (\<forall>(i, h)\<in>set (commitments es). i \<in> set ?ch \<or>
             (\<exists>r. find (\<lambda>r. mr_id r = i) ?rows = Some r \<and> record_integrity_sha256 E r = h))"
        unfolding commitment_failures_def concat_eq_Nil_conv set_map ball_simps set_sort
        by (rule ball_cong [OF refl]) (auto split: option.splits if_splits)
      then show ?thesis unfolding in_commitments [symmetric] by (simp add: Ball_def) blast
    qed
    then show ?thesis unfolding find_listed [OF assms(1)] by blast
  qed
  have two: "unknown_failures (known_record_ids es) ?rows = [] \<longleftrightarrow>
      (\<forall>r\<in>set (lg_records L). mr_subject_id r = sub \<longrightarrow> live r \<longrightarrow> mr_id r \<in> set (known_record_ids es))"
    by (auto simp: unknown_failures_def filter_empty_conv listed_records)
  have "sort_key fst (commitments es) = [] \<longleftrightarrow> commitments es = []" by (metis set_empty set_sort)
  then show ?thesis using one two by (simp add: verify_record_integrity_def Let_def es [symmetric])
qed

end
