(* ===== verification/Memory_Reachable.thy ===== *)
theory Memory_Reachable
  imports Memory_Integrity
begin

text \<open>
  The invariant of the memory ledger through every operation.  Inside an operation some rows are ahead of the log: a
  new row that no event announces yet, rows whose change is not logged yet, and rows that still share a slot with a
  newer one.  \<open>ledger_inv\<close> names them, every store method and every event moves the names, and an operation starts
  and ends with none.
\<close>

section \<open>The invariant\<close>

definition events_of :: "'g ledger \<Rightarrow> string \<Rightarrow> audit_event list" where
  "events_of L s = list_audit_events (lg_log L) s"

definition announced :: "'g ledger \<Rightarrow> memory_record \<Rightarrow> bool" where
  "announced L r \<longleftrightarrow> mr_id r \<in> set (known_record_ids (events_of L (mr_subject_id r)))"

definition recorded :: "'g memory_env \<Rightarrow> 'g ledger \<Rightarrow> memory_record \<Rightarrow> bool" where
  "recorded E L r \<longleftrightarrow> (let es = events_of L (mr_subject_id r) in
     mr_id r \<in> set (legitimately_changed es) \<or> map_of (commitments es) (mr_id r) = Some (record_integrity_sha256 E r))"

definition key_of :: "memory_record \<Rightarrow> string \<times> string" where
  "key_of r = (mr_subject_id r, mr_id r)"

definition sound :: "'g memory_env \<Rightarrow> (string \<times> string) set \<Rightarrow> (string \<times> string) set \<Rightarrow> 'g ledger \<Rightarrow> bool" where
  "sound E N P L \<longleftrightarrow>
     (\<forall>r\<in>set (lg_records L). (key_of r \<notin> N \<longrightarrow> announced L r) \<and> (key_of r \<notin> N \<union> P \<longrightarrow> recorded E L r)) \<and>
     (\<forall>s i h. map_of (commitments (events_of L s)) i = Some h \<longrightarrow> (\<exists>r\<in>set (lg_records L). row_of s i r))"

definition same_slot :: "memory_record \<Rightarrow> memory_record \<Rightarrow> bool" where
  "same_slot a b \<longleftrightarrow> mr_subject_id a = mr_subject_id b \<and> mr_fact_key a = mr_fact_key b \<and> truthy (mr_fact_key a)"

definition slots_ok :: "(string \<times> string) set \<Rightarrow> memory_record list \<Rightarrow> bool" where
  "slots_ok X rs \<longleftrightarrow> (\<forall>a\<in>set (actives rs). \<forall>b\<in>set (actives rs). same_slot a b \<longrightarrow> a = b \<or> key_of a \<in> X \<or> key_of b \<in> X)"

text \<open>What the parts outside promise: digests have 64 hexadecimal digits, and the graph announces no record.\<close>

definition quiet_mutations :: "json list \<Rightarrow> bool" where
  "quiet_mutations ms \<longleftrightarrow> list_all (\<lambda>m. or_empty (jstr_opt m ''event_type'') \<notin> set creation_events) ms"

definition env_ok :: "'g memory_env \<Rightarrow> bool" where
  "env_ok E \<longleftrightarrow> (\<forall>j. is_hex64 (sha_json (me_hashes E) j)) \<and>
     (\<forall>r g. quiet_mutations (snd (gr_index (me_graph E) r g))) \<and>
     (\<forall>s ids b g. quiet_mutations (snd (gr_supersede (me_graph E) s ids b g))) \<and>
     (\<forall>s ids g. quiet_mutations (snd (gr_tombstone (me_graph E) s ids g)))"

definition ledger_inv ::
  "'g memory_env \<Rightarrow> (string \<times> string) set \<Rightarrow> (string \<times> string) set \<Rightarrow> (string \<times> string) set \<Rightarrow> 'g ledger \<Rightarrow> bool" where
  "ledger_inv E N P X L \<longleftrightarrow> tables_ok L \<and> log_ok (lg_log L) \<and> slots_ok X (lg_records L) \<and> (env_ok E \<longrightarrow> sound E N P L)"

lemma inv_cong: "core L' = core L \<Longrightarrow> lg_log L' = lg_log L \<Longrightarrow> ledger_inv E N P X L' = ledger_inv E N P X L"
  using records_core [of L' L] tables_ok_core [of L' L]
  by (simp add: ledger_inv_def sound_def announced_def recorded_def events_of_def)

lemma inv_tables: "ledger_inv E N P X L \<Longrightarrow> tables_ok L"
  by (simp add: ledger_inv_def)

lemma inv_distinct: "ledger_inv E N P X L \<Longrightarrow> distinct (map mr_id (lg_records L))"
  by (rule tables_distinct) (rule inv_tables)

lemma inv_nonempty: "ledger_inv E N P X L \<Longrightarrow> r \<in> set (lg_records L) \<Longrightarrow> mr_id r \<noteq> []"
  by (simp add: ledger_inv_def tables_ok_def rows_ok_def)

section \<open>Events\<close>

lemma log_event_events:
  assumes "log_ok (lg_log L)"
  shows "\<exists>e. ae_event_type e = ty \<and> ae_payload e = pl \<and> ae_record_id e = re \<and>
     (\<forall>s. events_of (fst (log_event E sub ty pl ac se tu re L)) s = events_of L s @ (if s = sub then [e] else []))"
proof -
  let ?log = "\<lambda>eid now. append_audit_event (me_hashes E) eid now sub ty pl ac se tu re (lg_log L)"
  have "\<exists>e. ae_event_type e = ty \<and> ae_payload e = pl \<and> ae_record_id e = re \<and>
     (\<forall>s. list_audit_events (?log eid now) s = list_audit_events (lg_log L) s @ (if s = sub then [e] else []))" for eid now
    unfolding list_audit_events_filter [OF assms] list_audit_events_filter [OF log_ok_append [OF assms]]
    by (simp add: append_audit_event_def Let_def)
  from this [of "new_id_of ''aud'' E L" "utc_now E (tick L)"] show ?thesis
    by (simp add: events_of_def log_event_def Let_def)
qed

lemma log_event_log_ok: "log_ok (lg_log L) \<Longrightarrow> log_ok (lg_log (fst (log_event E sub ty pl ac se tu re L)))"
  by (simp add: log_event_def Let_def log_ok_append)

lemma known_append [simp]:
  "known_record_ids (es @ [e]) = known_record_ids es @ known_in (ae_event_type e) (ae_record_id e) (ae_payload e)"
  "legitimately_changed (es @ [e]) = legitimately_changed es @ changed_in (ae_event_type e) (ae_record_id e) (ae_payload e)"
  by (simp_all add: known_record_ids_def legitimately_changed_def)

definition settles :: "string \<Rightarrow> string list \<Rightarrow> (string \<times> string) set \<Rightarrow> (string \<times> string) set \<Rightarrow> bool" where
  "settles sub ids P P' \<longleftrightarrow> (\<forall>s i. (s, i) \<in> P \<longrightarrow> i \<noteq> [] \<longrightarrow> (s, i) \<in> P' \<or> s = sub \<and> i \<in> set ids)"

lemma log_event_inv:
  assumes inv: "ledger_inv E N P X L" and quiet: "ty \<notin> set creation_events"
    and P': "settles sub (changed_in ty re pl) P P'"
  shows "ledger_inv E N P' X (fst (log_event E sub ty pl ac se tu re L))"
proof -
  let ?L = "fst (log_event E sub ty pl ac se tu re L)"
  have ok: "log_ok (lg_log L)" using inv by (simp add: ledger_inv_def)
  obtain e where e: "ae_event_type e = ty" "ae_payload e = pl" "ae_record_id e = re"
    and ev: "\<And>s. events_of ?L s = events_of L s @ (if s = sub then [e] else [])"
    using log_event_events [OF ok] by metis
  have recs: "lg_records ?L = lg_records L" by (rule records_core) simp
  have commit: "map_of (commitments (events_of ?L s)) = map_of (commitments (events_of L s))" for s
    using quiet by (simp add: ev map_of_commitments_snoc e commitment_in_def)
  have "sound E N P' ?L" if "sound E N P L"
    unfolding sound_def recs commit
  proof (intro conjI ballI impI)
    fix r assume r: "r \<in> set (lg_records L)"
    show "announced ?L r" if "key_of r \<notin> N"
      using \<open>sound E N P L\<close> r that by (auto simp: sound_def announced_def ev)
    show "recorded E ?L r" if new: "key_of r \<notin> N \<union> P'"
    proof (cases "key_of r \<in> P")
      case True
      then have "mr_subject_id r = sub" "mr_id r \<in> set (changed_in ty re pl)"
        using P' new inv_nonempty [OF inv r] by (auto simp: settles_def key_of_def)
      then show ?thesis by (simp add: recorded_def Let_def ev e)
    next
      case False
      then have "recorded E L r" using \<open>sound E N P L\<close> r new by (auto simp: sound_def)
      then show ?thesis unfolding recorded_def Let_def commit by (auto simp: ev)
    qed
  qed (use that in \<open>simp add: sound_def\<close>)
  then show ?thesis
    using inv log_event_log_ok [OF ok] unfolding ledger_inv_def recs
    by (simp add: tables_ok_core [OF core_frame(4)])
qed

lemma integrity_hex: "env_ok E \<Longrightarrow> is_hex64 (record_integrity_sha256 E r)"
  by (simp add: env_ok_def record_integrity_sha256_def)

lemma creation_event_inv:
  assumes inv: "ledger_inv E N P X L" and ty: "ty \<in> set creation_events" and N: "N \<subseteq> {(sub, rid)}"
    and r: "r \<in> set (lg_records L)" "row_of sub rid r"
    and pl: "jstr_opt pl ''record_integrity_sha256'' = Some (record_integrity_sha256 E r)"
    and P': "settles sub (changed_in ty (Some rid) pl) P P'"
  shows "ledger_inv E {} P' X (fst (log_event E sub ty pl ac se tu (Some rid) L))"
proof -
  let ?L = "fst (log_event E sub ty pl ac se tu (Some rid) L)"
  have ok: "log_ok (lg_log L)" using inv by (simp add: ledger_inv_def)
  obtain e where e: "ae_event_type e = ty" "ae_payload e = pl" "ae_record_id e = Some rid"
    and ev: "\<And>s. events_of ?L s = events_of L s @ (if s = sub then [e] else [])"
    using log_event_events [OF ok] by metis
  have recs: "lg_records ?L = lg_records L" by (rule records_core) simp
  have rid: "rid \<noteq> []" "mr_id r = rid" "mr_subject_id r = sub"
    using inv_nonempty [OF inv r(1)] r(2) by (simp_all add: row_of_def)
  have only: "x = r" if "x \<in> set (lg_records L)" "mr_id x = rid" for x
    using same_id [OF inv_distinct [OF inv] r(1)] that rid by simp
  have "sound E {} P' ?L" if s: "sound E N P L" and env: "env_ok E"
  proof -
    have commit: "map_of (commitments (events_of ?L s)) =
        (if s = sub then (map_of (commitments (events_of L s)))(rid \<mapsto> record_integrity_sha256 E r)
         else map_of (commitments (events_of L s)))" for s
      using ty rid integrity_hex [OF env] by (simp add: ev map_of_commitments_snoc e commitment_in_def pl or_empty_def)
    show ?thesis unfolding sound_def recs commit
    proof (intro conjI ballI impI allI)
      fix x assume x: "x \<in> set (lg_records L)"
      show "announced ?L x"
      proof (cases "key_of x \<in> N")
        case True
        then show ?thesis using N ty rid by (auto simp: announced_def ev e known_in_def key_of_def or_empty_def)
      qed (use s x in \<open>auto simp: sound_def announced_def ev\<close>)
      show "recorded E ?L x" if new: "key_of x \<notin> {} \<union> P'"
      proof (cases "mr_id x = rid")
        case True
        then have "x = r" using only x by simp
        then show ?thesis unfolding recorded_def Let_def commit by (simp add: rid)
      next
        case other: False
        show ?thesis
        proof (cases "key_of x \<in> P")
          case True
          then have "mr_subject_id x = sub" "mr_id x \<in> set (changed_in ty (Some rid) pl)"
            using P' new inv_nonempty [OF inv x] by (auto simp: settles_def key_of_def)
          then show ?thesis by (simp add: recorded_def Let_def ev e)
        next
          case False
          then have "recorded E L x" using s x N other by (auto simp: sound_def key_of_def)
          then show ?thesis using other unfolding recorded_def Let_def commit by (auto simp: ev)
        qed
      qed
    next
      fix s' i h
      assume "(if s' = sub then (map_of (commitments (events_of L s')))(rid \<mapsto> record_integrity_sha256 E r)
         else map_of (commitments (events_of L s'))) i = Some h"
      then show "\<exists>r\<in>set (lg_records L). row_of s' i r"
        using s r unfolding sound_def by (auto split: if_splits)
    qed
  qed
  then show ?thesis
    using inv log_event_log_ok [OF ok] unfolding ledger_inv_def recs
    by (simp add: tables_ok_core [OF core_frame(4)])
qed

lemma settles_refl [simp]: "settles sub ids P P"
  by (simp add: settles_def)

lemma settles_all: "settles sub ids ({sub} \<times> set xs) {} \<longleftrightarrow> (\<forall>i\<in>set xs. i \<noteq> [] \<longrightarrow> i \<in> set ids)"
  by (auto simp: settles_def)

lemma mutations_inv:
  "ledger_inv E N P X L \<Longrightarrow> quiet_mutations ms \<Longrightarrow> ledger_inv E N P X (audit_graph_mutations E sub se tu re ms L)"
proof (induction ms arbitrary: L)
  case (Cons m ms)
  then have "or_empty (jstr_opt m ''event_type'') \<notin> set creation_events" and rest: "quiet_mutations ms"
    by (simp_all add: quiet_mutations_def)
  note step = log_event_inv [OF Cons.prems(1) this(1) settles_refl]
  show ?case using Cons.IH [OF step rest] by (simp add: audit_graph_mutations_def or_empty_def)
qed (simp add: audit_graph_mutations_def)

text \<open>The invariant when the environment is not trusted says nothing of the log: both cases at once.\<close>

definition mutations_ok :: "'g memory_env \<Rightarrow> json list \<Rightarrow> bool" where
  "mutations_ok E ms \<longleftrightarrow> (env_ok E \<longrightarrow> quiet_mutations ms)"

lemma mutations_append [simp]: "mutations_ok E (ms @ ms') \<longleftrightarrow> mutations_ok E ms \<and> mutations_ok E ms'"
  by (auto simp: mutations_ok_def quiet_mutations_def)

lemma graph_mutations [simp]:
  "mutations_ok E (snd (graph_supersede E sub ids b L))" "mutations_ok E (snd (graph_index E r L))"
  by (auto simp: mutations_ok_def env_ok_def graph_supersede_def graph_index_def split_beta)

lemma core_inv:
  "core L' = core L \<Longrightarrow> log_ok (lg_log L') \<Longrightarrow> \<not> env_ok E \<Longrightarrow> ledger_inv E N P X L \<Longrightarrow> ledger_inv E N P X L'"
  using records_core [of L' L] tables_ok_core [of L' L] by (simp add: ledger_inv_def)

lemma mutations_log_ok: "log_ok (lg_log L) \<Longrightarrow> log_ok (lg_log (audit_graph_mutations E sub se tu re ms L))"
  unfolding audit_graph_mutations_def
proof (induction ms arbitrary: L)
  case (Cons m ms)
  show ?case unfolding fold_Cons comp_apply by (rule Cons.IH [OF log_event_log_ok [OF Cons.prems]])
qed simp

lemma audited_inv:
  assumes "ledger_inv E N P X L" and "mutations_ok E ms"
  shows "ledger_inv E N P X (audit_graph_mutations E sub se tu re ms L)"
proof (cases "env_ok E")
  case True
  then show ?thesis using mutations_inv [OF assms(1)] assms(2) by (simp add: mutations_ok_def)
next
  case False
  then show ?thesis using core_inv [OF core_mutations mutations_log_ok False assms(1)] assms(1) by (simp add: ledger_inv_def)
qed

section \<open>Rows\<close>

lemma rewrite_sound:
  assumes "sound E N P L" and "lg_records L' = rewrite sub ids p g (lg_records L)" and "keeps_key g" and "lg_log L' = lg_log L"
    and D: "\<And>r. r \<in> set (lg_records L) \<Longrightarrow> mr_subject_id r = sub \<Longrightarrow> mr_id r \<in> ids \<Longrightarrow> p r \<Longrightarrow> (sub, mr_id r) \<in> D"
  shows "sound E N (P \<union> D) L'"
proof -
  have ev: "events_of L' s = events_of L s" for s by (simp add: events_of_def assms(4))
  have same: "key_of (g r) = key_of r" "announced L (g r) = announced L r" "row_of s i (g r) = row_of s i r" for r s i
    using assms(3) by (simp_all add: key_of_def announced_def keeps_key_def row_of_def)
  have keep: "announced L' r = announced L r" "recorded E L' r = recorded E L r" for r
    by (simp_all add: announced_def recorded_def ev)
  show ?thesis unfolding sound_def assms(2) ev
  proof (intro conjI ballI impI allI)
    fix x assume "x \<in> set (rewrite sub ids p g (lg_records L))"
    then obtain r where r: "r \<in> set (lg_records L)"
      and x: "x = (if mr_subject_id r = sub \<and> mr_id r \<in> ids \<and> p r then g r else r)" by (auto simp: rewrite_def)
    show "announced L' x" if "key_of x \<notin> N"
      using assms(1) r that x by (auto simp: sound_def same keep split: if_splits)
    show "recorded E L' x" if "key_of x \<notin> N \<union> (P \<union> D)"
    proof -
      have "\<not> (mr_subject_id r = sub \<and> mr_id r \<in> ids \<and> p r)"
      proof
        assume hit: "mr_subject_id r = sub \<and> mr_id r \<in> ids \<and> p r"
        then have "key_of r \<in> D" using D [OF r] by (simp add: key_of_def)
        moreover have "key_of x = key_of r" using hit x same(1) by simp
        ultimately show False using that by simp
      qed
      then show ?thesis using assms(1) r that x by (auto simp: sound_def keep)
    qed
  next
    fix s i h assume "map_of (commitments (events_of L s)) i = Some h"
    then obtain r where "r \<in> set (lg_records L)" "row_of s i r" using assms(1) unfolding sound_def by blast
    let ?x = "if mr_subject_id r = sub \<and> mr_id r \<in> ids \<and> p r then g r else r"
    have "?x \<in> set (rewrite sub ids p g (lg_records L))" using \<open>r \<in> set (lg_records L)\<close> unfolding rewrite_def set_map by (rule imageI)
    moreover have "row_of s i ?x" using \<open>row_of s i r\<close> same(3) by simp
    ultimately show "\<exists>r\<in>set (rewrite sub ids p g (lg_records L)). row_of s i r" by blast
  qed
qed

lemma rewrite_slots:
  assumes "slots_ok X rs" and "\<And>r. mr_status (g r) \<noteq> RActive" and "\<And>r. mr_status r = RActive \<Longrightarrow> p r"
  shows "slots_ok (X - {sub} \<times> ids) (rewrite sub ids p g rs)"
proof -
  have "x \<in> set (actives rs) \<and> key_of x \<notin> {sub} \<times> ids" if "x \<in> set (actives (rewrite sub ids p g rs))" for x
    using that assms(2,3) by (auto simp: rewrite_def key_of_def split: if_splits)
  then show ?thesis using assms(1) unfolding slots_ok_def Diff_iff by meson
qed

lemma tick_log [simp]: "lg_log (tick L) = lg_log L"
  by (simp add: tick_def)

lemma supersede_log:
  fixes L :: "'g ledger"
  shows "lg_log (supersede_records E sub ids b L) = lg_log L"
proof -
  have one: "lg_log (supersede_one sub now b i M) = lg_log M" for now i and M :: "'g ledger"
    by (simp add: supersede_one_def update_records_def update_units_def delete_fts_def delete_search_terms_def Let_def
        split: option.splits)
  have "lg_log (fold (supersede_one sub now b) ids M) = lg_log M" for now and M :: "'g ledger"
    by (induction ids arbitrary: M) (simp_all add: one)
  then show ?thesis by (simp add: supersede_records_def)
qed

lemma supersede_inv:
  assumes "ledger_inv E N P X L"
  shows "ledger_inv E N (P \<union> {sub} \<times> set ids) (X - {sub} \<times> set ids) (supersede_records E sub ids b L)"
proof -
  note rows = supersede_records_rows [OF inv_tables [OF assms], of E sub ids b]
  show ?thesis
    using assms rows(1) rewrite_slots [of X "lg_records L" "superseded_row (utc_now E L) b" "\<lambda>r. mr_status r = RActive" sub "set ids"]
      rewrite_sound [OF _ rows(2) new_rows(1) supersede_log, of E N P "{sub} \<times> set ids"]
    unfolding ledger_inv_def supersede_log by (simp add: rows(2))
qed

lemma tombstone_log:
  fixes L :: "'a ledger"
  shows "lg_log (fst (tombstone_records E sub ids L)) = lg_log L"
proof -
  have own: "lg_log (redact_own_proposal raw M) = lg_log M" for raw and M :: "'a ledger"
    by (simp add: redact_own_proposal_def on_typed_def split: option.splits)
  have one: "lg_log (fst (tombstone_one sub now i S)) = lg_log (fst S)" for now i and S :: "'a ledger \<times> purge_state"
    by (cases S) (simp add: tombstone_one_def own update_records_def update_units_def delete_fts_def delete_search_terms_def
        on_typed_def Let_def split: option.splits)
  have rows: "lg_log (fst (fold (tombstone_one sub now) ids S)) = lg_log (fst S)" for now and S :: "'a ledger \<times> purge_state"
    by (induction ids arbitrary: S) (simp_all add: one)
  have src: "lg_log (fst (fold (purge_unit_source E) xs S)) = lg_log (fst S)" for xs and S :: "'a ledger \<times> string list"
    using fold_same_memory [of xs fst "purge_unit_source E" S, OF purge_unit_source_same] by (simp add: same_memory_def)
  have eps: "lg_log (fst (purge_episodes E sub e M)) = lg_log M" for e M
    using purge_episodes_same [of M E sub e] by (simp add: same_memory_def)
  let ?p0 = "\<lparr>pu_changed = [], pu_sources = [], pu_typed = []\<rparr>"
  obtain L1 p where f1: "fold (tombstone_one sub (utc_now E L)) ids (tick L, ?p0) = (L1, p)" by fastforce
  let ?e1 = "if pu_changed p = [] then [] else free_episodes sub p L1"
  obtain L2 eps2 where f2: "fold (purge_unit_source E) (pu_sources p) (L1, ?e1) = (L2, eps2)" by fastforce
  have "lg_log L1 = lg_log (tick L)" using rows [of "utc_now E L" "(tick L, ?p0)"] unfolding f1 fst_conv .
  then have "lg_log L1 = lg_log L" by (simp add: tick_def)
  moreover have "lg_log L2 = lg_log L1" using src [of "pu_sources p" "(L1, ?e1)"] unfolding f2 by simp
  ultimately have "lg_log (fst (if dedup eps2 = [] then (L2, []) else purge_episodes E sub (dedup eps2) L2)) = lg_log L"
    using eps by (simp split: if_splits)
  then show ?thesis
    unfolding tombstone_records_def Let_def f1 f2 case_prod_conv by (simp add: case_prod_beta split: if_splits)
qed

lemma tombstone_inv:
  assumes "ledger_inv E {} {} {} L" and "distinct ids"
  shows "ledger_inv E {} ({sub} \<times> set (fst (snd (tombstone_records E sub ids L)))) {} (fst (tombstone_records E sub ids L))"
proof -
  let ?L = "fst (tombstone_records E sub ids L)"
  note rows = tombstone_records_rows [OF inv_tables [OF assms(1)] assms(2), of E sub]
  have recs: "lg_records ?L = rewrite sub (set ids) live (emptied_row (utc_now E L)) (lg_records L)"
    and ch: "fst (snd (tombstone_records E sub ids L)) = filter (\<lambda>i. \<exists>r\<in>set (lg_records L). row_of sub i r \<and> live r) ids"
    and ok: "tables_ok ?L" using rows by blast+
  have "sound E {} ({} \<union> {sub} \<times> set (fst (snd (tombstone_records E sub ids L)))) ?L" if "sound E {} {} L"
    by (rule rewrite_sound [OF that recs new_rows(2) tombstone_log]) (auto simp: ch row_of_def)
  moreover have "slots_ok ({} - {sub} \<times> set ids) (lg_records ?L)"
    unfolding recs by (rule rewrite_slots) (use assms(1) in \<open>auto simp: ledger_inv_def live_def\<close>)
  ultimately show ?thesis using assms(1) ok unfolding ledger_inv_def tombstone_log by simp
qed

end
