(* ===== verification/Memory_Steps.thy ===== *)
theory Memory_Steps
  imports Memory_Reachable
begin

text \<open>
  Every operation of the memory ledger keeps the invariant, and the reachable ledgers: any sequence of operations,
  changes of the other tables and events of the other parts.
\<close>

section \<open>Payloads\<close>

lemma jstrings_strs: "jget pl k = Some (strs_json ids) \<Longrightarrow> set (jstrings pl k) = set ids - {[]}"
  by (induction ids) (auto simp: jstrings_def strs_json_def split: if_splits)

lemma changed_in_keys:
  "set (jstrings pl ''supersedes'') \<subseteq> set (changed_in ty re pl)"
  "set (jstrings pl ''purged_record_ids'') \<subseteq> set (changed_in ty re pl)"
  "set (jstrings pl ''duplicates_superseded'') \<subseteq> set (changed_in ty re pl)"
  "set (jstrings pl ''fact_key_repaired'') \<subseteq> set (changed_in ty re pl)"
  by (auto simp: changed_in_def)

lemma settles_key:
  assumes "jget pl k = Some (strs_json ids)" and "set (jstrings pl k) \<subseteq> set (changed_in ty re pl)"
  shows "settles sub (changed_in ty re pl) ({sub} \<times> set ids) {}"
  using assms(2) unfolding settles_all jstrings_strs [OF assms(1)] by blast

lemma get_record_SomeD: "get_record L sub rid = Some r \<Longrightarrow> r \<in> set (lg_records L) \<and> row_of sub rid r"
  unfolding get_record_def row_of_def by (rule find_SomeD)

lemma active_for_key:
  "set (active_records_for_fact_key L sub k ex) =
     (if truthy k then {r \<in> set (actives (lg_records L)). mr_subject_id r = sub \<and> mr_fact_key r = k \<and> ex \<noteq> Some (mr_id r)}
      else {})"
  by (auto simp: active_records_for_fact_key_def list_records_def)

lemma graph_cong [simp]:
  "ledger_inv E N P X (fst (graph_supersede E sub ids b L)) = ledger_inv E N P X L"
  "ledger_inv E N P X (fst (graph_index E r L)) = ledger_inv E N P X L"
  "ledger_inv E N P X (L\<lparr>lg_graph := g\<rparr>) = ledger_inv E N P X L"
  by (rule inv_cong, simp, simp add: graph_supersede_def graph_index_def split_beta)+

section \<open>Storing\<close>

lemma insert_inv:
  assumes inv: "ledger_inv E {} P {} L" and ins: "insert_record E sub a L = Inr (L', rid)" and good: "good_args a"
    and X: "ra_status a = RActive \<Longrightarrow> truthy (ra_fact_key a) \<Longrightarrow>
        key_of ` {r \<in> set (actives (lg_records L)). mr_subject_id r = sub \<and> mr_fact_key r = ra_fact_key a} \<subseteq> X"
  shows "ledger_inv E {(sub, rid)} P X L'"
proof -
  from insert_record_rows [OF ins] obtain now where rid: "rid \<notin> mr_id ` set (lg_records L)" "rid \<noteq> []"
    and log: "lg_log L' = lg_log L" and recs: "lg_records L' = lg_records L @ [record_of rid sub now a]" by blast
  let ?r = "record_of rid sub now a"
  have r: "mr_id ?r = rid" "mr_subject_id ?r = sub" "mr_status ?r = ra_status a" "mr_fact_key ?r = ra_fact_key a"
    by (simp_all add: record_of_def)
  have ev: "events_of L' s = events_of L s" for s by (simp add: events_of_def log)
  have "sound E {(sub, rid)} P L'" if s: "sound E {} P L"
    using s rid unfolding sound_def recs by (auto simp: announced_def recorded_def ev key_of_def r)
  moreover have "slots_ok X (lg_records L')"
    unfolding slots_ok_def
  proof (intro ballI impI)
    fix a1 b1 assume ab: "a1 \<in> set (actives (lg_records L'))" "b1 \<in> set (actives (lg_records L'))" "same_slot a1 b1"
    have old: "x \<in> set (actives (lg_records L)) \<or> x = ?r \<and> ra_status a = RActive" if "x \<in> set (actives (lg_records L'))" for x
      using that by (auto simp: recs r)
    have near: "key_of x \<in> X" if "x \<in> set (actives (lg_records L))" "ra_status a = RActive" "same_slot x ?r \<or> same_slot ?r x" for x
      using X that by (auto simp: same_slot_def r image_subset_iff)
    have "slots_ok {} (lg_records L)" using inv by (simp add: ledger_inv_def)
    then show "a1 = b1 \<or> key_of a1 \<in> X \<or> key_of b1 \<in> X"
      using old [OF ab(1)] old [OF ab(2)] near ab(3) unfolding slots_ok_def by blast
  qed
  ultimately show ?thesis using inv insert_record_ok [OF ins inv_tables [OF inv] good] by (simp add: ledger_inv_def log)
qed

lemma good_initial: "good_args a" if "ra_status a = initial_status (ra_trust_tier a)"
  using that by (auto simp: good_args_def initial_status_def)

lemma store_candidate_inv:
  assumes inv: "ledger_inv E {} {} {} L" and st: "store_candidate E sub session turn eid c (L, rs, ds) = Inr (L', out)"
  shows "ledger_inv E {} {} {} L'"
proof -
  define status where "status = initial_status (cf_trust_tier c)"
  define old where "old = map mr_id (if status = RActive then active_records_for_fact_key L sub (cf_fact_key c) None else [])"
  define args where "args = \<lparr>ra_content = cf_content c, ra_source_type = cf_source_type c, ra_trust_tier = cf_trust_tier c,
                    ra_session_id = session, ra_turn_id = turn, ra_episode_id = Some eid, ra_confidence = Some (cf_confidence c),
                    ra_scope = cf_scope c, ra_status = status,
                    ra_supersedes_id = (case old of [] \<Rightarrow> None | i # _ \<Rightarrow> Some i), ra_fact_key = cf_fact_key c,
                    ra_raw = JObj []\<rparr>"
  define ty where "ty = (if status = RActive then ''memory.record_created'' else ''memory.record_quarantined'')"
  note code = store_candidate_def [of E sub session turn eid c "(L, rs, ds)", unfolded case_prod_conv, folded status_def]
  show ?thesis
  proof (cases "find_duplicate_record L sub (cf_content c) (if status = RActive then [RActive] else [RActive, RQuarantined])")
    case (Some d)
    have "ledger_inv E {} {} {} (fst (log_event E sub ''memory.duplicate_ignored'' pl ac se tu re L))" for pl ac se tu re
      by (rule log_event_inv [OF inv]) (simp_all add: creation_events_def)
    then show ?thesis using st Some unfolding code Let_def by auto
  next
    case None
    have st': "bind_res (insert_record E sub args L) (\<lambda>(L1, rid).
       let L2 = supersede_records E sub old rid L1 in
       case get_record L2 sub rid of
         None \<Rightarrow> Inl MAssertionError
       | Some stored \<Rightarrow>
          (let L3 = fst (log_event E sub ty (created_payload E eid c status old stored) ''system'' session turn (Some rid) L2);
               (L4, ms1) = graph_supersede E sub old rid L3; (L5, ms2) = graph_index E stored L4
           in Inr (audit_graph_mutations E sub session turn (Some rid) (ms1 @ ms2) L5, rs @ [stored], ds))) = Inr (L', out)"
      using st unfolding code None Let_def [of status] option.case
      unfolding old_def [symmetric] ty_def [symmetric] Let_def [of old] args_def [symmetric] .
    then obtain L1 rid where ins: "insert_record E sub args L = Inr (L1, rid)"
      and st2: "(case get_record (supersede_records E sub old rid L1) sub rid of
         None \<Rightarrow> Inl MAssertionError
       | Some stored \<Rightarrow>
          (let L3 = fst (log_event E sub ty (created_payload E eid c status old stored) ''system'' session turn (Some rid)
                           (supersede_records E sub old rid L1));
               (L4, ms1) = graph_supersede E sub old rid L3; (L5, ms2) = graph_index E stored L4
           in Inr (audit_graph_mutations E sub session turn (Some rid) (ms1 @ ms2) L5, rs @ [stored], ds))) = Inr (L', out)"
      unfolding bind_res_eq_Inr by (auto simp: Let_def)
    let ?L2 = "supersede_records E sub old rid L1"
    from st2 obtain stored where got: "get_record ?L2 sub rid = Some stored" by (auto split: option.splits)
    have L': "L' = (let L3 = fst (log_event E sub ty (created_payload E eid c status old stored) ''system'' session turn (Some rid) ?L2);
                (L4, ms1) = graph_supersede E sub old rid L3; (L5, ms2) = graph_index E stored L4
              in audit_graph_mutations E sub session turn (Some rid) (ms1 @ ms2) L5)"
      using st2 by (simp add: got Let_def split_beta)
    have "ledger_inv E {(sub, rid)} {} ({sub} \<times> set old) L1"
      by (rule insert_inv [OF inv ins good_initial])
        (auto simp: active_for_key key_of_def image_iff args_def status_def old_def)
    from supersede_inv [OF this, of sub old rid]
    have two: "ledger_inv E {(sub, rid)} ({sub} \<times> set old) {} ?L2" by simp
    let ?pl = "created_payload E eid c status old stored"
    have "ledger_inv E {} {} {} (fst (log_event E sub ty ?pl ''system'' session turn (Some rid) ?L2))"
    proof (rule creation_event_inv [OF two])
      show "ty \<in> set creation_events" by (simp add: creation_events_def ty_def)
      show "settles sub (changed_in ty (Some rid) ?pl) ({sub} \<times> set old) {}"
        by (rule settles_key [OF _ changed_in_keys(1)]) (simp add: created_payload_def)
    qed (use get_record_SomeD [OF got] in \<open>simp_all add: created_payload_def jstr_opt_def\<close>)
    then show ?thesis unfolding L' Let_def split_beta
      by (intro audited_inv) simp_all
  qed
qed

lemma store_candidates_inv:
  "ledger_inv E {} {} {} L \<Longrightarrow> store_candidates E sub session turn eid cs (L, rs, ds) = Inr (L', out) \<Longrightarrow> ledger_inv E {} {} {} L'"
proof (induction cs arbitrary: L rs ds)
  case (Cons c cs)
  from Cons.prems(2) obtain L1 rs1 ds1 where one: "store_candidate E sub session turn eid c (L, rs, ds) = Inr (L1, rs1, ds1)"
    and rest: "store_candidates E sub session turn eid cs (L1, rs1, ds1) = Inr (L', out)" by auto
  show ?case by (rule Cons.IH [OF store_candidate_inv [OF Cons.prems(1) one] rest])
qed simp

text \<open>An event that announces nothing, when nothing is pending.\<close>

lemma note_inv: "ledger_inv E {} {} {} L \<Longrightarrow> ty \<notin> set creation_events \<Longrightarrow> ledger_inv E {} {} {} (fst (log_event E sub ty pl ac se tu re L))"
  by (rule log_event_inv [OF _ _ settles_refl])

lemma episode_inv:
  assumes "insert_episode E sub se tu m src raw L = Inr (L', eid)"
  shows "ledger_inv E N P X L' = ledger_inv E N P X L"
  by (rule inv_cong [OF core_episode [OF assms]])
    (use assms in \<open>auto simp: insert_episode_def Let_def tick_def split: if_splits\<close>)

lemma ingest_inv:
  assumes inv: "ledger_inv E {} {} {} L" and ing: "ingest E sub a txt source interpreted L = Inr (L', out)"
  shows "ledger_inv E {} {} {} L'"
proof -
  let ?se = "rm_session_id a" and ?tu = "turn_id (rm_turn_id a)"
  from ing obtain L1 eid where ep: "insert_episode E sub ?se ?tu txt source (raw_of a) L = Inr (L1, eid)"
    by (auto simp: ingest_def Let_def)
  have one: "ledger_inv E {} {} {} L1" using inv episode_inv [OF ep] by simp
  have noted: "ledger_inv E {} {} {} (fst (log_event E sub ''episode.ingested'' pl ac se tu re M))"
    "ledger_inv E {} {} {} (fst (log_event E sub ''memory.semantic_interpretation_received'' pl ac se tu re M))"
    "ledger_inv E {} {} {} (fst (log_event E sub ''memory.untrusted_source_ignored'' pl ac se tu re M))"
    if "ledger_inv E {} {} {} M" for pl ac se tu re M
    by (rule note_inv [OF that], simp add: creation_events_def)+
  let ?L2 = "fst (log_event E sub ''episode.ingested''
                   (JObj [(''episode_id'', JStr eid), (''source_type'', JStr source), (''message_sha256'', JStr (sha E txt))])
                   (rm_actor a) ?se ?tu None L1)"
  let ?three = "case interpreted of
                 Some c \<Rightarrow>
                   (fst (log_event E sub ''memory.semantic_interpretation_received''
                      (JObj ((''episode_id'', JStr eid) # interpretation_payload E a txt c)) (rm_actor a) ?se ?tu None ?L2), [c])
               | None \<Rightarrow> (?L2, extract_facts E txt source)"
  obtain L3 cs0 where three: "?three = (L3, cs0)" by fastforce
  have inv3: "ledger_inv E {} {} {} L3" using three noted(1) [OF one] noted(2) [OF noted(1) [OF one]] by (auto split: option.splits)
  from ing obtain L4 records dups where st: "store_candidates E sub ?se ?tu eid (keep_note a txt source cs0) (L3, [], []) = Inr (L4, records, dups)"
    and L': "L' = (if keep_note a txt source cs0 = [] \<and> source \<noteq> ''user_message''
                       then fst (log_event E sub ''memory.untrusted_source_ignored''
                              (JObj [(''episode_id'', JStr eid), (''source_type'', JStr source)]) ''system'' ?se ?tu None L4)
                       else L4)"
    unfolding ingest_def Let_def ep bind_res_simps case_prod_conv three bind_res_eq_Inr by auto
  show ?thesis using noted(3) store_candidates_inv [OF inv3 st] unfolding L' by simp
qed

lemma remember_body_inv:
  assumes inv: "ledger_inv E {} {} {} L" and rem: "remember_body E sub a L = Inr (L', out)"
  shows "ledger_inv E {} {} {} L'"
proof -
  have noted: "ledger_inv E {} {} {} (fst (log_event E sub ''memory.content_refused'' pl ac se tu re L))"
    "ledger_inv E {} {} {} (fst (log_event E sub ''memory.semantic_interpretation_duplicate'' pl ac se tu re L))" for pl ac se tu re
    by (rule note_inv [OF inv], simp add: creation_events_def)+
  show ?thesis using rem noted ingest_inv [OF inv]
    by (auto simp: remember_body_def Let_def split: option.splits if_splits)
qed

section \<open>Promotion\<close>

lemma promote_record_inv:
  assumes inv: "ledger_inv E {} {} {} L" and pro: "promote_record E sub rid TRUST_TIER_CONFIRMED L = (L', Some r)"
  shows "ledger_inv E {} {(sub, rid)} ({sub} \<times> set (map mr_id (active_records_for_fact_key L' sub (mr_fact_key r) (Some rid)))) L'"
proof -
  note rows = promote_record_rows [OF pro inv_tables [OF inv], simplified]
  let ?g = "promoted_row (utc_now E L) TRUST_TIER_CONFIRMED"
  have log: "lg_log L' = lg_log L" and tables: "tables_ok L'"
    and recs: "lg_records L' = rewrite sub {rid} (\<lambda>r. mr_status r = RQuarantined) ?g (lg_records L)"
    and r: "r \<in> set (lg_records L')" "row_of sub rid r"
    using rows by auto
  have "sound E {} ({} \<union> {(sub, rid)}) L'" if "sound E {} {} L"
    by (rule rewrite_sound [OF that recs new_rows(3) log]) auto
  moreover have "slots_ok ({sub} \<times> set (map mr_id (active_records_for_fact_key L' sub (mr_fact_key r) (Some rid)))) (lg_records L')"
    unfolding slots_ok_def
  proof (intro ballI impI)
    fix a b assume ab: "a \<in> set (actives (lg_records L'))" "b \<in> set (actives (lg_records L'))" "same_slot a b"
    have old: "x \<in> set (actives (lg_records L)) \<or> x = r" if x: "x \<in> set (actives (lg_records L'))" for x
    proof (cases "mr_id x = rid")
      case True
      then show ?thesis using same_id [OF tables_distinct [OF tables] r(1)] x r(2) by (auto simp: row_of_def)
    next
      case False
      then show ?thesis using x by (auto simp: recs rewrite_def split: if_splits)
    qed
    have near: "key_of x \<in> {sub} \<times> set (map mr_id (active_records_for_fact_key L' sub (mr_fact_key r) (Some rid)))"
      if "x \<in> set (actives (lg_records L'))" "same_slot x r \<or> same_slot r x" "x \<noteq> r" for x
    proof -
      have "mr_id x \<noteq> rid" using same_id [OF tables_distinct [OF tables] r(1)] that r(2) by (auto simp: row_of_def)
      then show ?thesis using that r(2) by (auto simp: active_for_key key_of_def same_slot_def row_of_def)
    qed
    have "slots_ok {} (lg_records L)" using inv by (simp add: ledger_inv_def)
    then show "a = b \<or> key_of a \<in> {sub} \<times> set (map mr_id (active_records_for_fact_key L' sub (mr_fact_key r) (Some rid))) \<or>
        key_of b \<in> {sub} \<times> set (map mr_id (active_records_for_fact_key L' sub (mr_fact_key r) (Some rid)))"
      using old [OF ab(1)] old [OF ab(2)] near [OF ab(1)] near [OF ab(2)] ab(3) unfolding slots_ok_def by blast
  qed
  ultimately show ?thesis using inv tables by (simp add: ledger_inv_def log)
qed

lemma promote_body_inv:
  assumes inv: "ledger_inv E {} {} {} L" and st: "promote_body E sub rid session t actor L = Inr (L', out)"
  shows "ledger_inv E {} {} {} L'"
proof -
  obtain L1 found where one: "promote_record E sub rid TRUST_TIER_CONFIRMED L = (L1, found)" by fastforce
  from st one obtain r where found: "found = Some r" by (cases found) (simp_all add: promote_body_def Let_def)
  let ?media = "get_media_observation_for_record L sub rid"
  let ?lineage = "case ?media of None \<Rightarrow> []
                          | Some m \<Rightarrow> active_media_records_for_lineage L1 sub (mo_lineage_sha256 m) (Some rid)"
  let ?old = "map mr_id (active_records_for_fact_key L1 sub (mr_fact_key r) (Some rid))"
  define old where "old = dedup (?old @ map (mr_id \<circ> fst) ?lineage)"
  let ?pl = "JObj ([(''trust_tier'', JStr (mr_trust_tier r)), (''fact_key'', opt_str_json (mr_fact_key r)),
                          (''supersedes'', strs_json old)] @
                  (case ?media of None \<Rightarrow> []
                   | Some m \<Rightarrow> [(''media_lineage_sha256'', JStr (mo_lineage_sha256 m)),
                                (''superseded_observation_ids'', strs_json (map snd ?lineage))]))"
  let ?L2 = "supersede_records E sub old rid L1"
  let ?L3 = "fst (log_event E sub ''memory.record_promoted'' ?pl actor session (turn_id t) (Some rid) ?L2)"
  from st obtain promoted where L': "L' = (let (L4, ms1) = graph_supersede E sub old rid ?L3; (L5, ms2) = graph_index E promoted L4
                   in audit_graph_mutations E sub session (turn_id t) (Some rid) (ms1 @ ms2) L5)"
    unfolding promote_body_def one found Let_def old_def case_prod_conv option.case
    by (auto simp: split_beta split: option.splits)
  have "set ?old \<subseteq> set old" by (auto simp: old_def)
  then have gone: "({sub} \<times> set ?old) - {sub} \<times> set old = {}" by blast
  from supersede_inv [OF promote_record_inv [OF inv one [unfolded found]], of sub old rid]
  have two: "ledger_inv E {} ({(sub, rid)} \<union> {sub} \<times> set old) {} ?L2" unfolding gone .
  have sup: "set (jstrings ?pl ''supersedes'') = set old - {[]}" by (rule jstrings_strs) simp
  have "settles sub (changed_in ''memory.record_promoted'' (Some rid) ?pl) ({(sub, rid)} \<union> {sub} \<times> set old) {}"
    using sup changed_in_keys(1) [of ?pl "''memory.record_promoted''" "Some rid"]
    by (auto simp: settles_def changed_in_def or_empty_def)
  then have "ledger_inv E {} {} {} ?L3" by (intro log_event_inv [OF two]) (simp_all add: creation_events_def)
  then show ?thesis unfolding L' Let_def split_beta by (intro audited_inv) simp_all
qed

section \<open>Deletion\<close>

lemma media_inv: "ledger_inv E N P X (fst (tombstone_media_observations_for_records E' sub ids L)) = ledger_inv E N P X L"
  using tombstone_media_same [of L E' sub ids] by (intro inv_cong core_same_memory) (simp_all add: same_memory_def)

lemma purge_record_ids_inv:
  assumes inv: "ledger_inv E {} {} {} L" and st: "purge_record_ids E sub rids session turn L = Inr (L', c)"
  shows "ledger_inv E {} ({sub} \<times> set (cl_record_ids c)) {} L'"
proof -
  let ?ids = "dedup rids"
  obtain L1 purged eps where one: "tombstone_records E sub ?ids L = (L1, purged, eps)" by (metis prod_cases3)
  obtain g ms where gm: "gr_tombstone (me_graph E) sub purged (lg_graph L1) = (g, ms)" by fastforce
  let ?L2 = "audit_graph_mutations E sub session turn None ms (L1\<lparr>lg_graph := g\<rparr>)"
  have L': "L' = fst (tombstone_media_observations_for_records E sub ?ids ?L2)" and c: "cl_record_ids c = purged"
    using st unfolding purge_record_ids_def Let_def one gm case_prod_conv
    by (auto simp: split_beta split: option.splits)
  have "mutations_ok E ms" using gm by (auto simp: mutations_ok_def env_ok_def) (metis snd_conv)
  moreover have "ledger_inv E {} ({sub} \<times> set purged) {} L1"
    using tombstone_inv [OF inv distinct_dedup, of sub rids] by (simp add: one)
  ultimately have "ledger_inv E {} ({sub} \<times> set purged) {} ?L2" by (intro audited_inv) simp_all
  then show ?thesis unfolding L' c media_inv .
qed

lemma purged_event_inv:
  assumes "ledger_inv E {} ({sub} \<times> set (cl_record_ids c)) {} L" and "ty \<notin> set creation_events"
    and "jget pl ''purged_record_ids'' = Some (strs_json (cl_record_ids c))"
  shows "ledger_inv E {} {} {} (fst (log_event E sub ty pl ac se tu re L))"
  by (rule log_event_inv [OF assms(1,2) settles_key [OF assms(3) changed_in_keys(2)]])

lemma reject_body_inv:
  assumes inv: "ledger_inv E {} {} {} L" and st: "reject_body E sub rid session t actor L = Inr (L', out)"
  shows "ledger_inv E {} {} {} L'"
proof -
  from st obtain r where got: "get_record L sub rid = Some r" by (auto simp: reject_body_def split: option.splits)
  with st obtain L1 c where p: "purge_record_ids E sub [rid] session (turn_id t) L = Inr (L1, c)"
    by (auto simp: reject_body_def split: if_splits)
  have L': "L' = fst (log_event E sub ''memory.record_rejected''
                   (JObj ([(''content_sha256'', JStr (sha E (mr_content r))), (''prior_status'', JStr ''quarantined'')] @
                      purged_fields c @ [(''media_cleanup'', media_json c), (''semantic_index_cleanup'', index_json c)]))
                   actor session (turn_id t) (Some rid) L1)"
    using st by (auto simp: reject_body_def got p Let_def split_beta split: option.splits if_splits)
  show ?thesis unfolding L'
    by (rule purged_event_inv [OF purge_record_ids_inv [OF inv p]]) (simp_all add: creation_events_def purged_fields_def)
qed

lemma forget_record_body_inv:
  assumes inv: "ledger_inv E {} {} {} L" and st: "forget_record_body E sub rid actor L = Inr (L', out)"
  shows "ledger_inv E {} {} {} L'"
proof -
  from st obtain L1 c where p: "purge_record_ids E sub [rid] None None L = Inr (L1, c)"
    by (auto simp: forget_record_body_def split: option.splits if_splits)
  have L': "L' = fst (log_event E sub ''memory.forget''
                   (JObj (purged_fields c @ [(''semantic_index_cleanup'', index_json c), (''exact_record'', JBool True)]))
                   actor None None (Some rid) L1)"
    using st by (auto simp: forget_record_body_def p Let_def split_beta split: option.splits if_splits)
  show ?thesis unfolding L'
    by (rule purged_event_inv [OF purge_record_ids_inv [OF inv p]]) (simp_all add: creation_events_def purged_fields_def)
qed

lemma forget_body_inv:
  assumes inv: "ledger_inv E {} {} {} L" and st: "forget_body E sub selector utterance session t actor L = Inr (L', out)"
  shows "ledger_inv E {} {} {} L'"
proof -
  have refused: "ledger_inv E {} {} {} (fst (log_event E sub ''memory.forget_rejected'' pl ac se tu re L))" for pl ac se tu re
    by (rule note_inv [OF inv]) (simp add: creation_events_def)
  have forgot: "ledger_inv E {} {} {} (fst (log_event E sub ''memory.forget'' (JObj ((k, v) # purged_fields c @ more)) ac se tu re L1))"
    if "purge_record_ids E sub ids se tu L = Inr (L1, c)" "k \<noteq> ''purged_record_ids''" for k v c more ac se tu re ids L1
    by (rule purged_event_inv [OF purge_record_ids_inv [OF inv that(1)]])
      (use that(2) in \<open>simp_all add: creation_events_def purged_fields_def\<close>)
  show ?thesis using st refused forgot unfolding forget_body_def Let_def
    by (auto simp: split_beta split: option.splits if_splits)
qed

section \<open>The other operations\<close>

lemma exclusion_log:
  "lg_log (set_retrieval_excluded_row E sub rid x ac reason L) = lg_log L"
  "lg_log (set_typed_exclusion_identity E sub w rid i x L) = lg_log L"
  by (simp_all add: set_retrieval_excluded_row_def set_typed_exclusion_identity_def Let_def tick_def)

lemma set_retrieval_excluded_body_inv:
  assumes inv: "ledger_inv E {} {} {} L" and st: "set_retrieval_excluded_body E sub rid x reason actor L = Inr (L', out)"
  shows "ledger_inv E {} {} {} L'"
proof -
  have base: "ledger_inv E {} {} {} (set_retrieval_excluded_row E sub rid x actor reason L)"
    using inv by (simp add: inv_cong [OF core_frame(5) exclusion_log(1)])
  then have both: "ledger_inv E {} {} {} (set_typed_exclusion_identity E sub w rid i x
      (set_retrieval_excluded_row E sub rid x actor reason L))" for w i
    by (simp add: inv_cong [OF core_frame(6) exclusion_log(2)])
  have noted: "ledger_inv E {} {} {} (fst (log_event E sub (if x then ''memory.retrieval_excluded'' else ''memory.retrieval_restored'')
       pl ac se tu re M))" if "ledger_inv E {} {} {} M" for pl ac se tu re M
    by (rule note_inv [OF that]) (simp add: creation_events_def)
  show ?thesis using st noted [OF base] noted [OF both] unfolding set_retrieval_excluded_body_def Let_def
    by (auto split: option.splits if_splits json.splits)
qed

lemma correct_record_body_inv:
  assumes inv: "ledger_inv E {} {} {} L" and st: "correct_record_body E sub rid txt reason actor L = Inr (L', out)"
  shows "ledger_inv E {} {} {} L'"
proof -
  from st obtain old where old: "get_record L sub rid = Some old" by (auto simp: correct_record_body_def split: option.splits)
  from st obtain L1 result where rem: "remember_body E sub (correction_args old (py_strip txt) actor) L = Inr (L1, result)"
    by (auto simp: correct_record_body_def old Let_def split: if_splits)
  obtain replacement more where "re_records result = replacement # more"
    using st by (cases "re_records result") (auto simp: correct_record_body_def old rem Let_def split: if_splits)
  then obtain nid where L': "L' = (let L2 = supersede_records E sub [rid] nid L1;
                        (L3, ms) = graph_supersede E sub [rid] nid L2;
                        L4 = audit_graph_mutations E sub None None None ms L3
      in fst (log_event E sub ''memory.record_corrected''
               (JObj [(''replaces_record_id'', JStr rid), (''reason'', JStr (take 500 reason))]) actor None None (Some nid) L4))"
    using st by (auto simp: correct_record_body_def old rem Let_def split_beta split: if_splits)
  have "ledger_inv E {} ({(sub, rid)}) {} (supersede_records E sub [rid] nid L1)"
    using supersede_inv [OF remember_body_inv [OF inv rem], of sub "[rid]" nid] by simp
  moreover have "settles sub (changed_in ''memory.record_corrected'' (Some nid)
      (JObj [(''replaces_record_id'', JStr rid), (''reason'', JStr (take 500 reason))])) {(sub, rid)} {}"
    by (simp add: settles_def changed_in_def jstr_opt_def or_empty_def)
  ultimately show ?thesis unfolding L' Let_def split_beta
    by (intro log_event_inv [OF audited_inv]) (simp_all add: creation_events_def)
qed

lemma propose_one_inv:
  assumes inv: "ledger_inv E {} {} {} L" and st: "propose_one E sub known proposer session p (L, visible, out) = Inr (L', v', out')"
  shows "ledger_inv E {} {} {} L'"
proof -
  define content where "content = py_strip (case fp_content p of None \<Rightarrow> [] | Some s \<Rightarrow> s)"
  define key where "key = (if truthy (fp_fact_key p) then map_option (py_strip \<circ> lower_str) (fp_fact_key p) else None)"
  define args where "args = \<lparr>ra_content = content, ra_source_type = ''derived'', ra_trust_tier = ''derived'', ra_session_id = session,
                    ra_turn_id = None, ra_episode_id = None, ra_confidence = Some (fp_confidence p), ra_scope = ''user_private'',
                    ra_status = RQuarantined, ra_supersedes_id = None, ra_fact_key = key,
                    ra_raw = JObj [(''evidence'', strs_json (fp_evidence p)), (''proposer'', JStr proposer)]\<rparr>"
  have "L' = L \<or> (\<exists>L1 rid r. insert_record E sub args L = Inr (L1, rid) \<and> get_record L1 sub rid = Some r \<and>
      L' = (let L2 = fst (log_event E sub ''memory.record_quarantined''
                              (JObj [(''source_type'', JStr ''derived''), (''trust_tier'', JStr ''derived''),
                                 (''status'', JStr ''quarantined''), (''fact_key'', opt_str_json key),
                                 (''confidence'', JNum (fp_confidence p)), (''scope'', JStr ''user_private''),
                                 (''evidence'', strs_json (fp_evidence p)), (''content_sha256'', JStr (sha E content)),
                                 (''record_integrity_sha256'', JStr (record_integrity_sha256 E r))])
                              proposer session None (Some rid) L1);
                            (L3, ms) = graph_index E r L2
                        in audit_graph_mutations E sub session None (Some rid) ms L3))"
    using st unfolding propose_one_def case_prod_conv Let_def content_def [symmetric] key_def [symmetric] args_def [symmetric]
    by (auto simp: split_beta split: option.splits if_splits)
  then show ?thesis
  proof (elim disjE exE conjE)
    fix L1 rid r
    assume ins: "insert_record E sub args L = Inr (L1, rid)" and got: "get_record L1 sub rid = Some r"
      and L': "L' = (let L2 = fst (log_event E sub ''memory.record_quarantined''
                              (JObj [(''source_type'', JStr ''derived''), (''trust_tier'', JStr ''derived''),
                                 (''status'', JStr ''quarantined''), (''fact_key'', opt_str_json key),
                                 (''confidence'', JNum (fp_confidence p)), (''scope'', JStr ''user_private''),
                                 (''evidence'', strs_json (fp_evidence p)), (''content_sha256'', JStr (sha E content)),
                                 (''record_integrity_sha256'', JStr (record_integrity_sha256 E r))])
                              proposer session None (Some rid) L1);
                            (L3, ms) = graph_index E r L2
                        in audit_graph_mutations E sub session None (Some rid) ms L3)"
    have "ledger_inv E {(sub, rid)} {} {} L1"
      by (rule insert_inv [OF inv ins]) (simp_all add: args_def good_args_def)
    then have "ledger_inv E {} {} {} (fst (log_event E sub ''memory.record_quarantined''
                              (JObj [(''source_type'', JStr ''derived''), (''trust_tier'', JStr ''derived''),
                                 (''status'', JStr ''quarantined''), (''fact_key'', opt_str_json key),
                                 (''confidence'', JNum (fp_confidence p)), (''scope'', JStr ''user_private''),
                                 (''evidence'', strs_json (fp_evidence p)), (''content_sha256'', JStr (sha E content)),
                                 (''record_integrity_sha256'', JStr (record_integrity_sha256 E r))])
                              proposer session None (Some rid) L1))"
      using get_record_SomeD [OF got]
      by (intro creation_event_inv) (auto simp: creation_events_def jstr_opt_def)
    then show ?thesis unfolding L' Let_def split_beta by (intro audited_inv) simp_all
  qed (use inv in simp)
qed

lemma propose_all_inv:
  "ledger_inv E {} {} {} L \<Longrightarrow> propose_all E sub known proposer session ps (L, v, out) = Inr (L', v', out') \<Longrightarrow> ledger_inv E {} {} {} L'"
proof (induction ps arbitrary: L v out)
  case (Cons p ps)
  from Cons.prems(2) obtain L1 v1 out1 where one: "propose_one E sub known proposer session p (L, v, out) = Inr (L1, v1, out1)"
    and rest: "propose_all E sub known proposer session ps (L1, v1, out1) = Inr (L', v', out')" by auto
  show ?case by (rule Cons.IH [OF propose_one_inv [OF Cons.prems(1) one] rest])
qed simp

lemma collapse_inv:
  assumes "ledger_inv E {} P {} (fst S)" and "mutations_ok E (snd (snd S))" and S': "collapse E sub g S = S'"
  shows "ledger_inv E {} (P \<union> {sub} \<times> set (fst (snd S'))) {} (fst S') \<and> mutations_ok E (snd (snd S')) \<and>
     set (fst (snd S)) \<subseteq> set (fst (snd S'))"
proof (cases S)
  case (fields L ids ms)
  let ?older = "map mr_id (butlast (sort_key row_order g))" and ?by = "mr_id (last (sort_key row_order g))"
  have weaken: "ledger_inv E {} P' {} M \<Longrightarrow> ledger_inv E {} (P' \<union> Q) {} M" for P' Q M
    by (auto simp: ledger_inv_def sound_def)
  show ?thesis
  proof (cases "?older = []")
    case True
    then have "S' = S" using S' fields by (simp add: collapse_def Let_def)
    then show ?thesis using assms weaken by blast
  next
    case False
    have "ledger_inv E {} (P \<union> {sub} \<times> set ?older) ({} - {sub} \<times> set ?older) (supersede_records E sub ?older ?by L)"
      using assms(1) fields by (intro supersede_inv) simp
    then have "ledger_inv E {} (P \<union> {sub} \<times> set ?older) {} (supersede_records E sub ?older ?by L)" by simp
    from weaken [OF this, of "{sub} \<times> set ids"]
    have "ledger_inv E {} ((P \<union> {sub} \<times> set ?older) \<union> {sub} \<times> set ids) {} (supersede_records E sub ?older ?by L)" .
    moreover have "(P \<union> {sub} \<times> set ?older) \<union> {sub} \<times> set ids = P \<union> {sub} \<times> set (ids @ ?older)" by auto
    ultimately have inv: "ledger_inv E {} (P \<union> {sub} \<times> set (ids @ ?older)) {} (supersede_records E sub ?older ?by L)" by simp
    have S'eq: "S' = (fst (graph_supersede E sub ?older ?by (supersede_records E sub ?older ?by L)), ids @ ?older,
        ms @ snd (graph_supersede E sub ?older ?by (supersede_records E sub ?older ?by L)))"
      using False S' fields by (simp add: collapse_def Let_def split_beta)
    show ?thesis using inv assms(2) fields unfolding S'eq by simp
  qed
qed

lemma collapse_fold_inv:
  assumes "ledger_inv E {} (P \<union> {sub} \<times> set (fst (snd S))) {} (fst S)" and "mutations_ok E (snd (snd S))"
  shows "ledger_inv E {} (P \<union> {sub} \<times> set (fst (snd (fold (collapse E sub) gs S)))) {} (fst (fold (collapse E sub) gs S)) \<and>
     mutations_ok E (snd (snd (fold (collapse E sub) gs S)))"
  using assms
proof (induction gs arbitrary: S)
  case (Cons g gs)
  let ?S = "collapse E sub g S"
  note one = collapse_inv [OF Cons.prems refl, of sub g]
  have "P \<union> {sub} \<times> set (fst (snd S)) \<union> {sub} \<times> set (fst (snd ?S)) = P \<union> {sub} \<times> set (fst (snd ?S))"
    using one by blast
  then show ?case using Cons.IH [of ?S] one by simp
qed simp

lemma consolidate_body_inv:
  assumes inv: "ledger_inv E {} {} {} L" and st: "consolidate_body E sub session L = Inr (L', out)"
  shows "ledger_inv E {} {} {} L'"
proof -
  let ?contents = "groups_by (\<lambda>r. normalize_content (mr_content r)) (list_records L sub (Some [RActive]))"
  let ?slots = "groups_by key_text (filter (\<lambda>r. truthy (mr_fact_key r)) (map newest ?contents))"
  obtain L1 dups ms1 where f1: "fold (collapse E sub) ?contents (L, [], []) = (L1, dups, ms1)" by (metis prod_cases3)
  obtain L2 repaired ms2 where f2: "fold (collapse E sub) ?slots (L1, [], ms1) = (L2, repaired, ms2)" by (metis prod_cases3)
  have ok0: "mutations_ok E []" by (simp add: mutations_ok_def quiet_mutations_def)
  have one: "ledger_inv E {} ({sub} \<times> set dups) {} L1 \<and> mutations_ok E ms1"
    using collapse_fold_inv [of E "{}" sub "(L, [], [])" ?contents] inv ok0 by (simp add: f1)
  have two: "ledger_inv E {} ({sub} \<times> set dups \<union> {sub} \<times> set repaired) {} L2" "mutations_ok E ms2"
    using collapse_fold_inv [of E "{sub} \<times> set dups" sub "(L1, [], ms1)" ?slots] one by (simp_all add: f2)
  let ?pl = "JObj [(''duplicates_superseded'', strs_json dups), (''fact_key_repaired'', strs_json repaired),
                        (''active_before'', JNum (int (length (list_records L sub (Some [RActive]))))),
                        (''active_after'', JNum (int (length (list_records L2 sub (Some [RActive])))))]"
  have L': "L' = audit_graph_mutations E sub session None None ms2
      (fst (log_event E sub ''memory.consolidated'' ?pl ''system'' session None None L2))"
    using st unfolding consolidate_body_def Let_def f1 f2 case_prod_conv by simp
  have "set (jstrings ?pl ''duplicates_superseded'') = set dups - {[]}" "set (jstrings ?pl ''fact_key_repaired'') = set repaired - {[]}"
    by (rule jstrings_strs, simp)+
  then have "settles sub (changed_in ''memory.consolidated'' None ?pl) ({sub} \<times> set dups \<union> {sub} \<times> set repaired) {}"
    using changed_in_keys(3,4) [of ?pl "''memory.consolidated''" None] unfolding settles_def by blast
  then show ?thesis unfolding L'
    by (intro audited_inv [OF log_event_inv [OF two(1)]]) (simp_all add: creation_events_def two(2))
qed

lemma capture_body_inv:
  assumes inv: "ledger_inv E {} {} {} L" and st: "capture_body E sub role content session t tool L = Inr (L', out)"
  shows "ledger_inv E {} {} {} L'"
proof -
  have noted: "ledger_inv E {} {} {} (fst (log_action E sub ''agent.response_shown'' pl se t ac L))"
    "ledger_inv E {} {} {} (fst (log_action E sub ''agent.tool_call'' pl se t ac L))"
    "ledger_inv E {} {} {} (fst (log_action E sub ''agent.tool_result'' pl se t ac L))" for pl se ac
    unfolding log_action_def by (rule note_inv [OF inv], simp add: creation_events_def)+
  show ?thesis using st noted remember_body_inv [OF inv]
    by (auto simp: capture_body_def Let_def split_beta split: if_splits)
qed

section \<open>Reachable ledgers\<close>

lemma atomic_inv:
  assumes "ledger_inv E {} {} {} L" and "\<And>L' x. m L = Inr (L', x) \<Longrightarrow> ledger_inv E {} {} {} L'"
  shows "ledger_inv E {} {} {} (fst (atomic m L))"
  using assms by (auto simp: atomic_def split: sum.splits)

definition empty_ledger :: "'g ledger \<Rightarrow> bool" where
  "empty_ledger L \<longleftrightarrow> core L = ([], [], []) \<and> lg_log L = empty_log"

text \<open>
  One operation of the ledger, whatever its outcome, or the work of another part: a change of the tables that hold no
  records and no index, a run of the verification cache, an event that announces no record.
\<close>

inductive ledger_step :: "'g memory_env \<Rightarrow> 'g ledger \<Rightarrow> 'g ledger \<Rightarrow> bool" for E where
  remember: "ledger_step E L (fst (remember E sub a L))"
| propose: "ledger_step E L (fst (propose_facts E sub ps proposer session L))"
| promote: "ledger_step E L (fst (promote E sub rid session t actor L))"
| reject: "ledger_step E L (fst (reject_memory E sub rid session t actor L))"
| exclude: "ledger_step E L (fst (set_retrieval_excluded E sub rid x reason actor L))"
| correct: "ledger_step E L (fst (correct_record E sub rid txt reason actor L))"
| consolidate: "ledger_step E L (fst (consolidate E sub session L))"
| forget_record: "ledger_step E L (fst (forget_record E sub rid actor L))"
| forget: "ledger_step E L (fst (forget_memory E sub selector utterance session t actor L))"
| capture: "ledger_step E L (fst (capture E sub role content session t tool L))"
| verify: "ledger_step E L (fst (verify_ledger E now subject docs incremental L))"
| other: "core L' = core L \<Longrightarrow> lg_log L' = lg_log L \<Longrightarrow> ledger_step E L L'"
| noted: "ty \<notin> set creation_events \<Longrightarrow> ledger_step E L (fst (log_event E sub ty pl ac se tu re L))"

lemma verify_events: "al_events (fst (verify H now integrity subject docs inc log)) = al_events log \<and>
    al_next_sequence (fst (verify H now integrity subject docs inc log)) = al_next_sequence log"
proof -
  have suffix: "al_events (fst (verify_suffix H now start prev log sub)) = al_events log \<and>
      al_next_sequence (fst (verify_suffix H now start prev log sub)) = al_next_sequence log" for start prev log sub
    by (simp add: verify_suffix_def Let_def split: sum.splits)
  have one: "al_events (fst (subject_report_of H now integrity inc s log)) = al_events log \<and>
      al_next_sequence (fst (subject_report_of H now integrity inc s log)) = al_next_sequence log" for s log
    using suffix by (simp add: subject_report_of_def verify_audit_chain_incremental_def Let_def split_beta split: option.splits)
  have "al_events (fst (subject_reports H now integrity inc ss log)) = al_events log \<and>
      al_next_sequence (fst (subject_reports H now integrity inc ss log)) = al_next_sequence log" for ss
    by (induction ss arbitrary: log) (simp_all add: one Let_def split_beta)
  then show ?thesis by (simp add: verify_def Let_def split_beta)
qed

lemma inv_same_events:
  assumes "core L' = core L" and "al_events (lg_log L') = al_events (lg_log L)" "al_next_sequence (lg_log L') = al_next_sequence (lg_log L)"
  shows "ledger_inv E N P X L' = ledger_inv E N P X L"
proof -
  have "events_of L' s = events_of L s" for s unfolding events_of_def by (rule list_audit_events_cong) (rule assms(2))
  moreover have "log_ok (lg_log L') = log_ok (lg_log L)" by (simp add: log_ok_def assms)
  ultimately show ?thesis
    by (simp add: ledger_inv_def sound_def announced_def recorded_def tables_ok_core [OF assms(1)] records_core [OF assms(1)])
qed

lemma ledger_step_inv: "ledger_step E L L' \<Longrightarrow> ledger_inv E {} {} {} L \<Longrightarrow> ledger_inv E {} {} {} L'"
proof (induction rule: ledger_step.induct)
  case (propose L sub ps proposer session)
  show ?case unfolding propose_facts_def
    by (rule atomic_inv [OF propose]) (auto simp: propose_facts_body_def Let_def intro: propose_all_inv [OF propose])
next
  case (verify L now subject docs incremental)
  let ?log = "fst (verify (me_hashes E) now (verify_record_integrity E L) subject docs incremental (lg_log L))"
  have L': "fst (verify_ledger E now subject docs incremental L) = L\<lparr>lg_log := ?log\<rparr>"
    by (simp add: verify_ledger_def split_beta)
  have "core (L\<lparr>lg_log := ?log\<rparr>) = core L" by (simp add: core_def)
  from inv_same_events [OF this]
  show ?case using verify verify_events [of "me_hashes E" now "verify_record_integrity E L" subject docs incremental "lg_log L"]
    unfolding L' by simp
next
  case (other L' L)
  then show ?case using inv_cong [OF other(1,2)] by blast
next
  case (noted ty L)
  then show ?case by (intro note_inv)
qed (unfold remember_def promote_def reject_memory_def set_retrieval_excluded_def correct_record_def consolidate_def
     forget_record_def forget_memory_def capture_def,
   (rule atomic_inv, assumption, erule (1) remember_body_inv promote_body_inv reject_body_inv set_retrieval_excluded_body_inv
     correct_record_body_inv consolidate_body_inv forget_record_body_inv forget_body_inv capture_body_inv)+)

lemma empty_ledger_inv:
  assumes "empty_ledger L"
  shows "ledger_inv E {} {} {} L"
proof -
  have L: "lg_records L = []" "lg_fts L = []" "lg_terms L = []" "lg_log L = empty_log"
    using assms by (simp_all add: empty_ledger_def core_simps)
  have "events_of L s = []" for s by (simp add: events_of_def L list_audit_events_def empty_log_def)
  then show ?thesis
    by (simp add: L ledger_inv_def tables_ok_def rows_ok_def index_ok_def core_def empty_log_ok slots_ok_def sound_def
        commitments_def actives_def)
qed

interpretation memory: invariant_system empty_ledger "ledger_step E" "ledger_inv E {} {} {}" for E
  by unfold_locales (blast intro: empty_ledger_inv ledger_step_inv)+

definition reachable_ledger :: "'g memory_env \<Rightarrow> 'g ledger \<Rightarrow> bool" where
  "reachable_ledger E L \<longleftrightarrow> (\<exists>L0. empty_ledger L0 \<and> (ledger_step E)\<^sup>*\<^sup>* L0 L)"

lemma reachable_inv: "reachable_ledger E L \<Longrightarrow> ledger_inv E {} {} {} L"
  unfolding reachable_ledger_def using memory.inv_reachable by blast

end
