(* ===== verification/Memory_Properties.thy ===== *)
theory Memory_Properties
  imports Memory_Steps
begin

text \<open>
  What the memory ledger promises, over every reachable ledger, and examples on a small environment.
\<close>

section \<open>An example environment\<close>

definition ex_graph :: "nat graph_ops" where
  "ex_graph = \<lparr>gr_index = (\<lambda>r g. (g + 1, [JObj [(''event_type'', JStr ''edge.asserted''), (''object_id'', JStr ''e'')]])),
               gr_supersede = (\<lambda>s ids b g. (g, [])), gr_tombstone = (\<lambda>s ids g. (g, []))\<rparr>"

definition ex_memory_env :: "nat memory_env" where
  "ex_memory_env =
     \<lparr>me_hashes = \<lparr>sha_json = (\<lambda>j. replicate 64 (CHR ''a'')), sha_decision = (\<lambda>s n. [])\<rparr>,
      me_clock = int, me_ids = show_nat, me_graph = ex_graph, me_screen = (\<lambda>t b. []),
      me_parse = (\<lambda>t. Some (t, Some ''tea'', 90)), me_body = id, me_sweep = (\<lambda>n s ids. Some None), me_identity = (\<lambda>j. None)\<rparr>"

definition ex_no_memory :: "nat ledger" where
  "ex_no_memory =
     \<lparr>lg_records = [], lg_episodes = [], lg_exclusions = [], lg_identities = [], lg_fts = [], lg_terms = [],
      lg_typed = \<lparr>ty_units = [], ty_evidence = [], ty_proposals = [], ty_proposal_sources = [], ty_sources = [],
                  ty_media_references = [], ty_protected_media = []\<rparr>,
      lg_observations = [], lg_artifacts = [], lg_graph = 0, lg_log = empty_log, lg_tick = 0\<rparr>"

definition ex_said :: "string \<Rightarrow> remember_args" where
  "ex_said m = \<lparr>rm_message = Some m, rm_fact = None, rm_force = False, rm_session_id = None, rm_turn_id = None,
     rm_source_type = None, rm_actor = ''user'', rm_raw = None, rm_interpreted_fact = None, rm_interpreted_fact_key = None\<rparr>"

definition ex_memory :: "nat ledger" where
  "ex_memory = fst (remember ex_memory_env ''alice'' (ex_said ''green tea'') ex_no_memory)"

lemma ex_env_ok: "env_ok ex_memory_env"
  by (simp add: env_ok_def ex_memory_env_def ex_graph_def quiet_mutations_def is_hex64_def list_all_iff is_digit_def code_def
      creation_events_def jstr_opt_def or_empty_def)

lemma ex_memory_reachable: "reachable_ledger ex_memory_env ex_memory"
proof -
  have "empty_ledger ex_no_memory" by (simp add: empty_ledger_def core_def ex_no_memory_def)
  then show ?thesis unfolding reachable_ledger_def ex_memory_def by (blast intro: remember r_into_rtranclp)
qed

section \<open>Trust and slots\<close>

text \<open>[C12] Quarantine holds.  In every reachable ledger a record is active only with the trust tier of the user's own
  messages or of an explicit confirmation: what came from a web page, a tool or a proposal never becomes active by
  remembering, correcting or consolidating.\<close>

theorem active_memory_is_trusted:
  assumes "reachable_ledger E L" and "r \<in> set (lg_records L)" and "mr_status r = RActive"
  shows "mr_trust_tier r \<in> {TRUST_TIER_USER, TRUST_TIER_CONFIRMED}"
  using inv_tables [OF reachable_inv [OF assms(1)]] assms(2,3) by (simp add: tables_ok_def rows_ok_def)

lemma ex_rows: "\<exists>r. r \<in> set (lg_records ex_memory) \<and> mr_status r = RActive \<and> mr_id r = ''rec_4'' \<and> mr_subject_id r = ''alice'' \<and>
    mr_fact_key r = Some ''tea'' \<and> mr_content r = ''green tea''"
proof -
  have "case lg_records ex_memory of [r] \<Rightarrow> mr_status r = RActive \<and> mr_id r = ''rec_4'' \<and> mr_subject_id r = ''alice'' \<and>
    mr_fact_key r = Some ''tea'' \<and> mr_content r = ''green tea'' | _ \<Rightarrow> False" by code_simp
  then show ?thesis by (auto split: list.splits)
qed

theorem active_memory_is_trusted_witness:
  "\<exists>r\<in>set (lg_records ex_memory). mr_trust_tier r \<in> {TRUST_TIER_USER, TRUST_TIER_CONFIRMED}"
  using ex_rows active_memory_is_trusted [OF ex_memory_reachable] by blast



section \<open>Indexes\<close>

text \<open>[C17] The indexes refine the table.  In every reachable ledger the full-text index holds exactly the identifier,
  subject and content of the active records, the fact-key index exactly the terms of their slots with their counts, and
  a deleted record keeps no content, no slot and no annotation.\<close>

theorem indexes_hold_the_active_records:
  assumes "reachable_ledger E L"
  shows "set (lg_fts L) = fts_entry ` {r \<in> set (lg_records L). mr_status r = RActive} \<and>
    set (lg_terms L) = (\<Union>r\<in>{r \<in> set (lg_records L). mr_status r = RActive}. set (term_entries r)) \<and>
    (\<forall>r\<in>set (lg_records L). mr_status r = RTombstoned \<longrightarrow> scrubbed r)"
proof -
  have "set (actives (lg_records L)) = {r \<in> set (lg_records L). mr_status r = RActive}" by auto
  then show ?thesis using inv_tables [OF reachable_inv [OF assms]] by (simp add: tables_ok_def index_ok_def core_def rows_ok_def)
qed

theorem indexes_hold_the_active_records_witness:
  "\<exists>f\<in>set (lg_fts ex_memory). fr_content f = ''green tea''"
  using ex_rows indexes_hold_the_active_records [OF ex_memory_reachable] by (auto simp: fts_entry_def image_iff)

section \<open>Integrity of the rows\<close>

text \<open>[C15] No false alarm from the operations of \<open>ledger_step\<close>.  Let a ledger be reached by remembering, proposing
  facts, promoting, rejecting, excluding, correcting, consolidating, forgetting, capturing turns, verifying, and logging
  events that are not of a creating type, with digests of 64 hexadecimal digits and a graph that reports no creation of
  a record.  Then the comparison of the rows with the commitments in the audit chain is valid for every subject: these
  operations name every change of a committed row in an event of the same transaction.  The acceptance of an extraction
  proposal is not one of them: its event names the superseded records under a key that the comparison does not read.\<close>

theorem integrity_check_raises_no_false_alarm:
  assumes "reachable_ledger E L" and "env_ok E"
  shows "ir_valid (verify_record_integrity E L sub)"
proof -
  note inv = reachable_inv [OF assms(1)]
  have s: "sound E {} {} L" using inv assms(2) by (simp add: ledger_inv_def)
  let ?es = "list_audit_events (lg_log L) sub"
  have ev: "events_of L sub = ?es" by (simp add: events_of_def)
  have one: "\<exists>r\<in>set (lg_records L). row_of sub i r \<and> record_integrity_sha256 E r = h"
    if c: "map_of (commitments ?es) i = Some h" "i \<notin> set (legitimately_changed ?es)" for i h
  proof -
    obtain r where r: "r \<in> set (lg_records L)" "row_of sub i r" using s c(1) unfolding sound_def ev [symmetric] by blast
    then have "recorded E L r" using s by (auto simp: sound_def)
    then show ?thesis using r c by (auto simp: recorded_def row_of_def Let_def events_of_def)
  qed
  have two: "mr_id r \<in> set (known_record_ids ?es)" if "r \<in> set (lg_records L)" "mr_subject_id r = sub" for r
    using s that by (auto simp: sound_def announced_def events_of_def)
  show ?thesis using one two by (subst integrity_valid [OF inv_distinct [OF inv] refl]) blast
qed

theorem integrity_check_raises_no_false_alarm_witness:
  "ir_valid (verify_record_integrity ex_memory_env ex_memory ''alice'') \<and>
   ir_enabled (verify_record_integrity ex_memory_env ex_memory ''alice'') \<and>
   ir_records_checked (verify_record_integrity ex_memory_env ex_memory ''alice'') = 1"
  by (intro conjI integrity_check_raises_no_false_alarm [OF ex_memory_reachable ex_env_ok]) code_simp+

lemma map_of_sorted: "distinct (map fst xs) \<Longrightarrow> map_of (sort_key fst xs) = map_of xs"
  by (subst map_of_inject_set) (auto simp: distinct_map)

lemma canonical_field:
  "distinct (map fst kvs) \<Longrightarrow> jget (canonical (JObj kvs)) k = map_option canonical (map_of kvs k)"
proof -
  assume d: "distinct (map fst kvs)"
  have "map_of (map (\<lambda>kv. (fst kv, canonical (snd kv))) kvs) k = map_option canonical (map_of kvs k)" by (induction kvs) auto
  then show ?thesis using d by (subst canonical.simps, subst jget.simps, subst map_of_sorted) (simp_all add: comp_def)
qed

lemma canonical_opt: "canonical (opt_str_json s) = opt_str_json s"
  by (cases s) (simp_all add: opt_str_json_def opt_json_def)

lemma status_value_inj: "status_value_of a = status_value_of b \<Longrightarrow> a = b"
  by (cases a; cases b) simp_all

lemma same_view:
  assumes "canonical (integrity_view a) = canonical (integrity_view b)"
  shows "mr_content a = mr_content b \<and> mr_source_type a = mr_source_type b \<and> mr_trust_tier a = mr_trust_tier b \<and>
    mr_status a = mr_status b \<and> mr_fact_key a = mr_fact_key b \<and> mr_scope a = mr_scope b \<and> mr_created_at a = mr_created_at b"
proof -
  have eq: "jget (canonical (integrity_view a)) k = jget (canonical (integrity_view b)) k" for k by (simp add: assms)
  have field: "jget (canonical (integrity_view r)) k = map_option canonical (jget (integrity_view r) k)" for r k
    unfolding integrity_view_def by (subst canonical_field) simp_all
  note parts = eq [unfolded field]
  show ?thesis
    using parts [of "''content''"] parts [of "''source_type''"] parts [of "''trust_tier''"] parts [of "''status''"]
      parts [of "''fact_key''"] parts [of "''scope''"] parts [of "''created_at''"]
    by (auto simp: integrity_view_def canonical_opt opt_str_json_def opt_json_def intro: status_value_inj split: option.splits)
qed

text \<open>[C16] Tampering is noticed.  Let the rows of a reachable ledger be replaced by any others while the audit log stays.
  If the check of a subject is still valid, every record that no event names as changed still has its row, with its
  content, source, trust tier, status, slot, scope and time, unless the digest collides.\<close>

theorem row_tampering_is_noticed:
  assumes "reachable_ledger E L" and "env_ok E" and "lg_log L' = lg_log L" and "distinct (map mr_id (lg_records L'))"
    and "ir_valid (verify_record_integrity E L' sub)"
    and "r \<in> set (lg_records L)" "mr_subject_id r = sub" "mr_id r \<notin> set (legitimately_changed (list_audit_events (lg_log L) sub))"
    and "inj_on (sha_json (me_hashes E)) ((canonical \<circ> integrity_view) ` (set (lg_records L) \<union> set (lg_records L')))"
  shows "\<exists>r'\<in>set (lg_records L'). mr_id r' = mr_id r \<and> mr_subject_id r' = sub \<and> mr_content r' = mr_content r \<and>
    mr_source_type r' = mr_source_type r \<and> mr_trust_tier r' = mr_trust_tier r \<and> mr_status r' = mr_status r \<and>
    mr_fact_key r' = mr_fact_key r \<and> mr_scope r' = mr_scope r \<and> mr_created_at r' = mr_created_at r"
proof -
  have s: "sound E {} {} L" using reachable_inv [OF assms(1)] assms(2) by (simp add: ledger_inv_def)
  let ?es = "list_audit_events (lg_log L) sub"
  have c: "map_of (commitments ?es) (mr_id r) = Some (record_integrity_sha256 E r)"
    using s assms(6-8) by (auto simp: sound_def recorded_def Let_def events_of_def)
  then have "commitments ?es \<noteq> []" by auto
  then obtain r' where r': "r' \<in> set (lg_records L')" "row_of sub (mr_id r) r'"
      and hash: "record_integrity_sha256 E r' = record_integrity_sha256 E r"
    using assms(5,8) c integrity_valid [OF assms(4), of ?es sub E] unfolding assms(3) by blast
  have "canonical (integrity_view r') = canonical (integrity_view r)"
    using inj_onD [OF assms(9), of "canonical (integrity_view r')" "canonical (integrity_view r)"] hash r'(1) assms(6)
    by (simp add: record_integrity_sha256_def)
  from same_view [OF this] show ?thesis using r' by (auto simp: row_of_def)
qed

theorem row_tampering_is_noticed_witness:
  "\<exists>r\<in>set (lg_records ex_memory). \<exists>r'\<in>set (lg_records ex_memory). mr_id r' = mr_id r \<and> mr_content r' = mr_content r"
proof -
  obtain r where r: "lg_records ex_memory = [r]" "mr_subject_id r = ''alice''" "mr_id r = ''rec_4''"
  proof -
    have "case lg_records ex_memory of [r] \<Rightarrow> mr_subject_id r = ''alice'' \<and> mr_id r = ''rec_4'' | _ \<Rightarrow> False" by code_simp
    then show thesis using that by (auto split: list.splits)
  qed
  have "''rec_4'' \<notin> set (legitimately_changed (list_audit_events (lg_log ex_memory) ''alice''))" by code_simp
  moreover have "ir_valid (verify_record_integrity ex_memory_env ex_memory ''alice'')" by code_simp
  ultimately show ?thesis
    using row_tampering_is_noticed [OF ex_memory_reachable ex_env_ok refl, of "''alice''" r] r by auto
qed

section \<open>Forgetting\<close>

lemma purge_effect:
  assumes st: "purge_record_ids E sub rids session turn L = Inr (L', c)" and ok: "tables_ok L"
  shows "lg_records L' = rewrite sub (set rids) live (emptied_row (utc_now E L)) (lg_records L) \<and>
     cl_record_ids c = filter (\<lambda>i. \<exists>r\<in>set (lg_records L). row_of sub i r \<and> live r) (dedup rids)"
proof -
  obtain L1 purged eps where one: "tombstone_records E sub (dedup rids) L = (L1, purged, eps)" by (metis prod_cases3)
  obtain g ms where gm: "gr_tombstone (me_graph E) sub purged (lg_graph L1) = (g, ms)" by fastforce
  let ?L2 = "audit_graph_mutations E sub session turn None ms (L1\<lparr>lg_graph := g\<rparr>)"
  have L': "L' = fst (tombstone_media_observations_for_records E sub (dedup rids) ?L2)" and c: "cl_record_ids c = purged"
    using st unfolding purge_record_ids_def Let_def one gm case_prod_conv
    by (auto simp: split_beta split: option.splits)
  have "core L' = core L1" unfolding L' using core_same_memory [OF tombstone_media_same] by (metis core_mutations core_frame(9))
  from records_core [OF this] show ?thesis
    using tombstone_records_rows [OF ok distinct_dedup, of E sub rids] by (simp add: one c)
qed

text \<open>The records that a request is about.\<close>

definition forget_hits :: "'g ledger \<Rightarrow> string \<Rightarrow> string option \<Rightarrow> memory_record set" where
  "forget_hits L sub contains =
     {r \<in> set (lg_records L). mr_subject_id r = sub \<and> live r \<and> sublist (lower_str (py_str contains)) (lower_str (mr_content r))}"

lemma forgotten_row:
  assumes ok': "tables_ok L'" and dist: "distinct (map mr_id (lg_records L))"
    and recs: "lg_records L' = rewrite sub (mr_id ` forget_hits L sub n) live (emptied_row now) (lg_records L)"
    and r: "r \<in> set (lg_records L)"
  shows "\<exists>r'\<in>set (lg_records L'). mr_id r' = mr_id r \<and>
    (if r \<in> forget_hits L sub n
     then mr_status r' = RTombstoned \<and> scrubbed r' \<and> mr_id r \<notin> fr_record_id ` set (lg_fts L') \<and>
          mr_id r \<notin> tm_record_id ` set (lg_terms L')
     else r' = r)"
proof (cases "r \<in> forget_hits L sub n")
  case True
  let ?r = "emptied_row (now) r"
  have mem: "?r \<in> set (lg_records L')"
    unfolding recs rewrite_def set_map using True by (intro image_eqI [OF _ r]) (simp add: forget_hits_def)
  have dead: "mr_id r \<notin> mr_id ` set (actives (lg_records L'))"
  proof
    assume "mr_id r \<in> mr_id ` set (actives (lg_records L'))"
    then obtain x where x: "x \<in> set (lg_records L')" "mr_status x = RActive" "mr_id x = mr_id ?r" by auto
    show False using same_id [OF tables_distinct [OF ok'] mem x(1,3)] x(2) by simp
  qed
  have "mr_id r \<notin> fr_record_id ` set (lg_fts L') \<and> mr_id r \<notin> tm_record_id ` set (lg_terms L')"
    using ok' dead by (auto simp: tables_ok_def index_ok_def core_def dest!: entry_ids(2) simp del: in_actives)
  moreover have "scrubbed ?r" using ok' mem by (simp add: tables_ok_def rows_ok_def)
  ultimately show ?thesis using mem True by (intro bexI [of _ ?r]) simp_all
next
  case False
  have "\<not> (mr_subject_id r = sub \<and> mr_id r \<in> mr_id ` forget_hits L sub n \<and> live r)"
  proof
    assume "mr_subject_id r = sub \<and> mr_id r \<in> mr_id ` forget_hits L sub n \<and> live r"
    then obtain h where "h \<in> forget_hits L sub n" "mr_id h = mr_id r" by auto
    then show False using same_id [OF dist r, of h] False by (auto simp: forget_hits_def)
  qed
  then have "r \<in> set (lg_records L')" unfolding recs rewrite_def set_map using r by (intro image_eqI [OF _ r]) auto
  then show ?thesis using False by auto
qed

text \<open>[C14] Forgetting is exact.  A request that names a text deletes every live record of the subject whose content
  contains it, in any case, and reports exactly those: their rows lose content, slot and annotations and no index entry
  of theirs remains.  Every other record of every subject keeps its row.\<close>

theorem forgetting_is_exact:
  assumes "reachable_ledger E L" and "forget_memory E sub selector utterance session t actor L = (L', Inr out)"
    and "truthy (forget_contains selector utterance)"
  shows "set (fg_record_ids out) = mr_id ` forget_hits L sub (forget_contains selector utterance) \<and>
    fg_deleted out = (forget_hits L sub (forget_contains selector utterance) \<noteq> {}) \<and>
    (\<forall>r\<in>set (lg_records L). \<exists>r'\<in>set (lg_records L'). mr_id r' = mr_id r \<and>
       (if r \<in> forget_hits L sub (forget_contains selector utterance)
        then mr_status r' = RTombstoned \<and> scrubbed r' \<and> mr_id r \<notin> fr_record_id ` set (lg_fts L') \<and>
             mr_id r \<notin> tm_record_id ` set (lg_terms L')
        else r' = r))"
proof -
  let ?needle = "lower_str (py_str (forget_contains selector utterance))"
  let ?hits = "forget_hits L sub (forget_contains selector utterance)"
  let ?ids = "map mr_id (forget_targets L sub ?needle)"
  have targets: "set (forget_targets L sub ?needle) = ?hits"
    by (auto simp: forget_targets_def list_records_def forget_hits_def live_def) (metis record_status.exhaust)
  note inv = reachable_inv [OF assms(1)]
  have body: "forget_body E sub selector utterance session t actor L = Inr (L', out)"
    using assms(2) by (auto simp: forget_memory_def atomic_def split: sum.splits)
  then obtain L1 c where p: "purge_record_ids E sub ?ids session (turn_id t) L = Inr (L1, c)"
    using assms(3) by (auto simp: forget_body_def Let_def)
  have out: "fg_record_ids out = cl_record_ids c" "fg_deleted out = (cl_record_ids c \<noteq> [])" and recs1: "lg_records L' = lg_records L1"
    using body assms(3) unfolding forget_body_def Let_def p bind_res_simps case_prod_conv
    by (auto simp: split_beta records_core [OF core_frame(4)] split: option.splits)
  note eff = purge_effect [OF p inv_tables [OF inv]]
  have recs: "lg_records L' = rewrite sub (mr_id ` ?hits) live (emptied_row (utc_now E L)) (lg_records L)"
    using eff by (simp add: recs1 targets)
  have cids: "set (cl_record_ids c) = mr_id ` ?hits"
    using eff by (auto simp: targets row_of_def forget_hits_def)
  have ok': "tables_ok L'" by (rule inv_tables [OF forget_body_inv [OF inv body]])
  note row = forgotten_row [OF ok' inv_distinct [OF inv] recs]
  show ?thesis using row out cids by (auto simp del: set_empty simp flip: set_empty)
qed

definition ex_forget :: "nat ledger \<times> (memory_error + forgotten)" where
  "ex_forget = forget_memory ex_memory_env ''alice'' (Some (SelText ''TEA'')) None None None ''user'' ex_memory"

theorem forgetting_is_exact_witness:
  "\<exists>r'\<in>set (lg_records (fst ex_forget)). mr_id r' = ''rec_4'' \<and> mr_status r' = RTombstoned \<and> scrubbed r'"
proof -
  have "case snd ex_forget of Inl _ \<Rightarrow> False | Inr out \<Rightarrow> fg_deleted out" by code_simp
  then obtain out where "snd ex_forget = Inr out" by (auto split: sum.splits)
  then have f: "ex_forget = (fst ex_forget, Inr out)" by (simp add: prod_eq_iff)
  obtain r where r: "r \<in> set (lg_records ex_memory)" "mr_status r = RActive" "mr_id r = ''rec_4''" "mr_subject_id r = ''alice''"
    "mr_content r = ''green tea''" using ex_rows by blast
  have "sublist (lower_str (py_str (forget_contains (Some (SelText ''TEA'')) None))) (lower_str ''green tea'')" by code_simp
  then have hit: "r \<in> forget_hits ex_memory ''alice'' (forget_contains (Some (SelText ''TEA'')) None)"
    using r by (simp add: forget_hits_def live_def)
  have "truthy (forget_contains (Some (SelText ''TEA'')) None)" by code_simp
  note forgetting_is_exact [OF ex_memory_reachable f [unfolded ex_forget_def] this, folded ex_forget_def]
  then have "\<forall>r\<in>set (lg_records ex_memory). \<exists>r'\<in>set (lg_records (fst ex_forget)). mr_id r' = mr_id r \<and>
      (if r \<in> forget_hits ex_memory ''alice'' (forget_contains (Some (SelText ''TEA'')) None)
       then mr_status r' = RTombstoned \<and> scrubbed r' \<and> mr_id r \<notin> fr_record_id ` set (lg_fts (fst ex_forget)) \<and>
            mr_id r \<notin> tm_record_id ` set (lg_terms (fst ex_forget)) else r' = r)" by blast
  from this [rule_format, OF r(1)] show ?thesis using r(3) hit by auto
qed

section \<open>Consolidation\<close>

definition held :: "record_status set \<Rightarrow> string \<Rightarrow> string \<Rightarrow> 'g ledger \<Rightarrow> bool" where
  "held ss sub i L \<longleftrightarrow> (\<exists>r\<in>set (lg_records L). row_of sub i r \<and> mr_status r \<in> ss)"

lemma supersede_held:
  assumes "tables_ok L"
  shows "held {RActive, RSuperseded} sub i L \<Longrightarrow> held {RActive, RSuperseded} sub i (supersede_records E sub ids b L)"
    and "held {RSuperseded} sub i L \<Longrightarrow> held {RSuperseded} sub i (supersede_records E sub ids b L)"
    and "held {RActive, RSuperseded} sub i L \<Longrightarrow> i \<in> set ids \<Longrightarrow> held {RSuperseded} sub i (supersede_records E sub ids b L)"
proof -
  let ?g = "superseded_row (utc_now E L) b"
  have recs: "lg_records (supersede_records E sub ids b L) = rewrite sub (set ids) (\<lambda>r. mr_status r = RActive) ?g (lg_records L)"
    by (rule supersede_records_rows [OF assms])
  have row: "\<exists>r'\<in>set (lg_records (supersede_records E sub ids b L)). row_of sub i r' \<and>
      (mr_status r' = RSuperseded \<or> r' = r \<and> (i \<notin> set ids \<or> mr_status r \<noteq> RActive))"
    if r: "r \<in> set (lg_records L)" "row_of sub i r" for r
    unfolding recs rewrite_def set_map
    by (rule bexI [OF _ imageI [OF r(1)]]) (use r(2) in \<open>auto simp: row_of_def\<close>)
  show "held {RActive, RSuperseded} sub i L \<Longrightarrow> held {RActive, RSuperseded} sub i (supersede_records E sub ids b L)"
    "held {RSuperseded} sub i L \<Longrightarrow> held {RSuperseded} sub i (supersede_records E sub ids b L)"
    "held {RActive, RSuperseded} sub i L \<Longrightarrow> i \<in> set ids \<Longrightarrow> held {RSuperseded} sub i (supersede_records E sub ids b L)"
    unfolding held_def using row by fastforce+
qed

lemma held_cong: "core L' = core L \<Longrightarrow> held ss sub i L' = held ss sub i L"
  by (simp add: held_def core_def)

lemma collapse_held:
  assumes ok: "tables_ok (fst S)"
  shows "tables_ok (fst (collapse E sub g S)) \<and>
    (held {RActive, RSuperseded} sub i (fst S) \<longrightarrow> held {RActive, RSuperseded} sub i (fst (collapse E sub g S))) \<and>
    (held {RSuperseded} sub i (fst S) \<longrightarrow> held {RSuperseded} sub i (fst (collapse E sub g S))) \<and>
    (held {RActive, RSuperseded} sub i (fst S) \<longrightarrow> i \<in> mr_id ` set (butlast (sort_key row_order g)) \<longrightarrow>
       held {RSuperseded} sub i (fst (collapse E sub g S)))"
proof -
  let ?older = "map mr_id (butlast (sort_key row_order g))" and ?by = "mr_id (last (sort_key row_order g))"
  show ?thesis
  proof (cases "?older = []")
    case True
    then have "collapse E sub g S = S" by (cases S) (simp add: collapse_def Let_def)
    then show ?thesis using ok True by simp
  next
    case False
    have c: "core (fst (collapse E sub g S)) = core (supersede_records E sub ?older ?by (fst S))"
      using False by (cases S) (simp add: collapse_def Let_def split_beta)
    have i: "i \<in> set ?older \<longleftrightarrow> i \<in> mr_id ` set (butlast (sort_key row_order g))" by simp
    show ?thesis unfolding held_cong [OF c] tables_ok_core [OF c] i [symmetric]
      using supersede_held [OF ok] supersede_records_rows(1) [OF ok] by blast
  qed
qed

lemma collapse_fold_held:
  assumes "tables_ok (fst S)"
  shows "tables_ok (fst (fold (collapse E sub) gs S)) \<and>
    (held {RActive, RSuperseded} sub i (fst S) \<longrightarrow> held {RActive, RSuperseded} sub i (fst (fold (collapse E sub) gs S))) \<and>
    (held {RSuperseded} sub i (fst S) \<longrightarrow> held {RSuperseded} sub i (fst (fold (collapse E sub) gs S))) \<and>
    (held {RActive, RSuperseded} sub i (fst S) \<longrightarrow> (\<exists>g\<in>set gs. i \<in> mr_id ` set (butlast (sort_key row_order g))) \<longrightarrow>
       held {RSuperseded} sub i (fst (fold (collapse E sub) gs S)))"
  using assms
proof (induction gs arbitrary: S)
  case (Cons g gs)
  note one = collapse_held [OF Cons.prems, of E sub g i]
  then show ?case using Cons.IH [of "collapse E sub g S"] by auto
qed simp

lemma consolidate_supersedes:
  assumes ok: "tables_ok L" and r: "r \<in> set (lg_records L)" "mr_status r = RActive" "mr_subject_id r = sub"
    and g: "g \<in> set (groups_by (\<lambda>r. normalize_content (mr_content r)) (list_records L sub (Some [RActive])))"
      "r \<in> set (butlast (sort_key row_order g))"
    and st: "consolidate_body E sub session L = Inr (L', out)"
  shows "held {RSuperseded} sub (mr_id r) L'"
proof -
  let ?contents = "groups_by (\<lambda>r. normalize_content (mr_content r)) (list_records L sub (Some [RActive]))"
  let ?slots = "groups_by key_text (filter (\<lambda>r. truthy (mr_fact_key r)) (map newest ?contents))"
  obtain L1 dups ms1 where f1: "fold (collapse E sub) ?contents (L, [], []) = (L1, dups, ms1)" by (metis prod_cases3)
  obtain L2 repaired ms2 where f2: "fold (collapse E sub) ?slots (L1, [], ms1) = (L2, repaired, ms2)" by (metis prod_cases3)
  have c: "core L' = core L2" using st unfolding consolidate_body_def Let_def f1 f2 case_prod_conv by auto
  have "held {RActive, RSuperseded} sub (mr_id r) L" using r by (auto simp: held_def row_of_def)
  then have "tables_ok L1 \<and> held {RSuperseded} sub (mr_id r) L1"
    using collapse_fold_held [of "(L, [], [])" E sub ?contents "mr_id r"] ok g unfolding f1 fst_conv by blast
  then have "held {RSuperseded} sub (mr_id r) L2"
    using collapse_fold_held [of "(L1, [], ms1)" E sub ?slots "mr_id r"] unfolding f2 fst_conv by blast
  then show ?thesis unfolding held_cong [OF c] .
qed

text \<open>[C29] Consolidation drops unrelated records.  The search for a duplicate never matches a content without Latin letters
  and digits, yet consolidation groups all such contents under the empty normal form: of two active records of a
  subject with such contents, however different, one is superseded.\<close>

theorem consolidation_merges_unrelated_contents:
  assumes "reachable_ledger E L" and "a \<in> set (lg_records L)" "mr_status a = RActive" "mr_subject_id a = sub"
    and "b \<in> set (lg_records L)" "mr_status b = RActive" "mr_subject_id b = sub" and "a \<noteq> b"
    and "list_all (\<lambda>c. \<not> token_char (lower_letter c)) (mr_content a)" "list_all (\<lambda>c. \<not> token_char (lower_letter c)) (mr_content b)"
    and "consolidate E sub session L = (L', Inr out)"
  shows "find_duplicate_record L sub (mr_content a) statuses = None \<and>
    (held {RSuperseded} sub (mr_id a) L' \<or> held {RSuperseded} sub (mr_id b) L')"
proof
  have blank: "normalize_content (mr_content a) = []" "normalize_content (mr_content b) = []"
    using assms(9,10) by (simp_all add: normalize_blank)
  then show "find_duplicate_record L sub (mr_content a) statuses = None" by (simp add: find_duplicate_record_def)
  let ?active = "list_records L sub (Some [RActive])"
  define g where "g = filter (\<lambda>r. normalize_content (mr_content r) = []) ?active"
  have listed: "a \<in> set ?active" "b \<in> set ?active" using assms(2-7) by (simp_all add: list_records_def)
  have ab: "a \<in> set g" "b \<in> set g" using listed blank by (simp_all add: g_def)
  have "[] \<in> set (dedup (map (\<lambda>r. normalize_content (mr_content r)) ?active))" using listed(1) blank(1) by force
  then have grp: "g \<in> set (groups_by (\<lambda>r. normalize_content (mr_content r)) ?active)"
    unfolding groups_by_def g_def set_map by (rule image_eqI [OF refl])
  have "sort_key row_order g \<noteq> []" using ab(1) by (metis empty_iff empty_set set_sort)
  then have "set (sort_key row_order g) = insert (last (sort_key row_order g)) (set (butlast (sort_key row_order g)))"
    by (metis append_butlast_last_id insert_is_Un list.set(1,2) set_append sup_commute)
  then have older: "a \<in> set (butlast (sort_key row_order g)) \<or> b \<in> set (butlast (sort_key row_order g))"
    using ab assms(8) by auto
  have ok: "tables_ok L" by (rule inv_tables [OF reachable_inv [OF assms(1)]])
  have body: "consolidate_body E sub session L = Inr (L', out)"
    using assms(11) by (auto simp: consolidate_def atomic_def split: sum.splits)
  show "held {RSuperseded} sub (mr_id a) L' \<or> held {RSuperseded} sub (mr_id b) L'"
    using older consolidate_supersedes [OF ok assms(2,3,4) grp _ body] consolidate_supersedes [OF ok assms(5,6,7) grp _ body]
    by blast
qed

text \<open>Two memories in an alphabet without Latin letters.\<close>

definition ex_plain_env :: "nat memory_env" where
  "ex_plain_env = ex_memory_env\<lparr>me_parse := (\<lambda>t. Some (t, None, 90))\<rparr>"

definition ex_two_memories :: "nat ledger" where
  "ex_two_memories = fst (remember ex_plain_env ''alice'' (ex_said [CHR 0xE9, CHR '' '', CHR 0xE8])
     (fst (remember ex_plain_env ''alice'' (ex_said [CHR 0xFC]) ex_no_memory)))"

definition ex_consolidated :: "nat ledger \<times> (memory_error + consolidation)" where
  "ex_consolidated = consolidate ex_plain_env ''alice'' None ex_two_memories"

theorem consolidation_merges_unrelated_contents_witness:
  "\<exists>a\<in>set (lg_records ex_two_memories). \<exists>b\<in>set (lg_records ex_two_memories). mr_content a \<noteq> mr_content b \<and>
     (held {RSuperseded} ''alice'' (mr_id a) (fst ex_consolidated) \<or> held {RSuperseded} ''alice'' (mr_id b) (fst ex_consolidated))"
proof -
  have "empty_ledger ex_no_memory" by (simp add: empty_ledger_def core_def ex_no_memory_def)
  then have reach: "reachable_ledger ex_plain_env ex_two_memories"
    unfolding reachable_ledger_def ex_two_memories_def by (meson rtranclp.intros remember)
  let ?u = "[CHR 0xFC]" and ?e = "[CHR 0xE9, CHR '' '', CHR 0xE8]"
  have "map (\<lambda>r. (mr_status r, mr_subject_id r, mr_content r)) (lg_records ex_two_memories) =
      [(RActive, ''alice'', ?u), (RActive, ''alice'', ?e)]" by code_simp
  then obtain a b where rows: "lg_records ex_two_memories = [a, b]" and fields: "mr_status a = RActive" "mr_subject_id a = ''alice''"
      "mr_status b = RActive" "mr_subject_id b = ''alice''" "mr_content a = ?u" "mr_content b = ?e" by auto
  have ab: "a \<in> set (lg_records ex_two_memories)" "mr_status a = RActive" "mr_subject_id a = ''alice''"
      "b \<in> set (lg_records ex_two_memories)" "mr_status b = RActive" "mr_subject_id b = ''alice''"
      and content: "mr_content a = ?u" "mr_content b = ?e" using fields by (simp_all add: rows)
  have blank: "list_all (\<lambda>c. \<not> token_char (lower_letter c)) (mr_content a)" "list_all (\<lambda>c. \<not> token_char (lower_letter c)) (mr_content b)"
  proof -
    have "\<not> token_char (lower_letter (CHR 0xFC))" "\<not> token_char (lower_letter (CHR 0xE9))"
      "\<not> token_char (lower_letter (CHR 0xE8))" "\<not> token_char (lower_letter (CHR '' ''))"
      by (simp_all add: token_char_def lower_letter_def code_def is_digit_def)
    then show "list_all (\<lambda>c. \<not> token_char (lower_letter c)) (mr_content a)" "list_all (\<lambda>c. \<not> token_char (lower_letter c)) (mr_content b)"
      by (simp_all add: content)
  qed
  have ne: "mr_content a \<noteq> mr_content b" unfolding content by simp
  have "case snd ex_consolidated of Inl _ \<Rightarrow> False | Inr out \<Rightarrow> co_active_after out = 1" by code_simp
  then obtain out where "snd ex_consolidated = Inr out" by (auto split: sum.splits)
  then have c: "consolidate ex_plain_env ''alice'' None ex_two_memories = (fst ex_consolidated, Inr out)"
    unfolding ex_consolidated_def by (simp add: prod_eq_iff)
  have "a \<noteq> b" using ne by blast
  from consolidation_merges_unrelated_contents [OF reach ab this blank c, of "[]"] show ?thesis using ab ne by blast
qed

section \<open>What the integrity check does not see\<close>

text \<open>A direct edit of rows behind the ledger's back.\<close>

definition update_rows :: "(memory_record \<Rightarrow> bool) \<Rightarrow> memory_record \<Rightarrow> 'g ledger \<Rightarrow> 'g ledger" where
  "update_rows P forged L = L\<lparr>lg_records := map (\<lambda>r. if P r then forged else r) (lg_records L)\<rparr>"

lemma log_grows:
  assumes "log_ok (lg_log L)"
  shows "set (legitimately_changed (events_of L s)) \<subseteq> set (legitimately_changed (events_of (fst (log_event E sub ty pl ac se tu re L)) s))"
    and "set (changed_in ty re pl) \<subseteq> set (legitimately_changed (events_of (fst (log_event E sub ty pl ac se tu re L)) sub))"
  using log_event_events [OF assms, of ty pl re E sub ac se tu] by fastforce+

lemma mutations_grow:
  "log_ok (lg_log L) \<Longrightarrow>
     set (legitimately_changed (events_of L s)) \<subseteq> set (legitimately_changed (events_of (audit_graph_mutations E sub se tu re ms L) s))"
  unfolding audit_graph_mutations_def
proof (induction ms arbitrary: L)
  case (Cons m ms)
  show ?case unfolding fold_Cons comp_apply
    by (rule subset_trans [OF log_grows(1) [OF Cons.prems] Cons.IH [OF log_event_log_ok [OF Cons.prems]]])
qed simp

lemma promote_body_shape:
  assumes st: "promote_body E sub rid session t actor L = Inr (L', out)" and ok: "tables_ok L"
  shows "\<exists>L2 pl M ms. lg_log L2 = lg_log L \<and> rid \<noteq> [] \<and>
     lg_log M = lg_log (fst (log_event E sub ''memory.record_promoted'' pl actor session (turn_id t) (Some rid) L2)) \<and>
     L' = audit_graph_mutations E sub session (turn_id t) (Some rid) ms M"
proof -
  obtain L1 found where one: "promote_record E sub rid TRUST_TIER_CONFIRMED L = (L1, found)" by fastforce
  from st one obtain r where found: "found = Some r" by (cases found) (simp_all add: promote_body_def Let_def)
  have r: "lg_log L1 = lg_log L" "r \<in> set (lg_records L1)" "row_of sub rid r" "tables_ok L1"
    using promote_record_rows [OF one [unfolded found] ok, simplified] by blast+
  then have "rid \<noteq> []" by (auto simp: tables_ok_def rows_ok_def row_of_def)
  moreover have log: "lg_log (fst (graph_index E q (fst (graph_supersede E sub ids b M)))) = lg_log M" for q ids b M
    by (simp add: graph_index_def graph_supersede_def split_beta)
  moreover have "\<exists>old pl q ms. L' = audit_graph_mutations E sub session (turn_id t) (Some rid) ms
      (fst (graph_index E q (fst (graph_supersede E sub old rid
         (fst (log_event E sub ''memory.record_promoted'' pl actor session (turn_id t) (Some rid) (supersede_records E sub old rid L1)))))))"
    using st unfolding promote_body_def one found Let_def case_prod_conv option.case
    by (auto simp: split_beta split: option.splits)
  ultimately show ?thesis using supersede_log r(1) by metis
qed

lemma promotion_flagged:
  assumes "promote_body E sub rid session t actor L = Inr (L1, promoted)" and "tables_ok L" and "log_ok (lg_log L)"
  shows "rid \<in> set (legitimately_changed (events_of L1 sub))"
proof -
  obtain L2 pl M ms where M: "lg_log L2 = lg_log L" "rid \<noteq> []"
      "lg_log M = lg_log (fst (log_event E sub ''memory.record_promoted'' pl actor session (turn_id t) (Some rid) L2))"
      "L1 = audit_graph_mutations E sub session (turn_id t) (Some rid) ms M"
    using promote_body_shape [OF assms(1,2)] by blast
  have ok2: "log_ok (lg_log L2)" using assms(3) by (simp add: M(1))
  have "rid \<in> set (changed_in ''memory.record_promoted'' (Some rid) pl)" using M(2) by (simp add: changed_in_def or_empty_def)
  then have "rid \<in> set (legitimately_changed (events_of M sub))"
    using log_grows(2) [OF ok2] unfolding events_of_def M(3) by blast
  moreover have "log_ok (lg_log M)" using log_event_log_ok [OF ok2] by (simp add: M(3))
  ultimately show ?thesis using mutations_grow unfolding M(4) by blast
qed

lemma flagged_row_edit:
  assumes inv: "ledger_inv E {} {} {} L1" and "env_ok E" and legit: "rid \<in> set (legitimately_changed (events_of L1 sub))"
    and forged: "mr_id forged = rid" "mr_subject_id forged = sub"
  shows "ir_valid (verify_record_integrity E (update_rows (row_of sub rid) forged L1) s)"
proof -
  have snd1: "sound E {} {} L1" and dist: "distinct (map mr_id (lg_records L1))"
    using inv assms(2) inv_distinct [OF inv] by (simp_all add: ledger_inv_def)
  let ?F = "update_rows (row_of sub rid) forged L1"
  have F: "lg_records ?F = map (\<lambda>r. if row_of sub rid r then forged else r) (lg_records L1)" "lg_log ?F = lg_log L1"
    by (simp_all add: update_rows_def)
  have dF: "distinct (map mr_id (lg_records ?F))"
  proof -
    have "map mr_id (lg_records ?F) = map mr_id (lg_records L1)" unfolding F by (auto simp: row_of_def forged(1))
    then show ?thesis using dist by simp
  qed
  let ?es = "list_audit_events (lg_log ?F) s"
  have es: "?es = events_of L1 s" by (simp add: F(2) events_of_def)
  have one: "\<exists>r\<in>set (lg_records ?F). row_of s i r \<and> record_integrity_sha256 E r = h"
    if c: "map_of (commitments ?es) i = Some h" "i \<notin> set (legitimately_changed ?es)" for i h
  proof -
    obtain r where r: "r \<in> set (lg_records L1)" "row_of s i r" using snd1 c(1) unfolding sound_def es by blast
    then have "recorded E L1 r" using snd1 by (auto simp: sound_def)
    then have "record_integrity_sha256 E r = h" using r c unfolding es by (auto simp: recorded_def row_of_def Let_def)
    moreover have "\<not> row_of sub rid r" using r(2) c(2) legit unfolding es by (auto simp: row_of_def)
    then have "r \<in> set (lg_records ?F)" unfolding F set_map using r(1) by (intro image_eqI [OF _ r(1)]) simp
    ultimately show ?thesis using r(2) by blast
  qed
  have two: "mr_id r \<in> set (known_record_ids ?es)" if r: "r \<in> set (lg_records ?F)" "mr_subject_id r = s" for r
  proof -
    obtain x where x: "x \<in> set (lg_records L1)" "mr_id r = mr_id x" "mr_subject_id r = mr_subject_id x"
      using r(1) unfolding F by (auto simp: row_of_def forged split: if_splits)
    then show ?thesis using snd1 r(2) unfolding es by (auto simp: sound_def announced_def)
  qed
  show ?thesis using one two by (subst integrity_valid [OF dF refl]) blast
qed

text \<open>[C28] A promoted record is no longer pinned.  After a promotion the chain carries no commitment to the row that became
  active and the check skips it: the row can be replaced by any other content, tier or status under the same identifier
  and the check of every subject stays valid.\<close>

theorem edited_promotion_goes_unnoticed:
  assumes "reachable_ledger E L" and "env_ok E" and "promote E sub rid session t actor L = (L1, Inr promoted)"
    and "mr_id forged = rid" and "mr_subject_id forged = sub"
  shows "ir_valid (verify_record_integrity E (update_rows (row_of sub rid) forged L1) s)"
proof -
  have body: "promote_body E sub rid session t actor L = Inr (L1, promoted)"
    using assms(3) by (auto simp: promote_def atomic_def split: sum.splits)
  note inv = reachable_inv [OF assms(1)]
  have "rid \<in> set (legitimately_changed (events_of L1 sub))"
    by (rule promotion_flagged [OF body inv_tables [OF inv]]) (use inv in \<open>simp add: ledger_inv_def\<close>)
  then show ?thesis by (rule flagged_row_edit [OF promote_body_inv [OF inv body] assms(2) _ assms(4,5)])
qed

text \<open>A proposal of another agent, promoted, and its row replaced.\<close>

definition ex_proposed :: "nat ledger" where
  "ex_proposed = fst (propose_facts ex_memory_env ''alice''
     [\<lparr>fp_content = Some ''owns a cat'', fp_evidence = [''rec_4''], fp_fact_key = None, fp_confidence = 50\<rparr>] ''llm'' None ex_memory)"

definition ex_promoted :: "nat ledger \<times> (memory_error + memory_record)" where
  "ex_promoted = promote ex_memory_env ''alice'' ''rec_10'' None None ''user'' ex_proposed"

definition ex_forged :: memory_record where
  "ex_forged = record_of ''rec_10'' ''alice'' 0
     \<lparr>ra_content = ''owns a dog'', ra_source_type = ''user_message'', ra_trust_tier = TRUST_TIER_USER, ra_session_id = None,
      ra_turn_id = None, ra_episode_id = None, ra_confidence = None, ra_scope = [], ra_status = RActive,
      ra_supersedes_id = None, ra_fact_key = None, ra_raw = JNull\<rparr>"

theorem edited_promotion_goes_unnoticed_witness:
  "ir_valid (verify_record_integrity ex_memory_env (update_rows (row_of ''alice'' ''rec_10'') ex_forged (fst ex_promoted)) ''alice'') \<and>
   ex_forged \<in> set (lg_records (update_rows (row_of ''alice'' ''rec_10'') ex_forged (fst ex_promoted))) \<and>
   ex_forged \<notin> set (lg_records (fst ex_promoted))"
proof (intro conjI)
  have reach: "reachable_ledger ex_memory_env ex_proposed"
    using ex_memory_reachable unfolding reachable_ledger_def ex_proposed_def by (meson rtranclp.rtrancl_into_rtrancl propose)
  have "case snd ex_promoted of Inl _ \<Rightarrow> False | Inr r \<Rightarrow> mr_status r = RActive" by code_simp
  then obtain r where "snd ex_promoted = Inr r" by (auto split: sum.splits)
  then have p: "promote ex_memory_env ''alice'' ''rec_10'' None None ''user'' ex_proposed = (fst ex_promoted, Inr r)"
    unfolding ex_promoted_def by (simp add: prod_eq_iff)
  show "ir_valid (verify_record_integrity ex_memory_env (update_rows (row_of ''alice'' ''rec_10'') ex_forged (fst ex_promoted)) ''alice'')"
    by (rule edited_promotion_goes_unnoticed [OF reach ex_env_ok p]) (simp_all add: ex_forged_def record_of_def)
  have rows: "map (\<lambda>r. (mr_id r, mr_subject_id r, mr_content r)) (lg_records (fst ex_promoted)) =
      [(''rec_4'', ''alice'', ''green tea''), (''rec_10'', ''alice'', ''owns a cat'')]" by code_simp
  then have "\<exists>r\<in>set (lg_records (fst ex_promoted)). row_of ''alice'' ''rec_10'' r" by (auto simp: row_of_def)
  then show "ex_forged \<in> set (lg_records (update_rows (row_of ''alice'' ''rec_10'') ex_forged (fst ex_promoted)))"
    by (auto simp: update_rows_def)
  have "''owns a dog'' \<notin> mr_content ` set (lg_records (fst ex_promoted))" using rows by auto
  moreover have "mr_content ex_forged = ''owns a dog''" by (simp add: ex_forged_def record_of_def)
  ultimately show "ex_forged \<notin> set (lg_records (fst ex_promoted))" by (metis imageI)
qed

end
