(* ===== verification/Memory_Actions.thy ===== *)
theory Memory_Actions
  imports Memory_Properties Scope_Enablement
begin

text \<open>
  What the logged actions of an agent can reach.  The action log, the settings of the scopes and the commitments of
  the records share one chain, and \<^verbatim>\<open>log_action\<close> (\<^verbatim>\<open>src/atmem/memory.py\<close>, offered to agents as the tool
  \<^verbatim>\<open>memory_log_action\<close> of \<^verbatim>\<open>src/atmem/mcp/server.py\<close>) takes the event type and the payload from its caller.
\<close>

definition enabling_payload :: "authority_scope \<Rightarrow> json" where
  "enabling_payload sc =
     JObj [(''agent_id'', JStr (sc_agent_id sc)), (''workspace_id'', JStr (sc_workspace_id sc)), (''shadow'', JBool False)]"

lemma log_action_log:
  "\<exists>i now. lg_log (fst (log_action E sub ty pl se t ac L)) =
     append_audit_event (me_hashes E) i now sub (if CHR ''.'' \<in> set ty then ty else ''agent.'' @ ty) pl ac se (turn_id t) None (lg_log L)"
  by (auto simp: log_action_def log_event_def Let_def)

text \<open>[C36] An agent can switch on a scope.  Whatever the mode of a scope was, one logged action of the type
  \<^verbatim>\<open>task_state.scope_enabled\<close> makes the scope active, so that task state reaches models, by whatever actor and without the
  control plane; no other scope changes and the audit chain of every subject goes on verifying.\<close>

theorem agent_action_switches_scope:
  assumes "log_ok (lg_log L)"
  shows "influences_agent (mode (lg_log (fst (log_action E (sc_subject_id sc) ''task_state.scope_enabled''
       (enabling_payload sc) se t ac L))) sc) \<and>
    (sc' \<noteq> sc \<longrightarrow> mode (lg_log (fst (log_action E (sc_subject_id sc) ''task_state.scope_enabled''
       (enabling_payload sc) se t ac L))) sc' = mode (lg_log L) sc') \<and>
    (verify_audit_chain (me_hashes E) (lg_log L) s \<longrightarrow>
       verify_audit_chain (me_hashes E) (lg_log (fst (log_action E (sc_subject_id sc) ''task_state.scope_enabled''
       (enabling_payload sc) se t ac L))) s)"
proof -
  obtain i now where log: "lg_log (fst (log_action E (sc_subject_id sc) ''task_state.scope_enabled'' (enabling_payload sc) se t ac L)) =
     append_audit_event (me_hashes E) i now (sc_subject_id sc) ENABLED_EVENT (enabling_payload sc) ac se (turn_id t) None (lg_log L)"
    using log_action_log [of E "sc_subject_id sc" "''task_state.scope_enabled''"] unfolding ENABLED_EVENT_def by fastforce
  have on: "influences_agent (mode (append_audit_event (me_hashes E) i now (sc_subject_id sc) ENABLED_EVENT (enabling_payload sc)
      ac se (turn_id t) None (lg_log L)) sc)"
    by (simp add: mode_append [OF assms] enabling_payload_def influences_agent_def ENABLED_EVENT_def DISABLED_EVENT_def)
  have others: "mode (append_audit_event (me_hashes E) i now (sc_subject_id sc) ENABLED_EVENT (enabling_payload sc)
      ac se (turn_id t) None (lg_log L)) sc' = mode (lg_log L) sc'" if "sc' \<noteq> sc"
    using that by (auto simp: mode_append [OF assms] enabling_payload_def dest: scope_fields_eq)
  show ?thesis unfolding log using on others append_verifies [OF assms] by blast
qed

theorem agent_action_switches_scope_witness:
  "influences_agent (mode (lg_log (fst (log_action ex_memory_env (sc_subject_id ex_scope) ''task_state.scope_enabled''
     (enabling_payload ex_scope) None None ''agent'' ex_memory))) ex_scope) \<and>
   mode (lg_log ex_memory) ex_scope = DISABLED"
proof
  have "log_ok (lg_log ex_memory)" using reachable_inv [OF ex_memory_reachable] by (simp add: ledger_inv_def)
  from agent_action_switches_scope [OF this]
  show "influences_agent (mode (lg_log (fst (log_action ex_memory_env (sc_subject_id ex_scope) ''task_state.scope_enabled''
     (enabling_payload ex_scope) None None ''agent'' ex_memory))) ex_scope)" by blast
  show "mode (lg_log ex_memory) ex_scope = DISABLED" by code_simp
qed

text \<open>
  An action whose payload lists a record under a key that the integrity check reads exempts the record: its row can then
  be replaced and the check stays valid.
\<close>

lemma agent_action_exempts_record:
  assumes "reachable_ledger E L" and "env_ok E" and "rid \<noteq> []" and "mr_id forged = rid" "mr_subject_id forged = sub"
    and L1: "L1 = fst (log_action E sub ''tool_call'' (JObj [(''supersedes'', strs_json [rid])]) se t ac L)"
  shows "ir_valid (verify_record_integrity E (update_rows (row_of sub rid) forged L1) s)"
proof -
  note inv = reachable_inv [OF assms(1)]
  have ty: "L1 = fst (log_event E sub ''agent.tool_call'' (JObj [(''supersedes'', strs_json [rid])]) ac se (turn_id t) None L)"
    by (simp add: L1 log_action_def)
  have "ledger_inv E {} {} {} L1" unfolding ty by (rule note_inv [OF inv]) (simp add: creation_events_def)
  moreover have "rid \<in> set (legitimately_changed (events_of L1 sub))"
  proof -
    have "rid \<in> set (changed_in ''agent.tool_call'' None (JObj [(''supersedes'', strs_json [rid])]))"
      using assms(3) by (simp add: changed_in_def jstrings_def strs_json_def)
    moreover have "log_ok (lg_log L)" using inv by (simp add: ledger_inv_def)
    ultimately show ?thesis unfolding ty using log_grows(2) by blast
  qed
  ultimately show ?thesis by (rule flagged_row_edit [OF _ assms(2) _ assms(4,5)])
qed

end
