(* ===== verification/Process_Locks.thy ===== *)
theory Process_Locks
  imports Task_Prelude
begin

text \<open>
  File locks between processes and threads (\<^verbatim>\<open>src/atmem/locking.py\<close>), on POSIX.  The state joins the dictionaries
  \<^verbatim>\<open>_PROCESS_LOCKS\<close> of all processes, whose keys carry the process identifier, the lock objects, and the kernel's
  table of locked open files.  A call runs as one step while it holds the guard \<^verbatim>\<open>_PROCESS_LOCKS_CHANGED\<close>; a thread
  inside a blocking \<^verbatim>\<open>flock\<close> keeps the guard of its process, so its state between the steps is part of the model.
  Waiting on the condition releases the guard and starts over, so it is a call without effect.  The file that a path
  names and the outcome of a caller's validator are parameters; the Windows branch is not modelled.
\<close>

section \<open>State\<close>

record held_lock =
  hk_descriptor :: nat
  hk_exclusive :: bool
  hk_references :: nat
  hk_owner_thread :: "nat option"

type_synonym lock_key = "nat \<times> string"

record lock_object =
  lo_pid :: nat
  lo_path :: string
  lo_exclusive :: bool
  lo_blocking :: bool
  lo_key :: "lock_key option"

record open_lock =
  ol_pid :: nat
  ol_descriptor :: nat
  ol_file :: nat
  ol_exclusive :: bool

text \<open>
  \<open>ls_flocks\<close> is the kernel's table of locked open files, \<open>ls_waiting\<close> the thread, object
  and descriptor of the \<^verbatim>\<open>flock\<close> call a process is blocked in, and \<open>ls_taker\<close> the thread whose call last gave an
  object its key, which the code does not store.  A call on an object that has its key returns at once, in whatever
  thread, and takes nothing.
\<close>

record lock_system =
  ls_held :: "lock_key \<Rightarrow> held_lock option"
  ls_objects :: "nat \<Rightarrow> lock_object option"
  ls_flocks :: "open_lock list"
  ls_waiting :: "nat \<Rightarrow> (nat \<times> nat \<times> nat) option"
  ls_next :: nat
  ls_taker :: "nat \<Rightarrow> nat"

definition no_locks :: lock_system where
  "no_locks = \<lparr>ls_held = \<lambda>k. None, ls_objects = \<lambda>i. None, ls_flocks = [], ls_waiting = \<lambda>p. None, ls_next = 0, ls_taker = \<lambda>i. 0\<rparr>"

datatype lock_result = Acquired | BlockingIOError | ValidatorError | CondWait | InFlock | GuardBusy | Closed | KeyError

section \<open>Operations\<close>

text \<open>The kernel grants a shared lock beside shared ones and an exclusive lock only alone.\<close>

definition flock_free :: "nat \<Rightarrow> bool \<Rightarrow> lock_system \<Rightarrow> bool" where
  "flock_free f exclusive s = list_all (\<lambda>l. ol_file l = f \<longrightarrow> \<not> ol_exclusive l \<and> \<not> exclusive) (ls_flocks s)"

definition lock_identity :: "lock_object \<Rightarrow> lock_key" where
  "lock_identity ob = (lo_pid ob, lo_path ob)"

definition take_key :: "nat \<Rightarrow> nat \<Rightarrow> lock_object \<Rightarrow> held_lock \<Rightarrow> lock_system \<Rightarrow> lock_system" where
  "take_key t i ob h s =
     s\<lparr>ls_held := (ls_held s)(lock_identity ob \<mapsto> h),
       ls_objects := (ls_objects s)(i \<mapsto> ob\<lparr>lo_key := Some (lock_identity ob)\<rparr>),
       ls_taker := (ls_taker s)(i := t)\<rparr>"

definition grant :: "(string \<Rightarrow> nat) \<Rightarrow> nat \<Rightarrow> nat \<Rightarrow> nat \<Rightarrow> lock_object \<Rightarrow> lock_system \<Rightarrow> lock_system" where
  "grant inode t i d ob s =
     take_key t i ob
       \<lparr>hk_descriptor = d, hk_exclusive = lo_exclusive ob, hk_references = 1,
        hk_owner_thread = (if lo_exclusive ob then Some t else None)\<rparr>
       (s\<lparr>ls_flocks := \<lparr>ol_pid = lo_pid ob, ol_descriptor = d, ol_file = inode (lo_path ob), ol_exclusive = lo_exclusive ob\<rparr> # ls_flocks s\<rparr>)"

definition acquire ::
  "(string \<Rightarrow> nat) \<Rightarrow> (nat \<Rightarrow> bool) \<Rightarrow> nat \<Rightarrow> nat \<Rightarrow> lock_object \<Rightarrow> lock_system \<Rightarrow> lock_result \<times> lock_system" where
  "acquire inode valid t i ob s =
     (if lo_key ob \<noteq> None then (Acquired, s)
      else if ls_waiting s (lo_pid ob) \<noteq> None then (GuardBusy, s)
      else
        (case ls_held s (lock_identity ob) of
           Some h \<Rightarrow>
             if hk_exclusive h \<noteq> lo_exclusive ob then (BlockingIOError, s)
             else if hk_exclusive h \<and> hk_owner_thread h \<noteq> Some t
             then (if \<not> lo_blocking ob then BlockingIOError else CondWait, s)
             else (Acquired, take_key t i ob (h\<lparr>hk_references := hk_references h + 1\<rparr>) s)
         | None \<Rightarrow>
             (let d = ls_next s; s1 = s\<lparr>ls_next := d + 1\<rparr> in
              if \<not> valid d then (ValidatorError, s1)
              else if flock_free (inode (lo_path ob)) (lo_exclusive ob) s then (Acquired, grant inode t i d ob s1)
              else if \<not> lo_blocking ob then (BlockingIOError, s1)
              else (InFlock, s1\<lparr>ls_waiting := (ls_waiting s)(lo_pid ob \<mapsto> (t, i, d))\<rparr>))))"

text \<open>The blocked call returns when the kernel can grant the lock; a failing one closes its descriptor.\<close>

definition flock_returns :: "(string \<Rightarrow> nat) \<Rightarrow> nat \<Rightarrow> lock_system \<Rightarrow> lock_system" where
  "flock_returns inode p s =
     (case ls_waiting s p of
        None \<Rightarrow> s
      | Some (t, i, d) \<Rightarrow>
          (case ls_objects s i of
             None \<Rightarrow> s
           | Some ob \<Rightarrow>
               if flock_free (inode (lo_path ob)) (lo_exclusive ob) s
               then grant inode t i d ob (s\<lparr>ls_waiting := (ls_waiting s)(p := None)\<rparr>) else s))"

definition flock_fails :: "nat \<Rightarrow> lock_system \<Rightarrow> lock_system" where
  "flock_fails p s = s\<lparr>ls_waiting := (ls_waiting s)(p := None)\<rparr>"

definition close_lock :: "nat \<Rightarrow> lock_object \<Rightarrow> lock_system \<Rightarrow> lock_result \<times> lock_system" where
  "close_lock i ob s =
     (case lo_key ob of
        None \<Rightarrow> (Closed, s)
      | Some key \<Rightarrow>
          if ls_waiting s (lo_pid ob) \<noteq> None then (GuardBusy, s)
          else
            (case ls_held s key of
               None \<Rightarrow> (KeyError, s)
             | Some h \<Rightarrow>
                 (let s1 = s\<lparr>ls_objects := (ls_objects s)(i \<mapsto> ob\<lparr>lo_key := None\<rparr>)\<rparr> in
                  if hk_references h - 1 \<noteq> 0
                  then (Closed, s1\<lparr>ls_held := (ls_held s)(key \<mapsto> h\<lparr>hk_references := hk_references h - 1\<rparr>)\<rparr>)
                  else (Closed, s1\<lparr>ls_held := (ls_held s)(key := None),
                                  ls_flocks := filter (\<lambda>l. ol_descriptor l \<noteq> hk_descriptor h) (ls_flocks s)\<rparr>))))"

text \<open>A process that ends loses its memory, and the kernel closes its open files.\<close>

definition process_dies :: "nat \<Rightarrow> lock_system \<Rightarrow> lock_system" where
  "process_dies p s =
     s\<lparr>ls_held := (\<lambda>k. if fst k = p then None else ls_held s k),
       ls_objects := (\<lambda>i. case ls_objects s i of None \<Rightarrow> None | Some ob \<Rightarrow> if lo_pid ob = p then None else Some ob),
       ls_flocks := filter (\<lambda>l. ol_pid l \<noteq> p) (ls_flocks s),
       ls_waiting := (ls_waiting s)(p := None)\<rparr>"

inductive lock_step :: "(string \<Rightarrow> nat) \<Rightarrow> lock_system \<Rightarrow> lock_system \<Rightarrow> bool" for inode where
  creates: "ls_objects s i = None \<Longrightarrow> lo_key ob = None \<Longrightarrow> lock_step inode s (s\<lparr>ls_objects := (ls_objects s)(i \<mapsto> ob)\<rparr>)"
| acquires: "ls_objects s i = Some ob \<Longrightarrow> acquire inode valid t i ob s = (r, s') \<Longrightarrow> lock_step inode s s'"
| closes: "ls_objects s i = Some ob \<Longrightarrow> close_lock i ob s = (r, s') \<Longrightarrow> lock_step inode s s'"
| returns: "lock_step inode s (flock_returns inode p s)"
| fails: "lock_step inode s (flock_fails p s)"
| dies: "lock_step inode s (process_dies p s)"

section \<open>The invariant\<close>

definition holders :: "lock_system \<Rightarrow> lock_key \<Rightarrow> nat set" where
  "holders s key = {i. \<exists>ob. ls_objects s i = Some ob \<and> lo_key ob = Some key}"







lemma holders_frame [simp]:
  "holders (s\<lparr>ls_held := x\<rparr>) = holders s" "holders (s\<lparr>ls_flocks := y\<rparr>) = holders s" "holders (s\<lparr>ls_waiting := w\<rparr>) = holders s"
  "holders (s\<lparr>ls_next := n\<rparr>) = holders s"
  by (simp_all add: holders_def fun_eq_iff)











text \<open>An object takes a key: its entry is new or already there.\<close>

lemma take_key_fields [simp]:
  "ls_held (take_key t i ob h s) = (ls_held s)(lock_identity ob \<mapsto> h)"
  "ls_objects (take_key t i ob h s) = (ls_objects s)(i \<mapsto> ob\<lparr>lo_key := Some (lock_identity ob)\<rparr>)"
  "ls_taker (take_key t i ob h s) = (ls_taker s)(i := t)" "ls_flocks (take_key t i ob h s) = ls_flocks s"
  "ls_waiting (take_key t i ob h s) = ls_waiting s" "ls_next (take_key t i ob h s) = ls_next s"
  by (simp_all add: take_key_def)

lemma lock_identity_key [simp]: "lock_identity (ob\<lparr>lo_key := k\<rparr>) = lock_identity ob"
  by (simp add: lock_identity_def)













section \<open>Mutual exclusion\<close>



section \<open>Two processes that only release\<close>

text \<open>No call of any thread changes anything, although no thread waits for one lock while it holds another.\<close>

definition lock_stuck :: "(string \<Rightarrow> nat) \<Rightarrow> lock_system \<Rightarrow> bool" where
  "lock_stuck inode s \<longleftrightarrow>
     (\<forall>i ob. ls_objects s i = Some ob \<longrightarrow>
        (\<forall>valid t. snd (acquire inode valid t i ob s) = s) \<and> snd (close_lock i ob s) = s) \<and>
     (\<forall>p. flock_returns inode p s = s)"

definition waits_empty_handed :: "lock_system \<Rightarrow> bool" where
  "waits_empty_handed s \<longleftrightarrow>
     (\<forall>p t i d. ls_waiting s p = Some (t, i, d) \<longrightarrow>
        (\<forall>j ob. ls_objects s j = Some ob \<and> lo_pid ob = p \<and> lo_key ob \<noteq> None \<longrightarrow> ls_taker s j \<noteq> t))"

definition ex_inode :: "string \<Rightarrow> nat" where
  "ex_inode path = (if path = ''x'' then 0 else 1)"

definition ex_lock :: "nat \<Rightarrow> string \<Rightarrow> bool \<Rightarrow> lock_object" where
  "ex_lock p path blocking = \<lparr>lo_pid = p, lo_path = path, lo_exclusive = True, lo_blocking = blocking, lo_key = None\<rparr>"

definition ex_created :: lock_system where
  "ex_created =
     no_locks\<lparr>ls_objects := (\<lambda>i. None)(0 \<mapsto> ex_lock 1 ''x'' False, 1 \<mapsto> ex_lock 1 ''y'' True,
                                  2 \<mapsto> ex_lock 2 ''y'' False, 3 \<mapsto> ex_lock 2 ''x'' True)\<rparr>"

definition ex_take :: "nat \<Rightarrow> nat \<Rightarrow> lock_system \<Rightarrow> lock_system" where
  "ex_take t i s = (case ls_objects s i of None \<Rightarrow> s | Some ob \<Rightarrow> snd (acquire ex_inode (\<lambda>d. True) t i ob s))"

text \<open>Threads 10 and 20 take \<open>x\<close> and \<open>y\<close> in two processes, then threads 11 and 21 wait for the other one.\<close>

definition ex_stuck :: lock_system where
  "ex_stuck = ex_take 21 3 (ex_take 11 1 (ex_take 20 2 (ex_take 10 0 ex_created)))"

lemma ex_take_star: "(lock_step ex_inode)\<^sup>*\<^sup>* no_locks s \<Longrightarrow> (lock_step ex_inode)\<^sup>*\<^sup>* no_locks (ex_take t i s)"
proof (cases "ls_objects s i")
  case (Some ob)
  assume "(lock_step ex_inode)\<^sup>*\<^sup>* no_locks s"
  moreover have "lock_step ex_inode s (ex_take t i s)"
    unfolding ex_take_def Some using acquires [OF Some prod.collapse [symmetric]] by simp
  ultimately show ?thesis by simp
qed (simp add: ex_take_def)

lemma ex_created_star: "(lock_step ex_inode)\<^sup>*\<^sup>* no_locks ex_created"
proof -
  let ?new = "\<lambda>s i ob. s\<lparr>ls_objects := (ls_objects s)(i \<mapsto> ob)\<rparr>"
  have new: "(lock_step ex_inode)\<^sup>*\<^sup>* no_locks (?new s i ob)"
    if "(lock_step ex_inode)\<^sup>*\<^sup>* no_locks s" "ls_objects s i = None" "lo_key ob = None" for s i ob
    using that creates [of s i ob ex_inode] by simp
  have "(lock_step ex_inode)\<^sup>*\<^sup>* no_locks
      (?new (?new (?new (?new no_locks 0 (ex_lock 1 ''x'' False)) 1 (ex_lock 1 ''y'' True)) 2 (ex_lock 2 ''y'' False)) 3 (ex_lock 2 ''x'' True))"
    by (intro new) (simp_all add: no_locks_def ex_lock_def)
  then show ?thesis by (simp add: ex_created_def no_locks_def)
qed

lemma ex_stuck_star: "(lock_step ex_inode)\<^sup>*\<^sup>* no_locks ex_stuck"
  unfolding ex_stuck_def by (intro ex_take_star ex_created_star)

lemmas ex_lock_simps = ex_take_def ex_created_def no_locks_def ex_lock_def ex_inode_def acquire_def grant_def take_key_def
  lock_identity_def flock_free_def Let_def

lemma ex_stuck_objects:
  "ls_objects ex_stuck = (\<lambda>i. None)(0 \<mapsto> (ex_lock 1 ''x'' False)\<lparr>lo_key := Some (1, ''x'')\<rparr>, 1 \<mapsto> ex_lock 1 ''y'' True,
     2 \<mapsto> (ex_lock 2 ''y'' False)\<lparr>lo_key := Some (2, ''y'')\<rparr>, 3 \<mapsto> ex_lock 2 ''x'' True)"
  by (simp add: ex_stuck_def ex_lock_simps fun_upd_twist)

lemma ex_stuck_fields:
  "ls_waiting ex_stuck = (\<lambda>p. None)(1 \<mapsto> (11, 1, 2), 2 \<mapsto> (21, 3, 3))"
  "map (\<lambda>l. (ol_file l, ol_exclusive l)) (ls_flocks ex_stuck) = [(1, True), (0, True)]"
  "ls_taker ex_stuck = (\<lambda>i. 0)(0 := 10, 2 := 20)"
  by (simp_all add: ex_stuck_def ex_lock_simps fun_upd_twist numeral_2_eq_2 numeral_3_eq_3)

lemma ex_stuck_free: "\<not> flock_free 0 True ex_stuck" "\<not> flock_free 1 True ex_stuck"
proof -
  have l: "flock_free f True ex_stuck \<longleftrightarrow> list_all (\<lambda>(g, x). g = f \<longrightarrow> False) (map (\<lambda>l. (ol_file l, ol_exclusive l)) (ls_flocks ex_stuck))" for f
    by (simp add: flock_free_def list_all_iff)
  show "\<not> flock_free 0 True ex_stuck" "\<not> flock_free 1 True ex_stuck" unfolding l ex_stuck_fields(2) by simp_all
qed

text \<open>
  [C37] A blocking wait can stop everything.  Two processes can reach a state in which no call of any thread makes
  progress: each has a thread blocked in the kernel for a file that the other process has locked, and because the
  blocked thread keeps the guard of its process, the thread that holds the lock cannot release it.  No thread in
  that state waits while it holds a lock, so no order of acquiring locks avoids it.
\<close>

theorem guard_blocks_release:
  "\<exists>inode s. (lock_step inode)\<^sup>*\<^sup>* no_locks s \<and> ls_waiting s 1 \<noteq> None \<and> ls_waiting s 2 \<noteq> None \<and>
     lock_stuck inode s \<and> waits_empty_handed s"
proof (intro exI conjI)
  have objects: "i \<in> {0, 1, 2, 3} \<and> lo_pid ob \<in> {1, 2}" if "ls_objects ex_stuck i = Some ob" for i ob
    using that unfolding ex_stuck_objects by (auto simp: ex_lock_def split: if_splits)
  have busy: "ls_waiting ex_stuck p \<noteq> None" if "p \<in> {1, 2}" for p using that by (auto simp: ex_stuck_fields)
  have "flock_returns ex_inode p ex_stuck = ex_stuck" for p
    using ex_stuck_free unfolding flock_returns_def
    by (auto simp: ex_stuck_fields ex_stuck_objects ex_lock_def ex_inode_def split: option.splits)
  moreover have "snd (acquire ex_inode valid t i ob ex_stuck) = ex_stuck" "snd (close_lock i ob ex_stuck) = ex_stuck"
    if "ls_objects ex_stuck i = Some ob" for valid t i ob
    using busy objects [OF that] by (auto simp: acquire_def close_lock_def split: option.splits)
  ultimately show "lock_stuck ex_inode ex_stuck" by (simp add: lock_stuck_def)
  show "waits_empty_handed ex_stuck"
    unfolding waits_empty_handed_def ex_stuck_fields ex_stuck_objects by (auto simp: ex_lock_def split: if_splits)
  show "(lock_step ex_inode)\<^sup>*\<^sup>* no_locks ex_stuck" by (rule ex_stuck_star)
  show "ls_waiting ex_stuck 1 \<noteq> None" "ls_waiting ex_stuck 2 \<noteq> None" using busy by simp_all
qed


end
