(* ===== verification/Spec2Isabelle.thy ===== *)
theory Spec2Isabelle
  imports History_Refinement Late_Commits Head_Guard Task_Guards Task_Delivery Task_Observability Task_Reading Guard_Enforcement Audit_Checkpoint
    Review_Authority Memory_Actions Process_Locks
begin

text \<open>
  Verification of the governed task state of AtMem (\<^verbatim>\<open>src/atmem/task_state\<close>, its tables in
  \<^verbatim>\<open>src/atmem/store/sqlite.py\<close>, its operations in \<^verbatim>\<open>src/atmem/control/manager.py\<close>), of the memory ledger
  (\<^verbatim>\<open>src/atmem/memory.py\<close>, \<^verbatim>\<open>src/atmem/core/policy.py\<close>), of the audit chain below both, and of the file locks (\<^verbatim>\<open>src/atmem/locking.py\<close>) that every store relies on.

  \<^bold>\<open>The program.\<close>  A task is a row with a head revision and a chain of immutable snapshots.  Agents and hosts send
  typed deltas against a revision; a pure policy decides; the service commits a decision in one transaction that
  compares the head with the revision the decision was made on, and records the proposal, the step and the
  provenance.  Lifecycle changes (pause, resume, complete, cancel, expire) append snapshots by the same guard.  A
  conversation is bound to at most one task; a scope is switched off, to shadow or on by events of an audit log
  whose entries hash the entry before them.  A host reaches a task through a boundary of gates.  At a model
  boundary the control plane turns the head snapshot into fenced text within a budget, records the delivery and
  later confirms that it was exposed.  The memory ledger keeps what is remembered of a subject as records with a
  trust tier and a slot: what the user said is active, what came from elsewhere is quarantined until it is promoted,
  a newer value of a slot supersedes the older one, and forgetting empties the row.  Every change writes an event,
  and a new record is pinned in its event by the digest of its row.

  \<^bold>\<open>Theories\<close>, in the order of the code.

  \<^item> Task_Prelude: sums as results, association tables with unique keys, strings of Python, the locale
    \<open>invariant_system\<close> of a transition system with an invariant.  Json_Values: JSON, its readers, the canonical form
    (\<^verbatim>\<open>core/canonical.py\<close>).
  \<^item> Task_Contracts (\<^verbatim>\<open>contracts/task_state.py\<close>, \<^verbatim>\<open>contracts/models.py\<close>): records, enumerations, the checks of
    \<^verbatim>\<open>__post_init__\<close> as predicates \<open>X_ok\<close>, encodings and digests.  Task_Codec: reading a stored snapshot back.
    Task_Governance (\<^verbatim>\<open>governance.py\<close>): capabilities of roles.  Task_Models (\<^verbatim>\<open>models.py\<close>): applying operations,
    readiness, blockers.  Task_Profiles (\<^verbatim>\<open>profiles.py\<close>): the registry and the reachability of phases.
    Task_Samples: example values.
  \<^item> Task_Policy (\<^verbatim>\<open>policy.py\<close>): evaluation of a proposal and of completion.  Task_Guards (\<^verbatim>\<open>guards.py\<close>): warnings.
  \<^item> Trusted_Time and Iso_Time (\<^verbatim>\<open>core/time.py\<close>): elapsed milliseconds in IEEE doubles, and the text of an instant.
  \<^item> Audit_Log: the hash chain, its full and its incremental verification.  Scope_Enablement (\<^verbatim>\<open>enablement.py\<close>): the
    switch of a scope, read from that log.
  \<^item> Task_Store: the task tables with their constraints and methods, as lists of rows in one record \<open>store\<close>.
    Session_Binding (\<^verbatim>\<open>binding.py\<close>): bindings of conversations.
  \<^item> Task_Service (\<^verbatim>\<open>service.py\<close>): start, submit, correct, lifecycle, completion, expiry, deletion.
    Service_Invariant: \<open>store_ok\<close> and that every operation keeps it.  Service_Steps: the step relation
    \<open>service_step\<close> and the locales \<open>service_changes\<close> and \<open>service_relation\<close> for relations between the stores before and
    after an operation, interpreted as growth of histories, as leaving the other tables alone, as sparing all other
    tasks, and as appending to the history of one task.  Service_Properties and Head_Guard: what follows.
    History_Refinement: the contract that each labelled call keeps on the histories of snapshots.  A commit in these
    theories is made on a snapshot that is still stored; Late_Commits: what a commit does whose task was deleted and
    started again in between.
  \<^item> Host_Boundary (\<^verbatim>\<open>host_boundary.py\<close> and the observation path of the service): observe, propose, request a
    lifecycle change.  Text_Escape and Task_Context (\<^verbatim>\<open>context.py\<close>): the text that reaches a model.
  \<^item> Task_Control (the task operations of \<^verbatim>\<open>control/manager.py\<close>), Task_System: all of the above over one store as the
    step relation \<open>system_step\<close> with the invariant \<open>system_ok\<close>.  Task_Delivery: what it takes for task bytes to
    reach a model.  Task_Observability (\<^verbatim>\<open>observability.py\<close>): the counters an operator sees.  Task_Reading: the
    paged list, the timeline, and provenance in words (\<^verbatim>\<open>provenance.py\<close>).  Guard_Enforcement (\<^verbatim>\<open>enforcement.py\<close>):
    what the capability response may claim.
  \<^item> Audit_Checkpoint (\<^verbatim>\<open>memory.py\<close>): checkpoints of the chain heads and \<^verbatim>\<open>verify\<close> against them.  Review_Authority: the
    tokens that authorize a review.
  \<^item> Memory_Policy (\<^verbatim>\<open>core/policy.py\<close>): sources, trust tiers, normal forms, requests to forget.  Memory_Store and
    Memory_Purge (\<^verbatim>\<open>store/sqlite.py\<close>): the tables of the ledger in one record \<open>ledger\<close> and their methods.
    Memory_Ledger (\<^verbatim>\<open>remember\<close> and \<^verbatim>\<open>extract/rules.py\<close>) and Memory_Operations (promote, reject, exclude, correct,
    propose, consolidate, forget, log an action, capture a turn): the operations of \<^verbatim>\<open>class Memory\<close>, each atomic.  Memory_Integrity
    (\<^verbatim>\<open>_verify_record_integrity\<close>): the rows against the chain.  Memory_Invariant: the effect of every store method on the
    rows and \<open>tables_ok\<close>.  Memory_Reachable: \<open>ledger_inv\<close>, which names the rows that are ahead of the log inside an
    operation.  Memory_Steps: every operation keeps it, and the step relation \<open>ledger_step\<close>.  Memory_Properties: what
    follows.  Memory_Actions: what the logged actions of an agent can reach.
  \<^item> Process_Locks (\<^verbatim>\<open>locking.py\<close>): locks between threads and processes, a transition system of its own.

  \<^bold>\<open>State and operations.\<close>  A row is a record with the columns as fields, a table a list of rows in insertion order; a
  unique or foreign key is a check of the insert that answers \<open>IntegrityError\<close>.  An operation of the service maps
  the store to the store it leaves and an answer, \<open>Inl\<close> an exception or \<open>Inr\<close> a result, and \<open>transaction\<close> restores
  the store when an exception leaves it.  Every exception of the source is a constructor of \<open>py_error\<close> or
  \<open>task_error\<close>.  Instants are microseconds; an operation takes the readings of the clock as a sequence.  Fresh
  identifiers come from a counter.

  \<^bold>\<open>What is shown.\<close>  Of the policy: what an accepted delta can and cannot change, that it always returns, that
  applying operations one by one and at once agree.  Of the service, for every store its operations can reach:
  well-formed tables and unbroken histories that only grow, commits as compare-and-swap on the head, exact replay,
  exact pause accounting, expiry, gated completion, complete deletion, scopes that see nothing of each other, and a
  refinement by histories to which each call may only append, on its task and on the last snapshot, and which only a
  start creates and only a deletion erases.  A commit on a task that was deleted and started again since it was read can
  leave a revision beyond the head.  Of the audit log: it always verifies, and
  two valid chains with one head agree.  Of the bindings, the switch, the boundary and the delivery: at most one
  binding, a switch that is a map, hosts that change only their task, bytes that are delivered exactly when
  authorized, an envelope that content cannot forge, a budget that is kept, exposures that are confirmed once.  Of
  the counters: isolation of scopes.  Of checkpoints: a log that verifies against one extends the pinned history.  Of
  the memory ledger, for every reachable ledger: only trusted records are active, one per slot; the indexes hold the
  active records; forgetting deletes exactly what it names; the comparison of rows and chain raises no false alarm after
  the modelled operations and notices an altered row, save a promoted one; and consolidation merges contents it should keep apart; an agent that may log actions
  can switch on a scope, and exempt a record from that comparison.  Of the locks: mutual exclusion of lock objects, which is
  not one of the threads that share an object, and a state without progress that two processes can reach.

  \<^bold>\<open>Bounds and fuel.\<close>  No definition runs on fuel: recursion is structural or has a measure, and \<open>reach_loop\<close> of the
  profiles ends by the number of phases not yet found.  Limits of the source are kept (500 listed tasks, 1000
  revisions, steps and deliveries read, 500 items, the character limits of each field); where a theorem needs fewer
  than 1000 revisions or an age below 71 years it says so.

  \<^bold>\<open>Parameters.\<close>  The hash functions are arguments (the record \<open>hashes\<close> and the digests of the context), and no
  theorem assumes that they have no collisions: the one about tampering names the collision.  The interpreter of
  observations, the clock, a validator of lock files and the file that a path names are arguments too.  The record
  \<open>memory_env\<close> holds those of the memory ledger: digests, clock and identifiers, the operations of the graph index
  with the mutations they report, the screening for secrets, the sentence patterns of the extractor, the purge of the
  vector indexes and the identity of a typed unit.  Where a theorem needs it, \<open>env_ok\<close> says that a digest has 64
  hexadecimal digits and that the graph reports no creation of a record.  The digest of a text is that of the JSON
  string.

  \<^bold>\<open>Not modelled.\<close>  SQL text, migrations and the connection; strings of the tables are ASCII except in the text that
  reaches a model, which is Unicode code points.  The readers \<^verbatim>\<open>from_dict\<close> of host requests.  Outside the
  task state: in the memory ledger, proposals of typed units and of extractions, the admission of media,
  recall and context packs; over it, extraction by models, context engine, semantic index and graph; code memory, evidence, identity, delegation, the remaining control plane, adapters and command line; much of it is
  natural-language heuristics, regular expressions, floating-point ranking, files or network.  Of the locks: the
  Windows branch and locks inherited by a forked process.
\<close>

end
